(* ===== verification/Prelude.thy ===== *)
theory Prelude
  imports Main "HOL-Library.AList" "HOL-Library.Multiset" "HOL-Library.Char_ord"
    "HOL-Library.List_Lexorder" "HOL-Library.Word"
begin

text \<open>
  The parts of the Go language and its standard library that every component of the engine uses,
  and the generic facts about them.

  \<^item> Strings are byte strings (\<^typ>\<open>string\<close>). The functions of package \<^verbatim>\<open>strings\<close> are given for
    ASCII text: bytes from 128 on are never letters or white space.
  \<^item> A Go map is an association list without duplicate keys. A \<^verbatim>\<open>range\<close> loop over a map visits the
    entries in an order the runtime picks at random: every operation that ranges over a map takes
    that order as an argument, a function that gives for each size a permutation of the positions.
  \<^item> \<^verbatim>\<open>sort.Slice\<close> is insertion sort, what the library runs on short slices. On longer slices only
    the order of elements that compare equal can differ.
  \<^item> A \<^verbatim>\<open>bufio.Scanner\<close> cuts its input into lines and stops with an error on a line that does not
    fit in its buffer.
  \<^item> \<^verbatim>\<open>time.Time\<close> is its instant (nanoseconds since 1970), \<^verbatim>\<open>time.Duration\<close> a number of nanoseconds.
\<close>

named_theorems gostr \<open>unfolding of the string functions\<close>

section \<open>Time\<close>

type_synonym time = int
type_synonym duration = int

text \<open>Where wrap-around matters an \<^verbatim>\<open>int64\<close> is a 64-bit word, read as a signed number.\<close>

type_synonym int64 = "64 word"

definition zeroTime :: time where
  "zeroTime = - 62135596800 * 1000000000"

definition IsZero :: "time \<Rightarrow> bool" where
  "IsZero t \<longleftrightarrow> t = zeroTime"

definition Second :: duration where
  "Second = 1000000000"

definition Hour :: duration where
  "Hour = 3600 * Second"

section \<open>Strings\<close>

definition HasPrefix :: "string \<Rightarrow> string \<Rightarrow> bool" where
  "HasPrefix s p \<longleftrightarrow> take (length p) s = p"

definition HasSuffix :: "string \<Rightarrow> string \<Rightarrow> bool" where
  "HasSuffix s p \<longleftrightarrow> length p \<le> length s \<and> drop (length s - length p) s = p"

definition TrimPrefix :: "string \<Rightarrow> string \<Rightarrow> string" where
  "TrimPrefix s p = (if HasPrefix s p then drop (length p) s else s)"

definition TrimSuffix :: "string \<Rightarrow> string \<Rightarrow> string" where
  "TrimSuffix s p = (if HasSuffix s p then take (length s - length p) s else s)"

definition CutPrefix :: "string \<Rightarrow> string \<Rightarrow> string option" where
  "CutPrefix s p = (if HasPrefix s p then Some (drop (length p) s) else None)"

fun Index :: "string \<Rightarrow> string \<Rightarrow> nat option" where
  "Index [] p = (if p = [] then Some 0 else None)"
| "Index (c # cs) p =
     (if HasPrefix (c # cs) p then Some 0 else map_option Suc (Index cs p))"

fun LastIndex :: "string \<Rightarrow> string \<Rightarrow> nat option" where
  "LastIndex [] p = (if p = [] then Some 0 else None)"
| "LastIndex (c # cs) p =
     (case LastIndex cs p of
        Some i \<Rightarrow> Some (Suc i)
      | None \<Rightarrow> if HasPrefix (c # cs) p then Some 0 else None)"

definition Contains :: "string \<Rightarrow> string \<Rightarrow> bool" where
  "Contains s p \<longleftrightarrow> Index s p \<noteq> None"

definition Cut :: "string \<Rightarrow> string \<Rightarrow> (string \<times> string) option" where
  "Cut s sep = (case Index s sep of
      None \<Rightarrow> None
    | Some i \<Rightarrow> Some (take i s, drop (i + length sep) s))"

fun SplitN :: "nat \<Rightarrow> string \<Rightarrow> string \<Rightarrow> string list" where
  "SplitN 0 s sep = []"
| "SplitN (Suc 0) s sep = [s]"
| "SplitN (Suc (Suc n)) s sep =
     (case Index s sep of
        None \<Rightarrow> [s]
      | Some i \<Rightarrow> take i s # SplitN (Suc n) (drop (i + length sep) s) sep)"

definition Split :: "string \<Rightarrow> string \<Rightarrow> string list" where
  "Split s sep = SplitN (Suc (length s)) s sep"

fun Join :: "string list \<Rightarrow> string \<Rightarrow> string" where
  "Join [] sep = []"
| "Join [x] sep = x"
| "Join (x # y # zs) sep = x @ sep @ Join (y # zs) sep"

definition isSpace :: "char \<Rightarrow> bool" where
  "isSpace c \<longleftrightarrow> c \<in> {CHR 0x09, CHR 0x0A, CHR 0x0B, CHR 0x0C, CHR 0x0D, CHR 0x20}"

definition TrimLeftSpace :: "string \<Rightarrow> string" where
  "TrimLeftSpace s = dropWhile isSpace s"

definition TrimSpace :: "string \<Rightarrow> string" where
  "TrimSpace s = rev (dropWhile isSpace (rev (dropWhile isSpace s)))"

definition TrimRight :: "string \<Rightarrow> char \<Rightarrow> string" where
  "TrimRight s c = rev (dropWhile (\<lambda>x. x = c) (rev s))"

definition toLowerChar :: "char \<Rightarrow> char" where
  "toLowerChar c =
     (if CHR ''A'' \<le> c \<and> c \<le> CHR ''Z'' then char_of (of_char c + 32 :: nat) else c)"

definition toUpperChar :: "char \<Rightarrow> char" where
  "toUpperChar c =
     (if CHR ''a'' \<le> c \<and> c \<le> CHR ''z'' then char_of (of_char c - 32 :: nat) else c)"

definition ToLower :: "string \<Rightarrow> string" where
  "ToLower s = map toLowerChar s"

definition ToUpper :: "string \<Rightarrow> string" where
  "ToUpper s = map toUpperChar s"

text \<open>\<^verbatim>\<open>strings.Fields\<close>: the maximal runs of non-space bytes.\<close>

fun Fields_aux :: "string \<Rightarrow> string \<Rightarrow> string list" where
  "Fields_aux cur [] = (if cur = [] then [] else [cur])"
| "Fields_aux cur (c # cs) =
     (if isSpace c then (if cur = [] then Fields_aux [] cs else cur # Fields_aux [] cs)
      else Fields_aux (cur @ [c]) cs)"

definition Fields :: "string \<Rightarrow> string list" where
  "Fields s = Fields_aux [] s"

section \<open>Line scanner\<close>

text \<open>
  The lines of a text: the pieces between line feeds, a last unterminated piece only when it is not
  empty.
\<close>

fun raw_lines :: "string \<Rightarrow> string \<Rightarrow> string list" where
  "raw_lines cur [] = (if cur = [] then [] else [cur])"
| "raw_lines cur (c # cs) =
     (if c = CHR 0x0A then cur # raw_lines [] cs else raw_lines (cur @ [c]) cs)"

definition dropCR :: "string \<Rightarrow> string" where
  "dropCR s = (if s \<noteq> [] \<and> last s = CHR 0x0D then butlast s else s)"

text \<open>
  \<^verbatim>\<open>Scanner.Scan\<close> in a loop with a buffer of at most \<open>mx\<close> bytes: the lines delivered, and whether
  \<^verbatim>\<open>Scanner.Err\<close> is nil afterwards. A line of \<open>mx\<close> bytes or more ends the scan with an error.
\<close>

fun scan_raw :: "nat \<Rightarrow> string list \<Rightarrow> string list \<times> bool" where
  "scan_raw mx [] = ([], True)"
| "scan_raw mx (l # ls) =
     (if mx \<le> length l then ([], False)
      else (case scan_raw mx ls of (out, ok) \<Rightarrow> (dropCR l # out, ok)))"

definition scan_lines :: "nat \<Rightarrow> string \<Rightarrow> string list \<times> bool" where
  "scan_lines mx s = scan_raw mx (raw_lines [] s)"

definition scanBufferMax :: nat where
  "scanBufferMax = 1024 * 1024"

section \<open>Maps\<close>

type_synonym ('k, 'v) gomap = "('k \<times> 'v) list"

type_synonym order = "nat \<Rightarrow> nat list"

definition is_order :: "order \<Rightarrow> bool" where
  "is_order \<rho> \<longleftrightarrow> (\<forall>n. mset (\<rho> n) = mset [0..<n])"

definition in_order :: "order \<Rightarrow> 'a list \<Rightarrow> 'a list" where
  "in_order \<rho> xs = map (\<lambda>i. xs ! i) (\<rho> (length xs))"

definition gmap_ok :: "('k, 'v) gomap \<Rightarrow> bool" where
  "gmap_ok m \<longleftrightarrow> distinct (map fst m)"

definition get :: "('k, 'v) gomap \<Rightarrow> 'k \<Rightarrow> 'v option" where
  "get m k = map_of m k"

definition put :: "'k \<Rightarrow> 'v \<Rightarrow> ('k, 'v) gomap \<Rightarrow> ('k, 'v) gomap" where
  "put k v m = AList.update k v m"

definition del :: "'k \<Rightarrow> ('k, 'v) gomap \<Rightarrow> ('k, 'v) gomap" where
  "del k m = AList.delete k m"

definition values_in :: "order \<Rightarrow> ('k, 'v) gomap \<Rightarrow> 'v list" where
  "values_in \<rho> m = map snd (in_order \<rho> m)"

definition keys_in :: "order \<Rightarrow> ('k, 'v) gomap \<Rightarrow> 'k list" where
  "keys_in \<rho> m = map fst (in_order \<rho> m)"

section \<open>sort.Slice\<close>

fun insert_by :: "('a \<Rightarrow> 'a \<Rightarrow> bool) \<Rightarrow> 'a \<Rightarrow> 'a list \<Rightarrow> 'a list" where
  "insert_by lt x [] = [x]"
| "insert_by lt x (y # ys) = (if lt x y then x # y # ys else y # insert_by lt x ys)"

definition sort_slice :: "('a \<Rightarrow> 'a \<Rightarrow> bool) \<Rightarrow> 'a list \<Rightarrow> 'a list" where
  "sort_slice lt xs = foldl (\<lambda>acc x. insert_by lt x acc) [] xs"

text \<open>A limit of a query: zero and negative limits mean no limit.\<close>

definition cap :: "int \<Rightarrow> 'a list \<Rightarrow> 'a list" where
  "cap limit xs = (if limit > 0 \<and> int (length xs) > limit then take (nat limit) xs else xs)"

text \<open>First occurrences only: the \<open>seen\<close> idiom of the source.\<close>

fun uniq :: "'a list \<Rightarrow> 'a list \<Rightarrow> 'a list" where
  "uniq seen [] = []"
| "uniq seen (x # xs) = (if x \<in> set seen then uniq seen xs else x # uniq (x # seen) xs)"

section \<open>Facts about maps\<close>

lemma get_put [simp]: "get (put k v m) k' = (if k' = k then Some v else get m k')"
  by (simp add: get_def put_def update_conv)

lemma get_del [simp]: "gmap_ok m \<Longrightarrow> get (del k m) k' = (if k' = k then None else get m k')"
  by (simp add: get_def del_def delete_conv)

lemma get_Nil [simp]: "get [] k = None"
  by (simp add: get_def)

lemma gmap_ok_Nil [simp]: "gmap_ok []"
  by (simp add: gmap_ok_def)

lemma gmap_ok_put [simp]: "gmap_ok m \<Longrightarrow> gmap_ok (put k v m)"
  by (simp add: gmap_ok_def put_def distinct_update)

lemma gmap_ok_del [simp]: "gmap_ok m \<Longrightarrow> gmap_ok (del k m)"
  by (simp add: gmap_ok_def del_def distinct_delete)

lemma get_in_set: "gmap_ok m \<Longrightarrow> get m k = Some v \<longleftrightarrow> (k, v) \<in> set m"
  by (simp add: gmap_ok_def get_def)

lemma get_SomeD: "get m k = Some v \<Longrightarrow> (k, v) \<in> set m"
  by (simp add: get_def map_of_SomeD)

lemma mset_in_order:
  assumes "is_order \<rho>"
  shows "mset (in_order \<rho> xs) = mset xs"
proof -
  have "mset (in_order \<rho> xs) = image_mset (\<lambda>i. xs ! i) (mset (\<rho> (length xs)))"
    by (simp add: in_order_def)
  also have "\<dots> = image_mset (\<lambda>i. xs ! i) (mset [0..<length xs])"
    using assms by (simp only: is_order_def)
  also have "\<dots> = mset (map (\<lambda>i. xs ! i) [0..<length xs])"
    by (simp only: mset_map)
  also have "\<dots> = mset xs"
    by (simp only: map_nth)
  finally show ?thesis .
qed

lemma set_in_order [simp]: "is_order \<rho> \<Longrightarrow> set (in_order \<rho> xs) = set xs"
  using mset_in_order by (metis set_mset_mset)

lemma distinct_in_order: "is_order \<rho> \<Longrightarrow> distinct (map f (in_order \<rho> xs)) = distinct (map f xs)"
proof -
  assume "is_order \<rho>"
  then have "mset (map f (in_order \<rho> xs)) = mset (map f xs)"
    by (simp add: mset_in_order)
  then show ?thesis by (rule mset_eq_imp_distinct_iff)
qed

lemma in_values_in:
  assumes "is_order \<rho>" and "gmap_ok m"
  shows "v \<in> set (values_in \<rho> m) \<longleftrightarrow> (\<exists>k. get m k = Some v)"
  using assms by (force simp: values_in_def get_in_set)

lemma mset_values_in: "is_order \<rho> \<Longrightarrow> mset (values_in \<rho> m) = mset (map snd m)"
  by (simp add: values_in_def mset_in_order)

lemma set_keys_in: "is_order \<rho> \<Longrightarrow> set (keys_in \<rho> m) = set (map fst m)"
  by (simp add: keys_in_def)

lemma get_None: "get m k = None \<longleftrightarrow> k \<notin> set (map fst m)"
  by (simp add: get_def map_of_eq_None_iff)

lemma is_order_upt: "is_order (\<lambda>n. [0..<n])"
  by (simp add: is_order_def)

lemma is_order_rev: "is_order (\<lambda>n. rev [0..<n])"
  by (simp add: is_order_def)

lemma in_order_upt [simp]: "in_order (\<lambda>n. [0..<n]) xs = xs"
  by (simp add: in_order_def map_nth)

lemma in_order_rev [simp]: "in_order (\<lambda>n. rev [0..<n]) xs = rev xs"
  by (simp add: in_order_def map_nth flip: rev_map)

section \<open>Facts about sort.Slice\<close>

lemma mset_insert_by [simp]: "mset (insert_by lt x ys) = add_mset x (mset ys)"
  by (induction ys) auto

lemma mset_sort_slice_aux:
  "mset (foldl (\<lambda>acc x. insert_by lt x acc) acc xs) = mset acc + mset xs"
  by (induction xs arbitrary: acc) auto

lemma mset_sort_slice [simp]: "mset (sort_slice lt xs) = mset xs"
  by (simp add: sort_slice_def mset_sort_slice_aux)

lemma set_sort_slice [simp]: "set (sort_slice lt xs) = set xs"
  by (metis mset_sort_slice set_mset_mset)

lemma length_sort_slice [simp]: "length (sort_slice lt xs) = length xs"
  by (metis mset_sort_slice size_mset)

lemma distinct_sort_slice: "distinct (map f (sort_slice lt xs)) = distinct (map f xs)"
  by (rule mset_eq_imp_distinct_iff) simp

lemma set_insert_by [simp]: "set (insert_by lt x ys) = insert x (set ys)"
  by (induction ys) auto

text \<open>
  The contract of a comparator passed to \<^verbatim>\<open>sort.Slice\<close>: it orders the elements by a key. Every
  comparator of the source has this shape, with a pair of strings as the key where it compares two
  fields.
\<close>

locale comparator =
  fixes lt :: "'a \<Rightarrow> 'a \<Rightarrow> bool" and key :: "'a \<Rightarrow> 'b::linorder"
  assumes less_key: "lt x y \<longleftrightarrow> key x < key y"
begin

lemma sorted_insert:
  "sorted (map key ys) \<Longrightarrow> sorted (map key (insert_by lt x ys))"
proof (induction ys)
  case (Cons y ys)
  then show ?case
    by (cases "lt x y") (auto simp: less_key not_less intro: order_trans less_imp_le)
qed simp

lemma sorted_fold:
  "sorted (map key acc) \<Longrightarrow>
   sorted (map key (foldl (\<lambda>acc x. insert_by lt x acc) acc xs))"
proof (induction xs arbitrary: acc)
  case (Cons x xs)
  have "sorted (map key (insert_by lt x acc))"
    using Cons.prems by (rule sorted_insert)
  then have "sorted (map key (foldl (\<lambda>acc x. insert_by lt x acc) (insert_by lt x acc) xs))"
    by (rule Cons.IH)
  then show ?case by simp
qed simp

lemma sorted_slice: "sorted (map key (sort_slice lt xs))"
  by (simp add: sort_slice_def sorted_fold)

text \<open>
  When no two elements compare equal, every sorted permutation is the one \<open>sort_slice\<close> gives: the
  result depends neither on the sorting algorithm nor on the order of the input.
\<close>

lemma slice_unique:
  assumes "mset ys = mset xs" and "sorted (map key ys)" and "distinct (map key xs)"
  shows "ys = sort_slice lt xs"
proof -
  have m: "mset ys = mset (sort_slice lt xs)" using assms(1) by simp
  then have "map key ys = map key (sort_slice lt xs)"
    using assms(2) sorted_slice by (metis mset_map properties_for_sort)
  moreover have "inj_on key (set ys)"
    using assms(1,3) by (metis distinct_map mset_eq_setD)
  moreover have "set ys = set (sort_slice lt xs)"
    using m by (metis set_mset_mset)
  ultimately show ?thesis
    by (metis inj_on_map_eq_map sup.idem)
qed

end

section \<open>Facts about the seen idiom\<close>

lemma set_uniq [simp]: "set (uniq seen xs) = set xs - set seen"
  by (induction seen xs rule: uniq.induct) auto

lemma distinct_uniq [simp]: "distinct (uniq seen xs)"
  by (induction seen xs rule: uniq.induct) auto

lemma uniq_id: "distinct xs \<Longrightarrow> set xs \<inter> set seen = {} \<Longrightarrow> uniq seen xs = xs"
  by (induction seen xs rule: uniq.induct) auto

lemma set_cap: "set (cap n xs) \<subseteq> set xs"
  by (auto simp: cap_def dest: in_set_takeD)

lemma cap_zero [simp]: "cap 0 xs = xs"
  by (simp add: cap_def)

lemma length_cap: "0 < n \<Longrightarrow> int (length (cap n xs)) \<le> n"
  by (simp add: cap_def)

lemma sorted_cap: "sorted_wrt P xs \<Longrightarrow> sorted_wrt P (cap n xs)"
  by (simp add: cap_def sorted_wrt_take)

section \<open>Facts about strings\<close>

lemma HasPrefix_append [simp]: "HasPrefix (p @ s) p"
  by (simp add: HasPrefix_def)

lemma HasPrefix_iff: "HasPrefix s p \<longleftrightarrow> (\<exists>r. s = p @ r)"
  by (metis HasPrefix_append HasPrefix_def append_take_drop_id)

lemma HasSuffix_iff: "HasSuffix s p \<longleftrightarrow> (\<exists>r. s = r @ p)"
proof
  assume "HasSuffix s p"
  then show "\<exists>r. s = r @ p"
    by (metis HasSuffix_def append_take_drop_id)
qed (auto simp: HasSuffix_def)

lemma Index_Some:
  "Index s p = Some i \<Longrightarrow> s = take i s @ p @ drop (i + length p) s"
proof (induction s arbitrary: i)
  case Nil
  then show ?case by (simp split: if_splits)
next
  case (Cons c cs)
  show ?case
  proof (cases "HasPrefix (c # cs) p")
    case True
    then obtain r where r: "c # cs = p @ r" by (auto simp: HasPrefix_iff)
    from True Cons.prems have "i = 0" by simp
    with r show ?thesis by simp
  next
    case False
    with Cons.prems obtain j where j: "Index cs p = Some j" "i = Suc j" by auto
    from Cons.IH [OF j(1)] j(2) show ?thesis by simp
  qed
qed

lemma Index_None: "Index s p = None \<Longrightarrow> s \<noteq> a @ p @ b"
proof (induction s arbitrary: a)
  case Nil
  then show ?case by (auto split: if_splits)
next
  case (Cons c cs)
  then show ?case
    by (cases a) (auto simp: HasPrefix_iff split: if_splits)
qed

lemma Contains_iff: "Contains s p \<longleftrightarrow> (\<exists>a b. s = a @ p @ b)"
  unfolding Contains_def by (metis Index_None Index_Some not_Some_eq)

lemma Index_single_absent: "c \<notin> set a \<Longrightarrow> Index (a @ c # b) [c] = Some (length a)"
  by (induction a) (auto simp: HasPrefix_def)

lemma Index_single_None [simp]: "Index s [c] = None \<longleftrightarrow> c \<notin> set s"
  by (induction s) (auto simp: HasPrefix_def)

lemma Index_single_Some:
  "Index s [c] = Some i \<longleftrightarrow> i < length s \<and> s ! i = c \<and> c \<notin> set (take i s)"
proof (induction s arbitrary: i)
  case (Cons d ds)
  then show ?case by (cases i) (auto simp: HasPrefix_def)
qed simp

lemma Split_single_notin: "c \<notin> set s \<Longrightarrow> SplitN (Suc n) s [c] = [s]"
  by (cases n) (simp_all del: Index_single_None add: Index_single_None [THEN iffD2])

lemma SplitN_single_cons:
  "c \<notin> set a \<Longrightarrow> SplitN (Suc (Suc n)) (a @ c # s) [c] = a # SplitN (Suc n) s [c]"
  by (simp add: Index_single_absent)

lemma toLowerChar_idem [simp]: "toLowerChar (toLowerChar c) = toLowerChar c"
proof (cases "CHR ''A'' \<le> c \<and> c \<le> CHR ''Z''")
  case True
  then have "65 \<le> (of_char c :: nat)" "(of_char c :: nat) \<le> 90"
    by (simp_all add: less_eq_char_def)
  then have "\<not> (of_char (char_of (of_char c + 32 :: nat)) :: nat) \<le> 90"
    by simp
  then show ?thesis
    using True by (simp add: toLowerChar_def less_eq_char_def)
next
  case False
  then have "toLowerChar c = c" unfolding toLowerChar_def by (rule if_not_P)
  then show ?thesis by simp
qed

lemma ToLower_idem [simp]: "ToLower (ToLower s) = ToLower s"
  by (simp add: ToLower_def)

lemma rev_dropWhile_fix: "xs = [] \<or> \<not> P (last xs) \<Longrightarrow> rev (dropWhile P (rev xs)) = xs"
  by (cases xs rule: rev_cases) auto

lemma remdups_adj_snoc:
  "remdups_adj (xs @ [x]) =
     (if xs \<noteq> [] \<and> last xs = x then remdups_adj xs else remdups_adj xs @ [x])"
  by (induction xs rule: remdups_adj.induct) auto

lemma Contains_Cons: "Contains (c # cs) p \<longleftrightarrow> HasPrefix (c # cs) p \<or> Contains cs p"
  by (simp add: Contains_def)

lemma LastIndex_None: "p \<noteq> [] \<Longrightarrow> LastIndex s p = None \<longleftrightarrow> \<not> Contains s p"
  by (induction s) (auto simp: Contains_Cons Contains_def split: option.splits)

lemma LastIndex_append:
  assumes "p \<noteq> []" and "\<not> Contains (tl (p @ b)) p"
  shows "LastIndex (a @ p @ b) p = Some (length a)"
proof (induction a)
  case Nil
  obtain c cs where c: "p @ b = c # cs" using assms(1) by (cases "p @ b") auto
  then have "LastIndex cs p = None" using assms by (simp add: LastIndex_None)
  moreover have "HasPrefix (c # cs) p" unfolding c [symmetric] by simp
  ultimately show ?case using c by simp
qed simp

text \<open>A marker whose last character occurs nowhere else in it cannot overlap itself.\<close>

lemma no_overlap:
  assumes "x \<notin> set q" and "\<not> Contains b (q @ [x])"
  shows "\<not> Contains (tl ((q @ [x]) @ b)) (q @ [x])"
proof
  let ?p = "q @ [x]"
  assume "Contains (tl (?p @ b)) ?p"
  then obtain u v where t: "tl (?p @ b) = u @ ?p @ v" unfolding Contains_iff by blast
  define w where "w = hd (?p @ b) # u"
  have "?p @ b = hd (?p @ b) # tl (?p @ b)" by (rule list.collapse [symmetric]) simp
  also have "\<dots> = w @ ?p @ v" unfolding t w_def by (simp only: append_Cons)
  finally have "?p @ b = w @ ?p @ v" .
  then obtain r where r: "?p = w @ r \<and> r @ b = ?p @ v \<or> ?p @ r = w \<and> b = r @ ?p @ v"
    unfolding append_eq_append_conv2 [of ?p b w] by blast
  have "\<not> (?p @ r = w \<and> b = r @ ?p @ v)" using assms(2) unfolding Contains_iff by blast
  with r have pr: "?p = w @ r" "r @ b = ?p @ v" by blast+
  show False
  proof (cases r rule: rev_cases)
    case Nil
    then have "b = ?p @ v" using pr(2) by simp
    then show False using assms(2) by (metis Contains_iff append_Nil)
  next
    case (snoc r' y)
    then have y: "y = x" using pr(1) by simp
    have "length r < length ?p" using pr(1) by (simp add: w_def)
    then have "take (length r) (?p @ v) = take (length r) q" by simp
    then have "r = take (length r) q" using pr(2) by (metis append_eq_conv_conj)
    then have "x \<in> set q" using snoc y by (metis in_set_conv_decomp in_set_takeD)
    then show False using assms(1) by simp
  qed
qed

lemma list_eq_sorted_key:
  "mset xs = mset ys \<Longrightarrow> sorted (map f xs) \<Longrightarrow> sorted (map f ys) \<Longrightarrow> map f xs = (map f ys :: 'b :: linorder list)"
  by (metis mset_map properties_for_sort)

section \<open>Numbers and durations\<close>

fun show_nat :: "nat \<Rightarrow> string" where
  "show_nat n = (if n < 10 then [char_of (48 + n)] else show_nat (n div 10) @ [char_of (48 + n mod 10)])"

declare show_nat.simps [simp del]

definition show_int :: "int \<Rightarrow> string" where
  "show_int i = (if i < 0 then ''-'' @ show_nat (nat (- i)) else show_nat (nat i))"

text \<open>
  \<^verbatim>\<open>strconv.Atoi\<close>: an optional sign and at least one digit, in the range of \<^verbatim>\<open>int\<close> (64 bits).
\<close>

definition digit_value :: "char \<Rightarrow> int" where
  "digit_value c = of_char c - 48"

definition is_digit :: "char \<Rightarrow> bool" where
  "is_digit c \<longleftrightarrow> 48 \<le> (of_char c :: nat) \<and> (of_char c :: nat) \<le> 57"

definition digits_value :: "string \<Rightarrow> int" where
  "digits_value s = foldl (\<lambda>n c. 10 * n + digit_value c) 0 s"

definition Atoi :: "string \<Rightarrow> int option" where
  "Atoi s =
     (let neg = HasPrefix s ''-'';
          ds = (if neg \<or> HasPrefix s ''+'' then drop 1 s else s);
          n = (if neg then - digits_value ds else digits_value ds)
      in if ds = [] \<or> \<not> list_all is_digit ds then None
         else if n < - (2 ^ 63) \<or> 2 ^ 63 \<le> n then None
         else Some n)"

text \<open>\<^verbatim>\<open>strings.ReplaceAll\<close> for a non-empty pattern.\<close>

function ReplaceAll :: "string \<Rightarrow> string \<Rightarrow> string \<Rightarrow> string" where
  "ReplaceAll s old new =
     (if s = [] \<or> old = [] then s
      else if HasPrefix s old then new @ ReplaceAll (drop (length old) s) old new
      else hd s # ReplaceAll (tl s) old new)"
  by pat_completeness auto
termination by (relation "measure (\<lambda>(s, _, _). length s)") auto

declare ReplaceAll.simps [simp del]

text \<open>\<^verbatim>\<open>time.Time.Sub\<close>: the difference, saturated to the range of a duration.\<close>

definition Sub :: "time \<Rightarrow> time \<Rightarrow> duration" where
  "Sub a b = max (- (2 ^ 63)) (min (2 ^ 63 - 1) (a - b))"

lemma Sub_le: "- (2 ^ 63) \<le> w \<Longrightarrow> w < 2 ^ 63 - 1 \<Longrightarrow> Sub a b \<le> w \<longleftrightarrow> a - b \<le> w"
  by (auto simp: Sub_def)

end
