(* ===== verification/Domain.thy ===== *)
theory Domain
  imports Prelude
begin

text \<open>
  The value types of \<^verbatim>\<open>engine/internal/domain\<close> and their operations: components and their
  references, packages and package URLs, SBOMs, indicators of compromise (IoCs), incidents and their
  state machine, remediations, publisher snapshots, anomalies and the domain events.

  The string-typed enumerations of the source stay strings, because values of those types arrive from
  JSON bodies and database rows and need not be one of the declared constants.
\<close>

section \<open>Errors\<close>

datatype ref_problem = MissingKindPrefix | SegmentCount | EmptySegment

datatype ioc_problem = BodyCount nat | BodyMissing string | UnknownKind string

datatype error =
    ErrNotFound
  | ErrContext
  | ErrInvalidComponentRef ref_problem
  | ErrInvalidTransition string string
  | ErrUnknownState string
  | ErrInvalidIoC ioc_problem
  | ErrInvalidRemediationKind string
  | ErrPostgres string string

type_synonym 'a result = "error + 'a"

text \<open>Values of Go's \<^verbatim>\<open>any\<close> as the engine stores them. A float of hours is kept as its duration.\<close>

datatype any = AStr string | AInt int | AStrs "string list" | AHours duration

type_synonym anymap = "(string, any) gomap"

section \<open>Components\<close>

record component =
  comp_Ref :: string
  comp_Kind :: string
  comp_Namespace :: string
  comp_Name :: string
  comp_Owner :: string
  comp_System :: string
  comp_Lifecycle :: string
  comp_Tags :: "string list"
  comp_Annotations :: "(string, string) gomap"

definition ParseComponentRef :: "string \<Rightarrow> (string \<times> string \<times> string) result" where
  "ParseComponentRef ref =
     (case Cut ref '':'' of
        None \<Rightarrow> Inl (ErrInvalidComponentRef MissingKindPrefix)
      | Some (head, tail) \<Rightarrow>
          if head \<noteq> ''kind'' then Inl (ErrInvalidComponentRef MissingKindPrefix)
          else (case Split tail ''/'' of
                  [k, ns, n] \<Rightarrow>
                    if k = [] \<or> ns = [] \<or> n = [] then Inl (ErrInvalidComponentRef EmptySegment)
                    else Inr (k, ns, n)
                | _ \<Rightarrow> Inl (ErrInvalidComponentRef SegmentCount)))"

definition NewComponent :: "string \<Rightarrow> string \<Rightarrow> component result" where
  "NewComponent ref owner =
     (case ParseComponentRef ref of
        Inl e \<Rightarrow> Inl e
      | Inr (kind, ns, name) \<Rightarrow>
          Inr \<lparr>comp_Ref = ref, comp_Kind = kind, comp_Namespace = ns, comp_Name = name,
               comp_Owner = owner, comp_System = [], comp_Lifecycle = [], comp_Tags = [],
               comp_Annotations = []\<rparr>)"

section \<open>Packages\<close>

record package_version =
  pv_Ecosystem :: string
  pv_Name :: string
  pv_Version :: string
  pv_PURL :: string
  pv_Scope :: "string list"
  pv_Integrity :: string

definition hexDigit :: "nat \<Rightarrow> char" where
  "hexDigit n = (if n < 10 then char_of (48 + n) else char_of (55 + n))"

definition unreserved :: "char \<Rightarrow> bool" where
  "unreserved c \<longleftrightarrow> (CHR ''a'' \<le> c \<and> c \<le> CHR ''z'') \<or> (CHR ''A'' \<le> c \<and> c \<le> CHR ''Z'') \<or>
     (CHR ''0'' \<le> c \<and> c \<le> CHR ''9'') \<or> c \<in> {CHR ''-'', CHR ''_'', CHR ''.'', CHR ''~''}"

definition escapeChar :: "char \<Rightarrow> string" where
  "escapeChar c =
     (if unreserved c then [c]
      else if c = CHR '' '' then ''+''
      else CHR ''%'' # map hexDigit [of_char c div 16, of_char c mod 16])"

definition QueryEscape :: "string \<Rightarrow> string" where
  "QueryEscape s = concat (map escapeChar s)"

definition npmPURL :: "string \<Rightarrow> string \<Rightarrow> string" where
  "npmPURL name version =
     (let plain = ''pkg:npm/'' @ name @ ''@'' @ version in
      if HasPrefix name ''@'' then
        (let rest = drop 1 name in
         case Index rest ''/'' of
           Some slash \<Rightarrow>
             if slash > 0 then
               (let ns = take slash rest; pkg = drop (slash + 1) rest in
                ''pkg:npm/'' @ QueryEscape (''@'' @ ns) @ ''/'' @ pkg @ ''@'' @ version)
             else plain
         | None \<Rightarrow> plain)
      else plain)"

definition CanonicalPURL :: "string \<Rightarrow> string \<Rightarrow> string \<Rightarrow> string" where
  "CanonicalPURL ecosystem name version =
     (if ecosystem = ''npm'' then npmPURL name version
      else if ecosystem = ''gomod'' then ''pkg:golang/'' @ name @ ''@'' @ version
      else ''pkg:'' @ ecosystem @ ''/'' @ name @ ''@'' @ version)"

section \<open>SBOMs\<close>

record parsed_sbom =
  ps_Ecosystem :: string
  ps_Packages :: "package_version list"
  ps_SourceFormat :: string
  ps_SourceBytes :: int

record sbom =
  sbom_ID :: string
  sbom_ComponentRef :: string
  sbom_CommitSHA :: string
  sbom_Ecosystem :: string
  sbom_GeneratedAt :: time
  sbom_Packages :: "package_version list"
  sbom_SourceFormat :: string
  sbom_SourceBytes :: int

record sbom_package_ref =
  spr_ComponentRef :: string
  spr_Package :: package_version

section \<open>Publishers, snapshots and anomalies\<close>

record publisher =
  pub_Ecosystem :: string
  pub_Name :: string
  pub_FirstSeen :: time
  pub_LastSeen :: time

record publisher_profile =
  prof_Publisher :: publisher
  prof_PackageCount :: int
  prof_PublishCount :: int
  prof_Last30DayPublishes :: int
  prof_UsesOIDC :: bool
  prof_HasGitTags :: bool
  prof_MaintainerEmails :: "string list"
  prof_LastEmailChange :: "time option"

record publisher_signal =
  sig_Type :: string
  sig_Publisher :: publisher
  sig_Package :: "package_version option"
  sig_Severity :: string
  sig_Description :: string
  sig_Evidence :: anymap
  sig_DetectedAt :: time

record maintainer =
  mt_Email :: string
  mt_Name :: string
  mt_Username :: string

record publisher_snapshot =
  snap_ID :: int
  snap_PackageRef :: string
  snap_SnapshotAt :: time
  snap_Maintainers :: "maintainer list"
  snap_LatestVersion :: string
  snap_LatestVersionPublishedAt :: "time option"
  snap_PublishMethod :: string
  snap_SourceRepoURL :: "string option"
  snap_RawData :: string

definition AnomalyKindMaintainerEmailDrift :: string where
  "AnomalyKindMaintainerEmailDrift = ''new_maintainer_email''"

definition AnomalyKindOIDCPublishingRegression :: string where
  "AnomalyKindOIDCPublishingRegression = ''oidc_regression''"

definition AnomalyKindVersionJump :: string where
  "AnomalyKindVersionJump = ''version_jump''"

definition ConfidenceLow :: string where
  "ConfidenceLow = ''low''"

definition ConfidenceMedium :: string where
  "ConfidenceMedium = ''medium''"

definition ConfidenceHigh :: string where
  "ConfidenceHigh = ''high''"

record anomaly =
  anom_ID :: int
  anom_Kind :: string
  anom_PackageRef :: string
  anom_DetectedAt :: time
  anom_Confidence :: string
  anom_Explanation :: string
  anom_Evidence :: anymap

record anomaly_filter =
  af_PackageRef :: string
  af_Kind :: string
  af_From :: "time option"
  af_To :: "time option"
  af_Limit :: int

section \<open>Indicators of compromise\<close>

definition IoCKindPackageVersion :: string where
  "IoCKindPackageVersion = ''packageVersion''"

definition IoCKindPackageRange :: string where
  "IoCKindPackageRange = ''packageRange''"

definition IoCKindPublisherAnomaly :: string where
  "IoCKindPublisherAnomaly = ''publisherAnomaly''"

definition SeverityMedium :: string where
  "SeverityMedium = ''medium''"

definition SeverityHigh :: string where
  "SeverityHigh = ''high''"

definition SeverityCritical :: string where
  "SeverityCritical = ''critical''"

record ioc_package_version =
  ipv_Name :: string
  ipv_Version :: string
  ipv_PURL :: string

record ioc_package_range =
  ipr_Name :: string
  ipr_Constraint :: string

record ioc_publisher_anomaly =
  ipa_PublisherName :: string
  ipa_Signals :: "publisher_signal list"

record ioc_body_anomaly =
  iba_Kind :: string
  iba_Confidence :: string
  iba_Explanation :: string
  iba_PackageRef :: string
  iba_Evidence :: anymap

record ioc =
  ioc_ID :: string
  ioc_Kind :: string
  ioc_Severity :: string
  ioc_Ecosystem :: string
  ioc_Source :: string
  ioc_PublishedAt :: time
  ioc_Description :: string
  ioc_PackageVersion :: "ioc_package_version option"
  ioc_PackageRange :: "ioc_package_range option"
  ioc_PublisherAnomaly :: "ioc_publisher_anomaly option"
  ioc_AnomalyBody :: "ioc_body_anomaly option"

definition one_if :: "'a option \<Rightarrow> nat" where
  "one_if x = (case x of None \<Rightarrow> 0 | Some _ \<Rightarrow> 1)"

definition ioc_Validate :: "ioc \<Rightarrow> error option" where
  "ioc_Validate i =
     (let n = one_if (ioc_PackageVersion i) + one_if (ioc_PackageRange i)
            + one_if (ioc_PublisherAnomaly i) + one_if (ioc_AnomalyBody i) in
      if n \<noteq> 1 then Some (ErrInvalidIoC (BodyCount n))
      else if ioc_Kind i = IoCKindPackageVersion then
        (if ioc_PackageVersion i = None
         then Some (ErrInvalidIoC (BodyMissing IoCKindPackageVersion)) else None)
      else if ioc_Kind i = IoCKindPackageRange then
        (if ioc_PackageRange i = None
         then Some (ErrInvalidIoC (BodyMissing IoCKindPackageRange)) else None)
      else if ioc_Kind i = IoCKindPublisherAnomaly then
        (if ioc_PublisherAnomaly i = None \<and> ioc_AnomalyBody i = None
         then Some (ErrInvalidIoC (BodyMissing IoCKindPublisherAnomaly)) else None)
      else Some (ErrInvalidIoC (UnknownKind (ioc_Kind i))))"

section \<open>Remediations\<close>

record remediation =
  rem_ID :: string
  rem_IncidentID :: string
  rem_Kind :: string
  rem_ExecutedAt :: time
  rem_ActorRef :: string
  rem_Details :: anymap

definition validRemediationKinds :: "string list" where
  "validRemediationKinds = [''pin_version'', ''rotate_secret'', ''open_pr'', ''notify'', ''dismiss'']"

definition rem_Validate :: "remediation \<Rightarrow> error option" where
  "rem_Validate r =
     (if rem_Kind r \<notin> set validRemediationKinds
      then Some (ErrInvalidRemediationKind (rem_Kind r)) else None)"

section \<open>Incidents\<close>

definition StatePending :: string where
  "StatePending = ''pending''"

definition StateTriaged :: string where
  "StateTriaged = ''triaged''"

definition StateAcknowledged :: string where
  "StateAcknowledged = ''acknowledged''"

definition StateRemediating :: string where
  "StateRemediating = ''remediating''"

definition StateClosed :: string where
  "StateClosed = ''closed''"

definition StateDismissed :: string where
  "StateDismissed = ''dismissed''"

record incident =
  inc_ID :: string
  inc_IoCID :: string
  inc_State :: string
  inc_OpenedAt :: time
  inc_LastTransitionedAt :: time
  inc_AffectedComponentsSnapshot :: "string list"
  inc_Remediations :: "remediation list"

record incident_filter =
  if_States :: "string list"
  if_Ecosystems :: "string list"
  if_From :: "time option"
  if_To :: "time option"
  if_Search :: string
  if_Owner :: string
  if_Limit :: int

definition allowedTransitions :: "(string, string list) gomap" where
  "allowedTransitions =
     [(StatePending, [StateTriaged, StateDismissed]),
      (StateTriaged, [StateAcknowledged, StateDismissed]),
      (StateAcknowledged, [StateRemediating, StateDismissed]),
      (StateRemediating, [StateClosed]),
      (StateClosed, []),
      (StateDismissed, [])]"

definition CanTransitionTo :: "string \<Rightarrow> string \<Rightarrow> bool" where
  "CanTransitionTo s nxt =
     (if s = nxt then True
      else case get allowedTransitions s of
             None \<Rightarrow> False
           | Some allowed \<Rightarrow> nxt \<in> set allowed)"

definition Transition :: "incident \<Rightarrow> string \<Rightarrow> time \<Rightarrow> incident result" where
  "Transition i nxt now =
     (if get allowedTransitions (inc_State i) = None then Inl (ErrUnknownState (inc_State i))
      else if \<not> CanTransitionTo (inc_State i) nxt
        then Inl (ErrInvalidTransition (inc_State i) nxt)
      else if inc_State i = nxt then Inr i
      else Inr (i\<lparr>inc_State := nxt, inc_LastTransitionedAt := now\<rparr>))"

section \<open>Domain events\<close>

datatype event =
    IncidentOpened (ev_IncidentID: string) (ev_IoCID: string) (ev_Affected: "string list")
      (ev_At: time)
  | IncidentTransitioned (ev_IncidentID: string) (ev_From: string) (ev_To: string) (ev_At: time)
  | RemediationAdded (ev_IncidentID: string) (ev_RemediationID: string) (ev_Kind: string)
      (ev_At: time)
  | SBOMIngested (ev_SBOMID: string) (ev_ComponentRef: string) (ev_At: time)
  | IoCMatched (ev_IoCID: string) (ev_MatchedComponents: "string list") (ev_At: time)

definition EventType :: "event \<Rightarrow> string" where
  "EventType e = (case e of
      IncidentOpened _ _ _ _ \<Rightarrow> ''incident.opened''
    | IncidentTransitioned _ _ _ _ \<Rightarrow> ''incident.transitioned''
    | RemediationAdded _ _ _ _ \<Rightarrow> ''remediation.added''
    | SBOMIngested _ _ _ \<Rightarrow> ''sbom.ingested''
    | IoCMatched _ _ _ \<Rightarrow> ''ioc.matched'')"

definition AggregateID :: "event \<Rightarrow> string" where
  "AggregateID e = (case e of
      IncidentOpened i _ _ _ \<Rightarrow> i
    | IncidentTransitioned i _ _ _ \<Rightarrow> i
    | RemediationAdded i _ _ _ \<Rightarrow> i
    | SBOMIngested b _ _ \<Rightarrow> b
    | IoCMatched i _ _ \<Rightarrow> i)"

definition OccurredAt :: "event \<Rightarrow> time" where
  "OccurredAt e = ev_At e"

section \<open>Shared facts\<close>

lemmas state_defs = StatePending_def StateTriaged_def StateAcknowledged_def StateRemediating_def
  StateClosed_def StateDismissed_def

lemma state_neqs [simp]:
  "StatePending \<noteq> StateTriaged" "StatePending \<noteq> StateAcknowledged"
  "StatePending \<noteq> StateRemediating" "StatePending \<noteq> StateClosed"
  "StatePending \<noteq> StateDismissed" "StateTriaged \<noteq> StatePending"
  "StateTriaged \<noteq> StateAcknowledged" "StateTriaged \<noteq> StateRemediating"
  "StateTriaged \<noteq> StateClosed" "StateTriaged \<noteq> StateDismissed"
  "StateAcknowledged \<noteq> StatePending" "StateAcknowledged \<noteq> StateTriaged"
  "StateAcknowledged \<noteq> StateRemediating" "StateAcknowledged \<noteq> StateClosed"
  "StateAcknowledged \<noteq> StateDismissed" "StateRemediating \<noteq> StatePending"
  "StateRemediating \<noteq> StateTriaged" "StateRemediating \<noteq> StateAcknowledged"
  "StateRemediating \<noteq> StateClosed" "StateRemediating \<noteq> StateDismissed"
  "StateClosed \<noteq> StatePending" "StateClosed \<noteq> StateTriaged"
  "StateClosed \<noteq> StateAcknowledged" "StateClosed \<noteq> StateRemediating"
  "StateClosed \<noteq> StateDismissed" "StateDismissed \<noteq> StatePending"
  "StateDismissed \<noteq> StateTriaged" "StateDismissed \<noteq> StateAcknowledged"
  "StateDismissed \<noteq> StateRemediating" "StateDismissed \<noteq> StateClosed"
  by (simp_all add: state_defs)

lemmas kind_defs = IoCKindPackageVersion_def IoCKindPackageRange_def IoCKindPublisherAnomaly_def

lemma kind_neqs [simp]:
  "IoCKindPackageVersion \<noteq> IoCKindPackageRange" "IoCKindPackageRange \<noteq> IoCKindPackageVersion"
  "IoCKindPackageVersion \<noteq> IoCKindPublisherAnomaly" "IoCKindPublisherAnomaly \<noteq> IoCKindPackageVersion"
  "IoCKindPackageRange \<noteq> IoCKindPublisherAnomaly" "IoCKindPublisherAnomaly \<noteq> IoCKindPackageRange"
  by (simp_all add: kind_defs)

lemma get_allowed [simp]:
  "get allowedTransitions StatePending = Some [StateTriaged, StateDismissed]"
  "get allowedTransitions StateTriaged = Some [StateAcknowledged, StateDismissed]"
  "get allowedTransitions StateAcknowledged = Some [StateRemediating, StateDismissed]"
  "get allowedTransitions StateRemediating = Some [StateClosed]"
  "get allowedTransitions StateClosed = Some []"
  "get allowedTransitions StateDismissed = Some []"
  by (simp_all add: allowedTransitions_def get_def)

lemma get_allowed_Some:
  "get allowedTransitions s \<noteq> None \<Longrightarrow>
   s \<in> {StatePending, StateTriaged, StateAcknowledged, StateRemediating, StateClosed,
        StateDismissed}"
  by (simp add: allowedTransitions_def get_None)

definition known_states :: "string set" where
  "known_states = {StatePending, StateTriaged, StateAcknowledged, StateRemediating, StateClosed,
     StateDismissed}"

definition terminal_states :: "string set" where
  "terminal_states = {StateClosed, StateDismissed}"

lemma Transition_frame:
  assumes "Transition i nxt now = Inr j"
  shows "inc_ID j = inc_ID i" "inc_IoCID j = inc_IoCID i" "inc_OpenedAt j = inc_OpenedAt i"
    "inc_AffectedComponentsSnapshot j = inc_AffectedComponentsSnapshot i"
    "inc_Remediations j = inc_Remediations i" "inc_State j = nxt"
    "inc_LastTransitionedAt j = (if inc_State i = nxt then inc_LastTransitionedAt i else now)"
    "inc_State i \<in> known_states"
  using assms get_allowed_Some [of "inc_State i"]
  by (auto simp: Transition_def known_states_def split: if_splits)

text \<open>
  A run of the state machine: the transitions asked for in turn, each with its clock reading; it
  stops at the first refusal.
\<close>

fun run_transitions :: "incident \<Rightarrow> (string \<times> time) list \<Rightarrow> incident result" where
  "run_transitions i [] = Inr i"
| "run_transitions i ((nxt, now) # ts) =
     (case Transition i nxt now of Inl e \<Rightarrow> Inl e | Inr j \<Rightarrow> run_transitions j ts)"

lemma run_transitions_append:
  "run_transitions i (xs @ ys) =
     (case run_transitions i xs of Inl e \<Rightarrow> Inl e | Inr j \<Rightarrow> run_transitions j ys)"
  by (induction i xs rule: run_transitions.induct) (auto split: sum.splits)

lemma run_transitions_state:
  "run_transitions i ts = Inr j \<Longrightarrow> inc_State j = last (inc_State i # map fst ts)"
proof (induction i ts arbitrary: j rule: run_transitions.induct)
  case (2 i nxt now ts)
  then obtain k where k: "Transition i nxt now = Inr k" "run_transitions k ts = Inr j"
    by (auto split: sum.splits)
  show ?case using "2.IH" [OF k] Transition_frame(6) [OF k(1)] by simp
qed simp

text \<open>The abstract workflow: the proper moves between states.\<close>

definition workflow :: "(string \<times> string) set" where
  "workflow = {(StatePending, StateTriaged), (StateTriaged, StateAcknowledged),
     (StateAcknowledged, StateRemediating), (StateRemediating, StateClosed),
     (StatePending, StateDismissed), (StateTriaged, StateDismissed),
     (StateAcknowledged, StateDismissed)}"

lemma CanTransitionTo_workflow:
  "s \<in> known_states \<Longrightarrow> CanTransitionTo s nxt \<longleftrightarrow> nxt = s \<or> (s, nxt) \<in> workflow"
  by (auto simp: known_states_def workflow_def CanTransitionTo_def)

lemma allowed_known: "get allowedTransitions s = None \<longleftrightarrow> s \<notin> known_states"
proof
  assume "get allowedTransitions s = None"
  then show "s \<notin> known_states" by (auto simp: known_states_def)
next
  assume "s \<notin> known_states"
  then show "get allowedTransitions s = None"
    using get_allowed_Some unfolding known_states_def by blast
qed

lemma Transition_move:
  "Transition i nxt now = Inr j \<Longrightarrow> inc_State i \<noteq> nxt \<Longrightarrow> (inc_State i, nxt) \<in> workflow"
  by (auto simp: Transition_def allowed_known CanTransitionTo_workflow split: if_splits)

text \<open>The states visited on the way from pending to each state of the main line.\<close>

definition path_to :: "string \<Rightarrow> string list" where
  "path_to s =
     (if s = StatePending then [StatePending]
      else if s = StateTriaged then [StatePending, StateTriaged]
      else if s = StateAcknowledged then [StatePending, StateTriaged, StateAcknowledged]
      else if s = StateRemediating
        then [StatePending, StateTriaged, StateAcknowledged, StateRemediating]
      else [StatePending, StateTriaged, StateAcknowledged, StateRemediating, StateClosed])"

lemma path_to_step:
  "(s, t) \<in> workflow \<Longrightarrow> t \<noteq> StateDismissed \<Longrightarrow> s \<noteq> StateDismissed \<and> path_to t = path_to s @ [t]"
  by (auto simp: workflow_def path_to_def)

lemma workflow_path:
  assumes "inc_State i = StatePending"
  shows "run_transitions i ts = Inr j \<Longrightarrow> inc_State j \<noteq> StateDismissed \<Longrightarrow>
    remdups_adj (StatePending # map fst ts) = path_to (inc_State j)"
proof (induction ts arbitrary: j rule: rev_induct)
  case Nil
  then show ?case using assms by (simp add: path_to_def)
next
  case (snoc t ts)
  obtain nxt now where t: "t = (nxt, now)" by (cases t)
  from snoc.prems obtain k where k: "run_transitions i ts = Inr k" "Transition k nxt now = Inr j"
    by (auto simp: run_transitions_append t split: sum.splits)
  have sj: "inc_State j = nxt" using k(2) by (rule Transition_frame(6))
  have sk: "last (StatePending # map fst ts) = inc_State k"
    using run_transitions_state [OF k(1)] assms by simp
  have adj: "remdups_adj (StatePending # map fst (ts @ [t])) =
      (if inc_State k = nxt then remdups_adj (StatePending # map fst ts)
       else remdups_adj (StatePending # map fst ts) @ [nxt])"
    using sk t remdups_adj_snoc [of "StatePending # map fst ts" nxt] by simp
  show ?case
  proof (cases "inc_State k = nxt")
    case True
    then show ?thesis using adj snoc.IH [OF k(1)] snoc.prems(2) sj by simp
  next
    case False
    have "inc_State k \<noteq> StateDismissed \<and> path_to nxt = path_to (inc_State k) @ [nxt]"
      using path_to_step [OF Transition_move [OF k(2) False]] snoc.prems(2) sj by simp
    then show ?thesis using adj snoc.IH [OF k(1)] sj False by simp
  qed
qed

section \<open>Properties\<close>


text \<open>
  C13. An incident that starts pending and is closed after any number of accepted transitions has
  gone through triaged, acknowledged and remediating, in that order and with nothing else in
  between except repetitions.
\<close>

theorem closed_only_after_full_workflow:
  assumes "inc_State i = StatePending" and "run_transitions i ts = Inr j"
    and "inc_State j = StateClosed"
  shows "remdups_adj (StatePending # map fst ts) =
    [StatePending, StateTriaged, StateAcknowledged, StateRemediating, StateClosed]"
  using workflow_path [OF assms(1,2)] assms(3) by (simp add: path_to_def)

theorem closed_only_after_full_workflow_witness:
  "remdups_adj (StatePending # map fst [(StateTriaged, 1::int), (StateAcknowledged, 2),
      (StateAcknowledged, 3), (StateRemediating, 4), (StateClosed, 5)]) =
    [StatePending, StateTriaged, StateAcknowledged, StateRemediating, StateClosed]"
proof -
  define i where "i = \<lparr>inc_ID = ''i'', inc_IoCID = ''x'', inc_State = StatePending,
     inc_OpenedAt = 0, inc_LastTransitionedAt = 0, inc_AffectedComponentsSnapshot = [],
     inc_Remediations = []\<rparr>"
  have s: "inc_State i = StatePending" by (simp add: i_def)
  have r: "run_transitions i [(StateTriaged, 1), (StateAcknowledged, 2), (StateAcknowledged, 3),
      (StateRemediating, 4), (StateClosed, 5)] =
      Inr (i\<lparr>inc_State := StateClosed, inc_LastTransitionedAt := 5\<rparr>)"
    by (simp add: i_def Transition_def CanTransitionTo_def)
  show ?thesis by (rule closed_only_after_full_workflow [OF s r]) simp
qed

end
