(* ===== verification/Lockfiles.thy ===== *)
theory Lockfiles
  imports Domain "HOL-Library.Product_Lexorder"
begin

text \<open>
  The lockfile parsers of \<^verbatim>\<open>engine/sbom\<close>: npm, Go modules, Cargo, PyPI and Maven. The decoders of
  structured formats (JSON, TOML, XML into the lockfile types) are arguments; everything the
  repository does with the decoded value, and every line-oriented format in full, is modelled. An
  argument \<open>cerr\<close> is the value of \<^verbatim>\<open>ctx.Err()\<close> on entry, and an order argument is the order in which
  the runtime walks a map.
\<close>

datatype parse_error =
    ParseContext error
  | MalformedDocument
  | UnsupportedLockfileVersion int
  | EmptyLockfile
  | SumFieldCount nat nat
  | SumHashPrefix nat
  | ScanFailed
  | UnknownFormat string
  | NativeUnconfigured
  | UnknownStrategy string
  | NativeError

section \<open>Shared pieces\<close>

definition by_name_version :: "package_version \<Rightarrow> package_version \<Rightarrow> bool" where
  "by_name_version a b =
     (if pv_Name a \<noteq> pv_Name b then pv_Name a < pv_Name b else pv_Version a < pv_Version b)"

interpretation by_nv: comparator by_name_version "\<lambda>p. (pv_Name p, pv_Version p)"
  by unfold_locales (auto simp: by_name_version_def)

definition mk_package :: "string \<Rightarrow> string \<Rightarrow> string \<Rightarrow> string list \<Rightarrow> string \<Rightarrow> package_version" where
  "mk_package eco name version scope integrity =
     \<lparr>pv_Ecosystem = eco, pv_Name = name, pv_Version = version,
      pv_PURL = CanonicalPURL eco name version, pv_Scope = scope, pv_Integrity = integrity\<rparr>"

section \<open>npm\<close>

record lock_package =
  lp_Version :: string
  lp_Resolved :: string
  lp_Integrity :: string
  lp_Dev :: bool
  lp_Optional :: bool
  lp_Peer :: bool
  lp_Link :: bool

record npm_lockfile =
  lf_Name :: string
  lf_Version :: string
  lf_LockfileVersion :: int
  lf_Requires :: bool
  lf_Packages :: "(string, lock_package) gomap option"

definition shouldSkip :: "string \<Rightarrow> lock_package \<Rightarrow> bool" where
  "shouldSkip path entry =
     (if path = [] \<or> lp_Link entry then True
      else if \<not> Contains path ''node_modules/'' then True
      else False)"

definition extractName :: "string \<Rightarrow> string" where
  "extractName path =
     (let marker = ''node_modules/'' in
      case LastIndex path marker of
        None \<Rightarrow> path
      | Some idx \<Rightarrow> drop (idx + length marker) path)"

definition buildScope :: "lock_package \<Rightarrow> string list" where
  "buildScope e =
     (if lp_Dev e then [''dev''] else []) @ (if lp_Optional e then [''optional''] else []) @
     (if lp_Peer e then [''peer''] else [])"

definition npm_entry :: "string \<times> lock_package \<Rightarrow> package_version list" where
  "npm_entry pe =
     (let path = fst pe; entry = snd pe in
      if shouldSkip path entry then []
      else if lp_Version entry = [] then []
      else [mk_package ''npm'' (extractName path) (lp_Version entry) (buildScope entry) (lp_Integrity entry)])"

definition npm_Parse :: "error option \<Rightarrow> order \<Rightarrow> (string \<Rightarrow> npm_lockfile option) \<Rightarrow> string \<Rightarrow>
    parse_error + parsed_sbom" where
  "npm_Parse cerr \<rho> unmarshal content =
     (case cerr of
        Some e \<Rightarrow> Inl (ParseContext e)
      | None \<Rightarrow>
          (case unmarshal content of
             None \<Rightarrow> Inl MalformedDocument
           | Some lf \<Rightarrow>
               if lf_LockfileVersion lf \<noteq> 3 then Inl (UnsupportedLockfileVersion (lf_LockfileVersion lf))
               else (case lf_Packages lf of
                       None \<Rightarrow> Inl EmptyLockfile
                     | Some entries \<Rightarrow>
                         Inr \<lparr>ps_Ecosystem = ''npm'',
                           ps_Packages = sort_slice by_name_version (concat (map npm_entry (in_order \<rho> entries))),
                           ps_SourceFormat = ''npm-package-lock-v3'',
                           ps_SourceBytes = int (length content)\<rparr>)))"

text \<open>
  \<^verbatim>\<open>StrategyParser.Parse\<close>: the in-process parser, or the sidecar reached through the client, which is
  absent unless configured.
\<close>

definition strategy_Parse :: "string \<Rightarrow> (string \<Rightarrow> parse_error + parsed_sbom) \<Rightarrow>
    (string \<Rightarrow> parse_error + parsed_sbom) option \<Rightarrow> string \<Rightarrow> parse_error + parsed_sbom" where
  "strategy_Parse strategy goParser native content =
     (if strategy = ''native'' then
        (case native of None \<Rightarrow> Inl NativeUnconfigured | Some parse \<Rightarrow> parse content)
      else if strategy = ''go'' \<or> strategy = '''' then goParser content
      else Inl (UnknownStrategy strategy))"

text \<open>\<^verbatim>\<open>EffectiveStrategy\<close>: \<open>ping\<close> is the outcome of the probe, when there is a client to probe.\<close>

definition EffectiveStrategy :: "string \<Rightarrow> bool option \<Rightarrow> string" where
  "EffectiveStrategy requested ping =
     (if requested \<noteq> ''native'' then requested
      else (case ping of None \<Rightarrow> ''go'' | Some False \<Rightarrow> ''go'' | Some True \<Rightarrow> requested))"

section \<open>Go modules\<close>

record replaceTarget =
  rt_NewPath :: string
  rt_NewVersion :: string

record sumEntry =
  se_Module :: string
  se_Version :: string
  se_Hash :: string
  se_IsPrimary :: bool

fun gosum_lines :: "nat \<Rightarrow> string list \<Rightarrow> parse_error + sumEntry list" where
  "gosum_lines n [] = Inr []"
| "gosum_lines n (raw # rest) =
     (let lineno = n + 1; line = TrimSpace raw in
      if line = [] then gosum_lines lineno rest
      else (case Fields line of
              [module, rawVersion, hash] \<Rightarrow>
                if \<not> HasPrefix hash ''h1:'' then Inl (SumHashPrefix lineno)
                else (let isMod = HasSuffix rawVersion ''/go.mod'';
                          entry = \<lparr>se_Module = module,
                            se_Version = (if isMod then TrimSuffix rawVersion ''/go.mod'' else rawVersion),
                            se_Hash = hash, se_IsPrimary = \<not> isMod\<rparr>
                      in case gosum_lines lineno rest of Inl e \<Rightarrow> Inl e | Inr out \<Rightarrow> Inr (entry # out))
            | parts \<Rightarrow> Inl (SumFieldCount lineno (length parts))))"

definition parseGosum :: "string \<Rightarrow> parse_error + sumEntry list" where
  "parseGosum content =
     (case scan_lines scanBufferMax content of
        (ls, ok) \<Rightarrow>
          (case gosum_lines 0 ls of
             Inl e \<Rightarrow> Inl e
           | Inr out \<Rightarrow> if ok then Inr out else Inl ScanFailed))"

definition stripLineComment :: "string \<Rightarrow> string" where
  "stripLineComment s = (case Index s ''//'' of Some i \<Rightarrow> take i s | None \<Rightarrow> s)"

definition parseReplaceDirective :: "string \<Rightarrow> (string \<times> replaceTarget) option" where
  "parseReplaceDirective line =
     (case SplitN 2 line ''=>'' of
        [l, r] \<Rightarrow>
          (let lhs = Fields l; rhs = Fields r in
           if length lhs = 0 \<or> length rhs = 0 then None
           else (let newPath = rhs ! 0;
                     isLocal = HasPrefix newPath ''.'' \<or> HasPrefix newPath ''/'' \<or> length rhs = 1
                 in Some (lhs ! 0, \<lparr>rt_NewPath = newPath,
                      rt_NewVersion = (if \<not> isLocal \<and> length rhs \<ge> 2 then rhs ! 1 else [])\<rparr>)))
      | _ \<Rightarrow> None)"

definition add_replace ::
    "string \<Rightarrow> (string, replaceTarget) gomap \<Rightarrow> (string, replaceTarget) gomap" where
  "add_replace line out =
     (case parseReplaceDirective line of None \<Rightarrow> out | Some (src, tgt) \<Rightarrow> put src tgt out)"

fun gomod_lines :: "bool \<Rightarrow> (string, replaceTarget) gomap \<Rightarrow> string list \<Rightarrow> (string, replaceTarget) gomap" where
  "gomod_lines inBlock out [] = out"
| "gomod_lines inBlock out (raw # rest) =
     (let line = TrimSpace (stripLineComment raw) in
      if line = [] then gomod_lines inBlock out rest
      else if inBlock then
        (if line = '')'' then gomod_lines False out rest
         else gomod_lines True (add_replace line out) rest)
      else if line = ''replace ('' then gomod_lines True out rest
      else (case CutPrefix line ''replace '' of
              Some body \<Rightarrow> gomod_lines False (add_replace (TrimSpace body) out) rest
            | None \<Rightarrow> gomod_lines False out rest))"

definition parseGomodReplaces :: "string \<Rightarrow> parse_error + (string, replaceTarget) gomap" where
  "parseGomodReplaces content =
     (if content = [] then Inr []
      else (case scan_lines scanBufferMax content of
              (ls, ok) \<Rightarrow>
                (let out = gomod_lines False [] ls in if ok then Inr out else Inl ScanFailed)))"

text \<open>
  The hash of each (module, version): the maps \<^verbatim>\<open>hashes\<close> and \<^verbatim>\<open>primary\<close> of the source have the same keys,
  here one map to the pair of values.
\<close>

definition sum_step :: "(string \<times> string, string \<times> bool) gomap \<Rightarrow> sumEntry \<Rightarrow>
    (string \<times> string, string \<times> bool) gomap" where
  "sum_step m e =
     (let k = (se_Module e, se_Version e) in
      case get m k of
        Some (h, True) \<Rightarrow> m
      | _ \<Rightarrow> put k (se_Hash e, se_IsPrimary e) m)"

definition gomod_package :: "(string, replaceTarget) gomap \<Rightarrow>
    (string \<times> string, string \<times> bool) gomap \<Rightarrow> string \<times> string \<Rightarrow> package_version list" where
  "gomod_package replaces hashes k =
     (let integrity = (case get hashes k of None \<Rightarrow> [] | Some (h, _) \<Rightarrow> h) in
      case get replaces (fst k) of
        Some target \<Rightarrow>
          if rt_NewVersion target = [] then []
          else [mk_package ''gomod'' (rt_NewPath target) (rt_NewVersion target) [] integrity]
      | None \<Rightarrow> [mk_package ''gomod'' (fst k) (snd k) [] integrity])"

definition by_key :: "string \<times> string \<Rightarrow> string \<times> string \<Rightarrow> bool" where
  "by_key a b = (if fst a \<noteq> fst b then fst a < fst b else snd a < snd b)"

interpretation by_key: comparator by_key "\<lambda>k. k"
  by unfold_locales (auto simp: by_key_def less_prod_def)

definition gomod_Parse :: "error option \<Rightarrow> order \<Rightarrow> string \<Rightarrow> string \<Rightarrow> parse_error + parsed_sbom" where
  "gomod_Parse cerr \<rho> gosum gomod =
     (case cerr of
        Some e \<Rightarrow> Inl (ParseContext e)
      | None \<Rightarrow>
          (case parseGomodReplaces gomod of
             Inl e \<Rightarrow> Inl e
           | Inr replaces \<Rightarrow>
               (case parseGosum gosum of
                  Inl e \<Rightarrow> Inl e
                | Inr entries \<Rightarrow>
                    (let hashes = foldl sum_step [] entries;
                         ks = sort_slice by_key (keys_in \<rho> hashes);
                         pkgs = concat (map (gomod_package replaces hashes) ks)
                     in Inr \<lparr>ps_Ecosystem = ''gomod'', ps_Packages = sort_slice by_name_version pkgs,
                          ps_SourceFormat = ''go-sum-v1'', ps_SourceBytes = int (length gosum)\<rparr>))))"

section \<open>Cargo\<close>

record cargo_package =
  cp_Name :: string
  cp_Version :: string
  cp_Source :: string
  cp_Checksum :: string

definition cargo_entry :: "cargo_package \<Rightarrow> package_version list" where
  "cargo_entry p =
     (if cp_Source p = [] then []
      else (let scope = (if HasPrefix (cp_Source p) ''git+'' then [''git'']
                         else if HasPrefix (cp_Source p) ''registry+'' then []
                         else [''source:'' @ cp_Source p])
            in [mk_package ''cargo'' (cp_Name p) (cp_Version p) scope (cp_Checksum p)]))"

definition cargo_Parse :: "error option \<Rightarrow> (string \<Rightarrow> cargo_package list option) \<Rightarrow> string \<Rightarrow>
    parse_error + parsed_sbom" where
  "cargo_Parse cerr toml content =
     (case cerr of
        Some e \<Rightarrow> Inl (ParseContext e)
      | None \<Rightarrow>
          (case toml content of
             None \<Rightarrow> Inl MalformedDocument
           | Some ps \<Rightarrow>
               if length ps = 0 then Inl EmptyLockfile
               else Inr \<lparr>ps_Ecosystem = ''cargo'',
                      ps_Packages = sort_slice by_name_version (concat (map cargo_entry ps)),
                      ps_SourceFormat = ''cargo-lock-v3'', ps_SourceBytes = int (length content)\<rparr>))"

section \<open>PyPI\<close>

definition is_sep :: "char \<Rightarrow> bool" where
  "is_sep c \<longleftrightarrow> c = CHR ''_'' \<or> c = CHR ''.'' \<or> c = CHR ''-''"

text \<open>The loop of \<^verbatim>\<open>normalisePyPIName\<close>: the builder's content so far and the \<^verbatim>\<open>prevDash\<close> flag.\<close>

fun collapse :: "string \<Rightarrow> bool \<Rightarrow> string \<Rightarrow> string" where
  "collapse b prevDash [] = b"
| "collapse b prevDash (r # rs) =
     (if is_sep r then
        (if \<not> prevDash \<and> length b > 0 then collapse (b @ ''-'') True rs else collapse b prevDash rs)
      else collapse (b @ [r]) False rs)"

definition normalisePyPIName :: "string \<Rightarrow> string" where
  "normalisePyPIName name = TrimRight (collapse [] False (ToLower name)) CHR ''-''"

text \<open>One line of a requirements file: the pinned package it names, if it does.\<close>

definition requirement_line :: "string \<Rightarrow> (string \<times> string) option" where
  "requirement_line raw =
     (let line = TrimSpace raw in
      if line = [] \<or> HasPrefix line ''#'' then None
      else (let line = (case Index line '' #'' of Some idx \<Rightarrow> TrimSpace (take idx line) | None \<Rightarrow> line) in
        if HasPrefix line ''-'' \<or> HasPrefix line ''git+'' \<or> HasPrefix line ''http://'' \<or>
           HasPrefix line ''https://'' \<or> HasPrefix line ''./'' \<or> HasPrefix line ''/'' then None
        else (case Index line ''=='' of
                None \<Rightarrow> None
              | Some idx \<Rightarrow>
                  if idx = 0 then None
                  else (let nameRaw = TrimSpace (take idx line);
                            version = TrimSpace (drop (idx + 2) line);
                            version = (case Index version '';'' of Some semi \<Rightarrow> TrimSpace (take semi version)
                                       | None \<Rightarrow> version);
                            nameRaw = (case Index nameRaw ''['' of Some br \<Rightarrow> take br nameRaw | None \<Rightarrow> nameRaw);
                            name = normalisePyPIName nameRaw
                        in if name = [] \<or> version = [] then None else Some (name, version)))))"

text \<open>The \<^verbatim>\<open>seen\<close> loop over the pinned packages, shared by the two formats.\<close>

fun pypi_dedup :: "string list \<Rightarrow> (string \<times> string) option list \<Rightarrow> package_version list" where
  "pypi_dedup seen [] = []"
| "pypi_dedup seen (None # rest) = pypi_dedup seen rest"
| "pypi_dedup seen (Some (name, version) # rest) =
     (let key = name @ ''@'' @ version in
      if key \<in> set seen then pypi_dedup seen rest
      else mk_package ''pypi'' name version [] [] # pypi_dedup (key # seen) rest)"

definition parseRequirements :: "string \<Rightarrow> parse_error + package_version list" where
  "parseRequirements content =
     (case scan_lines scanBufferMax content of
        (ls, ok) \<Rightarrow>
          if ok then Inr (pypi_dedup [] (map requirement_line ls)) else Inl ScanFailed)"

definition toml_package :: "string \<times> string \<Rightarrow> (string \<times> string) option" where
  "toml_package p =
     (let name = normalisePyPIName (TrimSpace (fst p)); version = TrimSpace (snd p) in
      if name = [] \<or> version = [] then None else Some (name, version))"

definition parseTOMLPackages :: "(string \<Rightarrow> (string \<times> string) list option) \<Rightarrow> string \<Rightarrow>
    parse_error + package_version list" where
  "parseTOMLPackages toml content =
     (case toml content of
        None \<Rightarrow> Inl MalformedDocument
      | Some ps \<Rightarrow> Inr (pypi_dedup [] (map toml_package ps)))"

definition pypi_Parse :: "error option \<Rightarrow> (string \<Rightarrow> (string \<times> string) list option) \<Rightarrow> string \<Rightarrow>
    string \<Rightarrow> parse_error + parsed_sbom" where
  "pypi_Parse cerr toml content format =
     (case cerr of
        Some e \<Rightarrow> Inl (ParseContext e)
      | None \<Rightarrow>
          (let parsed = (if format = ''requirements'' then Some (parseRequirements content, ''requirements-txt-v1'')
                         else if format = ''poetry'' then Some (parseTOMLPackages toml content, ''poetry-lock-v2'')
                         else if format = ''uv'' then Some (parseTOMLPackages toml content, ''uv-lock-v1'')
                         else None)
           in case parsed of
                None \<Rightarrow> Inl (UnknownFormat format)
              | Some (Inl e, _) \<Rightarrow> Inl e
              | Some (Inr pkgs, source) \<Rightarrow>
                  Inr \<lparr>ps_Ecosystem = ''pypi'', ps_Packages = sort_slice by_name_version pkgs,
                    ps_SourceFormat = source, ps_SourceBytes = int (length content)\<rparr>))"

section \<open>Maven and Gradle\<close>

record pomDep =
  pd_GroupID :: string
  pd_ArtifactID :: string
  pd_Version :: string
  pd_Scope :: string
  pd_Type :: string

record pomDoc =
  pom_Properties :: "(string \<times> string) list"
  pom_Dependencies :: "pomDep list"

definition mavenPURL :: "string \<Rightarrow> string \<Rightarrow> string \<Rightarrow> string" where
  "mavenPURL grp artifact version = ''pkg:maven/'' @ grp @ ''/'' @ artifact @ ''@'' @ version"

definition maven_package :: "string \<Rightarrow> string \<Rightarrow> string \<Rightarrow> string list \<Rightarrow> package_version" where
  "maven_package grp artifact version scope =
     \<lparr>pv_Ecosystem = ''maven'', pv_Name = grp @ '':'' @ artifact, pv_Version = version,
      pv_PURL = mavenPURL grp artifact version, pv_Scope = scope, pv_Integrity = []\<rparr>"

definition substituteProperty :: "string \<Rightarrow> (string, string) gomap \<Rightarrow> string" where
  "substituteProperty version props =
     (if \<not> HasPrefix version ''${'' \<or> \<not> HasSuffix version ''}'' then version
      else (let key = TrimSuffix (TrimPrefix version ''${'') ''}'' in
            case get props key of
              Some v \<Rightarrow> if v \<noteq> [] then v else version
            | None \<Rightarrow> version))"

definition pom_entry :: "(string, string) gomap \<Rightarrow> pomDep \<Rightarrow> package_version option" where
  "pom_entry props d =
     (let grp = TrimSpace (pd_GroupID d); artifact = TrimSpace (pd_ArtifactID d);
          version = substituteProperty (TrimSpace (pd_Version d)) props
      in if grp = [] \<or> artifact = [] \<or> version = [] then None
         else Some (maven_package grp artifact version (if pd_Scope d \<noteq> [] then [pd_Scope d] else [])))"

fun maven_dedup :: "string list \<Rightarrow> package_version option list \<Rightarrow> package_version list" where
  "maven_dedup seen [] = []"
| "maven_dedup seen (None # rest) = maven_dedup seen rest"
| "maven_dedup seen (Some p # rest) =
     (let key = pv_Name p @ ''@'' @ pv_Version p in
      if key \<in> set seen then maven_dedup seen rest else p # maven_dedup (key # seen) rest)"

definition parsePom :: "(string \<Rightarrow> pomDoc option) \<Rightarrow> string \<Rightarrow> parse_error + package_version list" where
  "parsePom xml content =
     (case xml content of
        None \<Rightarrow> Inl MalformedDocument
      | Some doc \<Rightarrow>
          (let props = foldl (\<lambda>m p. put (fst p) (TrimSpace (snd p)) m) [] (pom_Properties doc)
           in Inr (maven_dedup [] (map (pom_entry props) (pom_Dependencies doc)))))"

definition gradle_line :: "string \<Rightarrow> package_version option" where
  "gradle_line raw =
     (let line = TrimSpace raw in
      if line = [] \<or> HasPrefix line ''#'' then None
      else (case LastIndex line ''='' of
              None \<Rightarrow> None
            | Some eq \<Rightarrow>
                (let coord = take eq line in
                 if \<not> Contains coord '':'' then None
                 else (case SplitN 3 coord '':'' of
                         [g, a, v] \<Rightarrow>
                           (let grp = TrimSpace g; artifact = TrimSpace a; version = TrimSpace v in
                            if grp = [] \<or> artifact = [] \<or> version = [] then None
                            else Some (maven_package grp artifact version []))
                       | _ \<Rightarrow> None))))"

definition parseGradleLock :: "string \<Rightarrow> parse_error + package_version list" where
  "parseGradleLock content =
     (case scan_lines scanBufferMax content of
        (ls, ok) \<Rightarrow> if ok then Inr (maven_dedup [] (map gradle_line ls)) else Inl ScanFailed)"

definition maven_Parse :: "error option \<Rightarrow> (string \<Rightarrow> pomDoc option) \<Rightarrow> string \<Rightarrow> string \<Rightarrow>
    parse_error + parsed_sbom" where
  "maven_Parse cerr xml content format =
     (case cerr of
        Some e \<Rightarrow> Inl (ParseContext e)
      | None \<Rightarrow>
          (let parsed = (if format = ''pom'' then Some (parsePom xml content, ''maven-pom-v4'')
                         else if format = ''gradle-lock'' then Some (parseGradleLock content, ''gradle-lockfile-v1'')
                         else None)
           in case parsed of
                None \<Rightarrow> Inl (UnknownFormat format)
              | Some (Inl e, _) \<Rightarrow> Inl e
              | Some (Inr pkgs, source) \<Rightarrow>
                  Inr \<lparr>ps_Ecosystem = ''maven'', ps_Packages = sort_slice by_name_version pkgs,
                    ps_SourceFormat = source, ps_SourceBytes = int (length content)\<rparr>))"

section \<open>The contract of a lockfile parser\<close>

text \<open>
  What the engine relies on: a parsed lockfile lists packages of one ecosystem, which it names, in
  the order of name and version.
\<close>

locale lockfile_parser =
  fixes parse :: "string \<Rightarrow> parse_error + parsed_sbom" and eco :: string
  assumes eco_named: "eco \<noteq> []"
    and parsed: "parse content = Inr p \<Longrightarrow> ps_Ecosystem p = eco \<and>
      (\<forall>q \<in> set (ps_Packages p). pv_Ecosystem q = eco) \<and>
      sorted (map (\<lambda>q. (pv_Name q, pv_Version q)) (ps_Packages p))"
begin

lemma uniform_packages:
  "parse content = Inr p \<Longrightarrow> ps_Ecosystem p \<noteq> [] \<and> (\<forall>q \<in> set (ps_Packages p). pv_Ecosystem q = ps_Ecosystem p)"
  using parsed eco_named by simp

end

lemma mk_package_simps [simp]:
  "pv_Ecosystem (mk_package eco n v sc h) = eco" "pv_Name (mk_package eco n v sc h) = n"
  "pv_Version (mk_package eco n v sc h) = v"
  by (simp_all add: mk_package_def)

lemma npm_entry_eco: "q \<in> set (npm_entry e) \<Longrightarrow> pv_Ecosystem q = ''npm''"
  by (auto simp: npm_entry_def Let_def split: if_splits)

lemma gomod_package_eco: "q \<in> set (gomod_package rs hs k) \<Longrightarrow> pv_Ecosystem q = ''gomod''"
  by (auto simp: gomod_package_def Let_def split: if_splits option.splits)

lemma cargo_entry_eco: "q \<in> set (cargo_entry e) \<Longrightarrow> pv_Ecosystem q = ''cargo''"
  by (auto simp: cargo_entry_def Let_def split: if_splits)

lemma pypi_dedup_eco: "q \<in> set (pypi_dedup seen ps) \<Longrightarrow> pv_Ecosystem q = ''pypi''"
  by (induction seen ps rule: pypi_dedup.induct) (auto simp: Let_def split: if_splits)

lemma maven_dedup_sub: "q \<in> set (maven_dedup seen ps) \<Longrightarrow> Some q \<in> set ps"
  by (induction seen ps rule: maven_dedup.induct) (auto simp: Let_def split: if_splits)

lemma maven_package_eco [simp]: "pv_Ecosystem (maven_package g a v sc) = ''maven''"
  by (simp add: maven_package_def)

lemma pom_entry_eco: "pom_entry props d = Some q \<Longrightarrow> pv_Ecosystem q = ''maven''"
  by (auto simp: pom_entry_def Let_def split: if_splits)

lemma gradle_line_eco: "gradle_line raw = Some q \<Longrightarrow> pv_Ecosystem q = ''maven''"
  by (auto simp: gradle_line_def Let_def split: if_splits option.splits list.splits)

interpretation npm: lockfile_parser "npm_Parse cerr \<rho> unmarshal" "''npm''"
  using by_nv.sorted_slice
  by unfold_locales (auto simp: npm_Parse_def in_order_def dest!: npm_entry_eco split: option.splits if_splits)

interpretation gomod: lockfile_parser "\<lambda>gosum. gomod_Parse cerr \<rho> gosum gomod" "''gomod''"
  using by_nv.sorted_slice
  by unfold_locales
    (auto simp: gomod_Parse_def Let_def dest!: gomod_package_eco split: option.splits sum.splits)

interpretation cargo: lockfile_parser "cargo_Parse cerr toml" "''cargo''"
  using by_nv.sorted_slice
  by unfold_locales (auto simp: cargo_Parse_def dest!: cargo_entry_eco split: option.splits if_splits)

lemma parseRequirements_eco: "parseRequirements c = Inr ps \<Longrightarrow> q \<in> set ps \<Longrightarrow> pv_Ecosystem q = ''pypi''"
  by (auto simp: parseRequirements_def dest: pypi_dedup_eco split: prod.splits if_splits)

lemma parseTOML_eco: "parseTOMLPackages toml c = Inr ps \<Longrightarrow> q \<in> set ps \<Longrightarrow> pv_Ecosystem q = ''pypi''"
  by (auto simp: parseTOMLPackages_def dest: pypi_dedup_eco split: option.splits)

interpretation pypi: lockfile_parser "\<lambda>content. pypi_Parse cerr toml content format" "''pypi''"
  using by_nv.sorted_slice
  by unfold_locales
    (auto simp: pypi_Parse_def Let_def parseRequirements_eco parseTOML_eco
      split: option.splits sum.splits prod.splits if_splits)

lemma parsePom_eco: "parsePom xml c = Inr ps \<Longrightarrow> q \<in> set ps \<Longrightarrow> pv_Ecosystem q = ''maven''"
  by (auto simp: parsePom_def Let_def dest!: maven_dedup_sub dest: pom_entry_eco [OF sym] split: option.splits)

lemma parseGradle_eco: "parseGradleLock c = Inr ps \<Longrightarrow> q \<in> set ps \<Longrightarrow> pv_Ecosystem q = ''maven''"
  by (auto simp: parseGradleLock_def dest!: maven_dedup_sub dest: gradle_line_eco [OF sym] split: prod.splits if_splits)

interpretation maven: lockfile_parser "\<lambda>content. maven_Parse cerr xml content format" "''maven''"
  using by_nv.sorted_slice
  by unfold_locales
    (auto simp: maven_Parse_def Let_def parsePom_eco parseGradle_eco
      split: option.splits sum.splits prod.splits if_splits)

section \<open>Facts about Go checksums\<close>

definition key_of :: "sumEntry \<Rightarrow> string \<times> string" where
  "key_of e = (se_Module e, se_Version e)"

text \<open>The entry a (module, version) pair is resolved to: the first primary line, else the last line.\<close>

definition resolve :: "sumEntry list \<Rightarrow> string \<times> string \<Rightarrow> (string \<times> bool) option" where
  "resolve es k =
     (let mine = filter (\<lambda>e. key_of e = k) es in
      if mine = [] then None
      else (case filter se_IsPrimary mine of
              [] \<Rightarrow> Some (se_Hash (last mine), False)
            | e # _ \<Rightarrow> Some (se_Hash e, True)))"

lemma resolve_snoc:
  "resolve (es @ [e]) k =
     (if key_of e \<noteq> k then resolve es k
      else case resolve es k of
             Some (h, True) \<Rightarrow> Some (h, True)
           | _ \<Rightarrow> Some (se_Hash e, se_IsPrimary e))"
  by (cases "filter (\<lambda>e. key_of e = k) es")
    (auto simp: resolve_def Let_def simp del: filter_filter split: list.splits)

lemma sum_step_get:
  "get (sum_step m e) k =
     (if key_of e \<noteq> k then get m k
      else case get m k of
             Some (h, True) \<Rightarrow> Some (h, True)
           | _ \<Rightarrow> Some (se_Hash e, se_IsPrimary e))"
  by (auto simp: sum_step_def key_of_def Let_def split: option.splits bool.splits prod.splits)

lemma sum_fold_resolve: "get (foldl sum_step [] es) k = resolve es k"
proof (induction es rule: rev_induct)
  case Nil
  show ?case by (simp add: resolve_def)
next
  case (snoc e es)
  then show ?case by (simp add: sum_step_get resolve_snoc)
qed

lemma gmap_ok_sum_step: "gmap_ok m \<Longrightarrow> gmap_ok (sum_step m e)"
  by (auto simp: sum_step_def Let_def split: option.splits bool.splits prod.splits)

lemma gmap_ok_sum: "gmap_ok (foldl sum_step [] es)"
  by (induction es rule: rev_induct) (simp_all add: gmap_ok_sum_step)

lemma sorted_keys_unique:
  assumes "gmap_ok m" and "is_order \<rho>"
  shows "sort_slice by_key (keys_in \<rho> m) = sort_slice by_key (map fst m)"
  using assms by_key.sorted_slice [of "keys_in \<rho> m"]
  by (intro by_key.slice_unique) (simp_all add: keys_in_def mset_in_order gmap_ok_def)

section \<open>Facts about PyPI names\<close>

text \<open>A canonical name: lower case, single dashes between non-separators.\<close>

fun dashes_ok :: "string \<Rightarrow> bool" where
  "dashes_ok [] = True"
| "dashes_ok [c] = True"
| "dashes_ok (c # d # cs) = ((c = CHR ''-'' \<longrightarrow> d \<noteq> CHR ''-'') \<and> dashes_ok (d # cs))"

definition canonical :: "string \<Rightarrow> bool" where
  "canonical s \<longleftrightarrow> (\<forall>c \<in> set s. is_sep c \<longrightarrow> c = CHR ''-'') \<and> (\<forall>c \<in> set s. toLowerChar c = c) \<and>
     dashes_ok s \<and> (s \<noteq> [] \<longrightarrow> hd s \<noteq> CHR ''-'' \<and> last s \<noteq> CHR ''-'')"

lemma dashes_ok_snoc:
  "dashes_ok (b @ [c]) \<longleftrightarrow> dashes_ok b \<and> (b \<noteq> [] \<and> last b = CHR ''-'' \<longrightarrow> c \<noteq> CHR ''-'')"
  by (induction b rule: dashes_ok.induct) auto

lemma dashes_ok_prefix: "dashes_ok (xs @ ys) \<Longrightarrow> dashes_ok xs"
  by (induction xs rule: dashes_ok.induct) auto

definition builder_ok :: "string \<Rightarrow> bool \<Rightarrow> bool" where
  "builder_ok b prev \<longleftrightarrow> (\<forall>c \<in> set b. is_sep c \<longrightarrow> c = CHR ''-'') \<and> (\<forall>c \<in> set b. toLowerChar c = c) \<and>
     dashes_ok b \<and> (b \<noteq> [] \<longrightarrow> hd b \<noteq> CHR ''-'' \<and> (prev \<longleftrightarrow> last b = CHR ''-''))"

lemma dash_facts [simp]: "is_sep CHR ''-''" "toLowerChar CHR ''-'' = CHR ''-''"
  by (simp_all add: is_sep_def toLowerChar_def)

lemma collapse_ok:
  "builder_ok b prev \<Longrightarrow> (\<And>c. c \<in> set s \<Longrightarrow> toLowerChar c = c) \<Longrightarrow> \<exists>prev'. builder_ok (collapse b prev s) prev'"
proof (induction b prev s rule: collapse.induct)
  case (2 b prev r rs)
  have low: "toLowerChar r = r" "\<And>c. c \<in> set rs \<Longrightarrow> toLowerChar c = c" using "2.prems"(2) by auto
  show ?case
  proof (cases "is_sep r")
    case True
    show ?thesis
    proof (cases "\<not> prev \<and> length b > 0")
      case push: True
      then have "builder_ok (b @ ''-'') True"
        using "2.prems"(1) by (auto simp: builder_ok_def dashes_ok_snoc)
      with "2.IH"(1) [OF True push] low(2) True push show ?thesis by simp
    next
      case False
      with "2.IH"(2) [OF True] "2.prems"(1) low(2) True show ?thesis by auto
    qed
  next
    case False
    then have "r \<noteq> CHR ''-''" by auto
    with "2.prems"(1) low(1) False have "builder_ok (b @ [r]) False"
      by (auto simp: builder_ok_def dashes_ok_snoc hd_append)
    with "2.IH"(3) [OF False] low(2) False show ?thesis by simp
  qed
qed auto

lemma trim_canonical:
  assumes "builder_ok b prev"
  shows "canonical (TrimRight b CHR ''-'')"
proof (cases b rule: rev_cases)
  case Nil
  then show ?thesis by (simp add: TrimRight_def canonical_def)
next
  case (snoc b' y)
  show ?thesis
  proof (cases "y = CHR ''-''")
    case True
    have "b' \<noteq> [] \<longrightarrow> last b' \<noteq> CHR ''-''"
      using assms snoc True by (auto simp: builder_ok_def dashes_ok_snoc)
    then have "TrimRight b CHR ''-'' = b'"
      using snoc True rev_dropWhile_fix [of b' "\<lambda>x. x = CHR ''-''"] by (auto simp: TrimRight_def)
    then show ?thesis
      using assms snoc True \<open>b' \<noteq> [] \<longrightarrow> last b' \<noteq> CHR ''-''\<close>
      by (auto simp: builder_ok_def canonical_def dashes_ok_snoc hd_append)
  next
    case False
    then have "TrimRight b CHR ''-'' = b" using snoc by (simp add: TrimRight_def)
    then show ?thesis using assms snoc False by (auto simp: builder_ok_def canonical_def)
  qed
qed

lemma normalise_canonical: "canonical (normalisePyPIName name)"
proof -
  have "builder_ok [] False" by (simp add: builder_ok_def)
  moreover have "toLowerChar c = c" if "c \<in> set (ToLower name)" for c
    using that by (auto simp: ToLower_def)
  ultimately have "\<exists>prev. builder_ok (collapse [] False (ToLower name)) prev" by (rule collapse_ok)
  then show ?thesis using trim_canonical by (auto simp: normalisePyPIName_def)
qed

lemma collapse_id:
  "dashes_ok (b @ s) \<Longrightarrow> list_all (\<lambda>c. is_sep c \<longrightarrow> c = CHR ''-'') (b @ s) \<Longrightarrow>
   (b = [] \<Longrightarrow> s \<noteq> [] \<Longrightarrow> hd s \<noteq> CHR ''-'') \<Longrightarrow> (b \<noteq> [] \<Longrightarrow> prev = (last b = CHR ''-'')) \<Longrightarrow>
   (b = [] \<Longrightarrow> \<not> prev) \<Longrightarrow> collapse b prev s = b @ s"
proof (induction s arbitrary: b prev)
  case (Cons r rs)
  have ok: "dashes_ok (b @ [r])" using Cons.prems(1) dashes_ok_prefix [of "b @ [r]" rs] by simp
  show ?case
  proof (cases "is_sep r")
    case True
    then have r: "r = CHR ''-''" using Cons.prems(2) by simp
    then have "b \<noteq> []" using Cons.prems(3) by auto
    moreover from this have "\<not> prev" using ok r Cons.prems(4) by (simp add: dashes_ok_snoc)
    ultimately show ?thesis using Cons.IH [of "b @ ''-''" True] Cons.prems r by simp
  next
    case False
    then have "r \<noteq> CHR ''-''" by auto
    then show ?thesis using Cons.IH [of "b @ [r]" False] Cons.prems False by simp
  qed
qed simp

lemma normalise_fix:
  assumes "canonical s"
  shows "normalisePyPIName s = s"
proof -
  have "ToLower s = s" using assms by (auto simp: ToLower_def canonical_def intro: map_idI)
  moreover have "collapse [] False s = s"
    using assms by (intro collapse_id [where b = "[]", simplified]) (auto simp: canonical_def list_all_iff)
  moreover have "TrimRight s CHR ''-'' = s"
    unfolding TrimRight_def using assms by (intro rev_dropWhile_fix) (auto simp: canonical_def)
  ultimately show ?thesis by (simp add: normalisePyPIName_def)
qed

section \<open>Properties\<close>

text \<open>
  C20. An npm lockfile is read exactly: on a version 3 lockfile with a package table the parser
  returns one package per installed entry (not the root, not a link, below a
  \<^verbatim>\<open>node_modules\<close> directory, with a version), named by the path after the last \<^verbatim>\<open>node_modules/\<close>,
  ordered by name and version, whatever order the table is walked in; every other document is
  rejected with the error that names the reason.
\<close>

theorem npm_parse_exact:
  assumes "is_order \<rho>"
  shows "case unmarshal content of
      None \<Rightarrow> npm_Parse None \<rho> unmarshal content = Inl MalformedDocument
    | Some lf \<Rightarrow>
        if lf_LockfileVersion lf \<noteq> 3
        then npm_Parse None \<rho> unmarshal content = Inl (UnsupportedLockfileVersion (lf_LockfileVersion lf))
        else (case lf_Packages lf of
            None \<Rightarrow> npm_Parse None \<rho> unmarshal content = Inl EmptyLockfile
          | Some entries \<Rightarrow> \<exists>p. npm_Parse None \<rho> unmarshal content = Inr p \<and>
              mset (ps_Packages p) = mset (map (\<lambda>(path, e).
                  mk_package ''npm'' (extractName path) (lp_Version e) (buildScope e) (lp_Integrity e))
                (filter (\<lambda>(path, e). path \<noteq> [] \<and> \<not> lp_Link e \<and> Contains path ''node_modules/'' \<and>
                  lp_Version e \<noteq> []) entries)) \<and>
              sorted (map (\<lambda>q. (pv_Name q, pv_Version q)) (ps_Packages p)) \<and>
              ps_Ecosystem p = ''npm'' \<and> ps_SourceBytes p = int (length content))"
proof -
  have e: "concat (map npm_entry es) = map (\<lambda>(path, e).
        mk_package ''npm'' (extractName path) (lp_Version e) (buildScope e) (lp_Integrity e))
      (filter (\<lambda>(path, e). path \<noteq> [] \<and> \<not> lp_Link e \<and> Contains path ''node_modules/'' \<and>
        lp_Version e \<noteq> []) es)" for es
    by (induction es) (auto simp: npm_entry_def shouldSkip_def Let_def split: prod.splits)
  show ?thesis
    using by_nv.sorted_slice assms
    by (auto simp: npm_Parse_def e mset_in_order mset_filter split: option.splits)
qed

definition sample_entry :: lock_package where
  "sample_entry = \<lparr>lp_Version = ''1.0.0'', lp_Resolved = [], lp_Integrity = ''sha-a'', lp_Dev = False,
     lp_Optional = False, lp_Peer = False, lp_Link = False\<rparr>"

definition sample_lockfile :: npm_lockfile where
  "sample_lockfile = \<lparr>lf_Name = ''app'', lf_Version = [], lf_LockfileVersion = 3, lf_Requires = True,
     lf_Packages = Some [(''node_modules/b'', sample_entry),
       (''node_modules/a/node_modules/b'', sample_entry\<lparr>lp_Integrity := ''sha-b''\<rparr>),
       ([], sample_entry)]\<rparr>"

theorem npm_parse_exact_witness:
  "\<exists>p. npm_Parse None (\<lambda>n. [0..<n]) (\<lambda>_. Some sample_lockfile) ''{}'' = Inr p \<and>
    mset (ps_Packages p) = {#mk_package ''npm'' ''b'' ''1.0.0'' [] ''sha-a'',
      mk_package ''npm'' ''b'' ''1.0.0'' [] ''sha-b''#}"
  using npm_parse_exact [OF is_order_upt, of "\<lambda>_. Some sample_lockfile" "''{}''"]
  by (auto simp: sample_lockfile_def sample_entry_def Contains_def HasPrefix_def extractName_def
      buildScope_def)

text \<open>
  The name of a package is the part of its path after the last \<^verbatim>\<open>node_modules/\<close>, also for scoped
  and nested packages.
\<close>

theorem extractName_exact:
  assumes "\<not> Contains name ''node_modules/''"
  shows "extractName (prefix @ ''node_modules/'' @ name) = name"
proof -
  have "\<not> Contains (tl (''node_modules/'' @ name)) ''node_modules/''"
    using no_overlap [of "CHR ''/''" "''node_modules''" name] assms by simp
  then have "LastIndex (prefix @ ''node_modules/'' @ name) ''node_modules/'' = Some (length prefix)"
    by (intro LastIndex_append) simp_all
  then show ?thesis by (simp add: extractName_def)
qed

theorem extractName_exact_witness:
  "extractName (''node_modules/outer/'' @ ''node_modules/'' @ ''@scope/nested'') = ''@scope/nested''"
  by (rule extractName_exact) (simp add: Contains_def HasPrefix_def)

text \<open>
  The order of the packages of an npm SBOM is not always determined by the lockfile: when a
  package is installed twice in the same version with different metadata, two walks over the table
  give different lists.
\<close>

theorem npm_order_depends_on_walk:
  "\<exists>\<rho> \<rho>' unmarshal content p p'. is_order \<rho> \<and> is_order \<rho>' \<and>
     npm_Parse None \<rho> unmarshal content = Inr p \<and> npm_Parse None \<rho>' unmarshal content = Inr p' \<and>
     ps_Packages p \<noteq> ps_Packages p'"
proof -
  let ?a = "mk_package ''npm'' ''b'' ''1.0.0'' [] ''sha-a''" and ?b = "mk_package ''npm'' ''b'' ''1.0.0'' [] ''sha-b''"
  let ?u = "\<lambda>_ :: string. Some sample_lockfile"
  have e: "npm_entry (''node_modules/b'', sample_entry) = [?a]"
      "npm_entry (''node_modules/a/node_modules/b'', sample_entry\<lparr>lp_Integrity := ''sha-b''\<rparr>) = [?b]"
      "npm_entry ([], sample_entry) = []"
    by (simp_all add: npm_entry_def shouldSkip_def Contains_def HasPrefix_def extractName_def
        sample_entry_def buildScope_def)
  have "\<exists>p. npm_Parse None (\<lambda>n. [0..<n]) ?u [] = Inr p \<and> ps_Packages p = [?a, ?b]"
    by (simp add: npm_Parse_def sample_lockfile_def e sort_slice_def by_name_version_def)
  moreover have "\<exists>p. npm_Parse None (\<lambda>n. rev [0..<n]) ?u [] = Inr p \<and> ps_Packages p = [?b, ?a]"
    by (simp add: npm_Parse_def sample_lockfile_def e sort_slice_def by_name_version_def)
  moreover have "[?a, ?b] \<noteq> [?b, ?a]" by (simp add: mk_package_def)
  ultimately show ?thesis using is_order_upt is_order_rev by metis
qed

text \<open>
  Go module parsing is deterministic and prefers the hash of the module itself: the result does
  not depend on the order in which the table of checksums is walked, and the integrity recorded for
  a module version is that of its first primary line, or of its last \<^verbatim>\<open>/go.mod\<close> line if it has no
  primary line.
\<close>

theorem gomod_deterministic:
  assumes "is_order \<rho>" and "is_order \<rho>'"
  shows "gomod_Parse cerr \<rho> gosum gomod = gomod_Parse cerr \<rho>' gosum gomod \<and>
    (\<forall>entries k. get (foldl sum_step [] entries) k = resolve entries k)"
proof -
  have "sort_slice by_key (keys_in \<rho> (foldl sum_step [] es)) =
      sort_slice by_key (keys_in \<rho>' (foldl sum_step [] es))" for es
    using sorted_keys_unique [OF gmap_ok_sum assms(1)] sorted_keys_unique [OF gmap_ok_sum assms(2)] by simp
  then show ?thesis
    by (simp add: gomod_Parse_def Let_def sum_fold_resolve split: option.splits sum.splits)
qed

theorem gomod_deterministic_witness:
  "gomod_Parse None (\<lambda>n. [0..<n]) ''m v1.0.0 h1:x'' [] = gomod_Parse None (\<lambda>n. rev [0..<n]) ''m v1.0.0 h1:x'' []"
  using gomod_deterministic [OF is_order_upt is_order_rev] by blast

text \<open>
  PyPI names are brought to a canonical form: the result is in lower case, its only separator is
  the dash, never doubled, leading or trailing; and a canonical name is left as it is, so the
  normalisation of IoC names and of lockfile names agree once both are canonical.
\<close>

theorem pypi_name_canonical:
  "canonical (normalisePyPIName name) \<and>
   normalisePyPIName (normalisePyPIName name) = normalisePyPIName name"
  using normalise_canonical normalise_fix by blast

end
