(* ===== verification/Sidecar.thy ===== *)
theory Sidecar
  imports Lockfiles
begin

text \<open>
  The bridge to the Rust parser: \<^verbatim>\<open>engine/internal/ingestion/native/client.go\<close> on the one side,
  \<^verbatim>\<open>native/crates/rampart-native/src/protocol.rs\<close> and the request handling of \<^verbatim>\<open>ipc.rs\<close> on the other. Frames are
  byte strings; lengths on the wire are 32-bit words in big-endian order. The socket is a parameter, a function from the
  request frame to what the connection does; so are the JSON codecs and the Rust parsers.
\<close>

section \<open>Big-endian words\<close>

type_synonym uint32 = "32 word"

definition u32_bytes :: "uint32 \<Rightarrow> string" where
  "u32_bytes w = map (\<lambda>k. char_of (unat w div 256 ^ k mod 256)) [3, 2, 1, 0]"

definition AppendUint32 :: "string \<Rightarrow> uint32 \<Rightarrow> string" where
  "AppendUint32 b w = b @ u32_bytes w"

definition Uint32 :: "string \<Rightarrow> uint32" where
  "Uint32 b = word_of_nat (foldl (\<lambda>n c. 256 * n + of_char c) 0 (take 4 b))"

lemma base256:
  fixes n :: nat
  assumes "n < 256 ^ 4"
  shows "256 * (256 * (256 * (n div 256 ^ 3 mod 256) + n div 256 ^ 2 mod 256) + n div 256 mod 256) + n mod 256 = n"
proof -
  have a: "n = 256 * (n div 256) + n mod 256" by simp
  have b: "n div 256 = 256 * (n div 256 ^ 2) + n div 256 mod 256"
    by (metis div_mult2_eq mult_div_mod_eq power2_eq_square)
  have c: "n div 256 ^ 2 = 256 * (n div 256 ^ 3) + n div 256 ^ 2 mod 256"
    using div_mult2_eq [of n "256 ^ 2" 256] mult_div_mod_eq [of 256 "n div 256 ^ 2"] by simp
  have d: "n div 256 ^ 3 < 256" using assms by (simp add: less_mult_imp_div_less)
  show ?thesis using a b c d by simp
qed

lemma length_u32_bytes [simp]: "length (u32_bytes w) = 4"
  by (simp add: u32_bytes_def)

lemma Uint32_bytes [simp]: "Uint32 (u32_bytes w @ s) = w"
proof -
  have w: "unat w < 256 ^ 4" using unsigned_less [of w] by simp
  then have "unat w div 16777216 < 256" by (simp add: less_mult_imp_div_less)
  with base256 [OF w] have f: "foldl (\<lambda>n c. 256 * n + of_char c) 0 (u32_bytes w) = unat w"
    by (simp add: u32_bytes_def)
  have "take 4 (u32_bytes w @ s) = u32_bytes w" by (simp add: u32_bytes_def)
  then show ?thesis by (simp add: Uint32_def f)
qed

lemma unat_of_length: "n < 2 ^ 32 \<Longrightarrow> unat (word_of_nat n :: uint32) = n"
  by (simp add: unsigned_of_nat take_bit_nat_eq_self)

lemma base256_less:
  fixes a b c d :: nat
  assumes "a < 256" and "b < 256" and "c < 256" and "d < 256"
  shows "256 * (256 * (256 * a + b) + c) + d < 4294967296"
proof -
  have "256 * a + b < 65536" using assms by simp
  then have "256 * (256 * a + b) + c < 16777216" using assms by simp
  then show ?thesis using assms by simp
qed

lemma u32_bytes_Uint32:
  assumes "4 \<le> length b"
  shows "u32_bytes (Uint32 (take 4 b)) = take 4 b"
proof -
  from assms obtain c d e f s where b: "b = c # d # e # f # s"
    by (auto simp: numeral_eq_Suc Suc_le_length_iff)
  define n where "n = (256 * (256 * (256 * of_char c + of_char d) + of_char e) + of_char f :: nat)"
  have lt: "(of_char x :: nat) < 256" for x by simp
  have "n < 2 ^ 32" using base256_less [OF lt [of c] lt [of d] lt [of e] lt [of f]] by (simp add: n_def)
  then have u: "unat (word_of_nat n :: uint32) = n" by (rule unat_of_length)
  have sh: "(256 * m + of_char x) div 256 = m" "(256 * m + of_char x) mod 256 = of_char x" for m :: nat and x
    by simp_all
  have "n div 65536 = n div 256 div 256" "n div 16777216 = n div 256 div 256 div 256"
    by (simp_all only: div_mult2_eq [symmetric]) simp_all
  then have d: "n div 16777216 = of_char c" "n div 65536 mod 256 = of_char d" "n div 256 mod 256 = of_char e"
      "n mod 256 = of_char f"
    by (simp_all only: sh n_def)
  have "Uint32 (take 4 b) = word_of_nat n" by (simp add: Uint32_def b n_def)
  moreover have "char_of (n div 65536 mod 256) = d" "char_of (n div 256 mod 256) = e" "char_of (n mod 256) = f"
    by (simp_all only: d char_of_char)
  ultimately show ?thesis by (simp add: u32_bytes_def u d(1) b)
qed

section \<open>Opcodes and errors\<close>

definition MaxFrameBytes :: nat where "MaxFrameBytes = 100 * 1024 * 1024"
definition msgParseRequest :: char where "msgParseRequest = CHR 0x01"
definition msgParseResult :: char where "msgParseResult = CHR 0x02"
definition msgError :: char where "msgError = CHR 0x03"
definition msgParseGomodRequest :: char where "msgParseGomodRequest = CHR 0x06"
definition msgParseCargoRequest :: char where "msgParseCargoRequest = CHR 0x07"
definition msgPong :: char where "msgPong = CHR 0xFE"
definition msgPing :: char where "msgPing = CHR 0xFF"

lemmas opcodes = msgParseRequest_def msgParseResult_def msgError_def msgParseGomodRequest_def
  msgParseCargoRequest_def msgPong_def msgPing_def

datatype native_error =
    NtUnavailable
  | NtWrite
  | NtReadHeader
  | NtFrameRange nat
  | NtReadBody
  | NtTooLarge nat
  | NtMalformedResponse string
  | NtRemote string string
  | NtMalformedLockfile string
  | NtUnsupportedLockfileVersion string
  | NtEmptyLockfile string

datatype socket_outcome = DialFailed | WriteFailed | Stream string

section \<open>The Go client\<close>

definition ReadFull :: "nat \<Rightarrow> string \<Rightarrow> (string \<times> string) option" where
  "ReadFull n s = (if length s < n then None else Some (take n s, drop n s))"

definition roundTrip :: "(string \<Rightarrow> socket_outcome) \<Rightarrow> string \<Rightarrow> native_error + string" where
  "roundTrip sock frame =
     (case sock frame of
        DialFailed \<Rightarrow> Inl NtUnavailable
      | WriteFailed \<Rightarrow> Inl NtWrite
      | Stream bytes \<Rightarrow>
          (case ReadFull 4 bytes of
             None \<Rightarrow> Inl NtReadHeader
           | Some (header, rest) \<Rightarrow>
               (let respLen = unat (Uint32 header) in
                if respLen = 0 \<or> respLen > MaxFrameBytes then Inl (NtFrameRange respLen)
                else (case ReadFull respLen rest of
                        None \<Rightarrow> Inl NtReadBody
                      | Some (body, _) \<Rightarrow> Inr body))))"

definition decodeParseResult :: "(string \<Rightarrow> parsed_sbom option) \<Rightarrow> string \<Rightarrow> native_error + parsed_sbom" where
  "decodeParseResult unmarshal rest =
     (if length rest < 4 then Inl (NtMalformedResponse ''parse_result truncated at sbom length prefix'')
      else (let sbomLen = unat (Uint32 (take 4 rest)) in
            if sbomLen + 4 \<noteq> length rest then Inl (NtMalformedResponse ''parse_result inner length'')
            else (case unmarshal (drop 4 rest) of
                    None \<Rightarrow> Inl (NtMalformedResponse ''decode parsed_sbom'')
                  | Some s \<Rightarrow> Inr s)))"

definition classifyRemoteError :: "string \<Rightarrow> string \<Rightarrow> native_error" where
  "classifyRemoteError code message =
     (if code = ''MALFORMED_LOCKFILE'' then NtMalformedLockfile message
      else if code = ''UNSUPPORTED_LOCKFILE_VERSION'' then NtUnsupportedLockfileVersion message
      else if code = ''EMPTY_LOCKFILE'' then NtEmptyLockfile message
      else NtRemote code message)"

definition decodeErrorFrame :: "string \<Rightarrow> native_error" where
  "decodeErrorFrame rest =
     (if length rest < 4 then NtMalformedResponse ''error frame truncated at code length''
      else (let codeLen = unat (Uint32 (take 4 rest)) in
            if 4 + codeLen > length rest then NtMalformedResponse ''error code overruns frame''
            else (let code = take codeLen (drop 4 rest); after = 4 + codeLen in
                  if length rest < after + 4 then NtMalformedResponse ''error frame truncated at message length''
                  else (let msgLen = unat (Uint32 (take 4 (drop after rest))) in
                        if after + 4 + msgLen \<noteq> length rest
                        then NtMalformedResponse ''error message overruns or underruns frame''
                        else classifyRemoteError code (take msgLen (drop (after + 4) rest))))))"

definition parseDispatch :: "(string \<Rightarrow> parsed_sbom option) \<Rightarrow> (string \<Rightarrow> socket_outcome) \<Rightarrow> string \<Rightarrow>
    native_error + parsed_sbom" where
  "parseDispatch unmarshal sock frame =
     (case roundTrip sock frame of
        Inl e \<Rightarrow> Inl e
      | Inr [] \<Rightarrow> Inl (NtMalformedResponse ''empty response body'')
      | Inr (opcode # rest) \<Rightarrow>
          if opcode = msgParseResult then decodeParseResult unmarshal rest
          else if opcode = msgError then Inl (decodeErrorFrame rest)
          else Inl (NtMalformedResponse ''unexpected opcode''))"

definition npm_frame :: "string \<Rightarrow> string" where
  "npm_frame content =
     (let bodyLen = 1 + 4 + length content + 4 in
      AppendUint32 (AppendUint32 (AppendUint32 [] (word_of_nat bodyLen) @ [msgParseRequest])
        (word_of_nat (length content)) @ content) 0)"

definition ParseNPMLockfile :: "(string \<Rightarrow> parsed_sbom option) \<Rightarrow> (string \<Rightarrow> socket_outcome) \<Rightarrow> string \<Rightarrow>
    native_error + parsed_sbom" where
  "ParseNPMLockfile unmarshal sock content =
     (let bodyLen = 1 + 4 + length content + 4 in
      if bodyLen > MaxFrameBytes then Inl (NtTooLarge bodyLen)
      else parseDispatch unmarshal sock (npm_frame content))"

definition gomod_frame :: "string \<Rightarrow> string \<Rightarrow> string" where
  "gomod_frame gosum gomod =
     (let bodyLen = 1 + 4 + length gosum + 4 + length gomod in
      AppendUint32 (AppendUint32 (AppendUint32 [] (word_of_nat bodyLen) @ [msgParseGomodRequest])
        (word_of_nat (length gosum)) @ gosum) (word_of_nat (length gomod)) @ gomod)"

definition ParseGoModule :: "(string \<Rightarrow> parsed_sbom option) \<Rightarrow> (string \<Rightarrow> socket_outcome) \<Rightarrow> string \<Rightarrow> string \<Rightarrow>
    native_error + parsed_sbom" where
  "ParseGoModule unmarshal sock gosum gomod =
     (let bodyLen = 1 + 4 + length gosum + 4 + length gomod in
      if bodyLen > MaxFrameBytes then Inl (NtTooLarge bodyLen)
      else parseDispatch unmarshal sock (gomod_frame gosum gomod))"

definition cargo_frame :: "string \<Rightarrow> string" where
  "cargo_frame content =
     (let bodyLen = 1 + 4 + length content in
      AppendUint32 (AppendUint32 [] (word_of_nat bodyLen) @ [msgParseCargoRequest])
        (word_of_nat (length content)) @ content)"

definition ParseCargo :: "(string \<Rightarrow> parsed_sbom option) \<Rightarrow> (string \<Rightarrow> socket_outcome) \<Rightarrow> string \<Rightarrow>
    native_error + parsed_sbom" where
  "ParseCargo unmarshal sock content =
     (let bodyLen = 1 + 4 + length content in
      if bodyLen > MaxFrameBytes then Inl (NtTooLarge bodyLen)
      else parseDispatch unmarshal sock (cargo_frame content))"

definition ping_frame :: string where
  "ping_frame = AppendUint32 [] 1 @ [msgPing]"

definition Ping :: "(string \<Rightarrow> socket_outcome) \<Rightarrow> native_error option" where
  "Ping sock =
     (case roundTrip sock ping_frame of
        Inl e \<Rightarrow> Some e
      | Inr resp \<Rightarrow> if length resp \<noteq> 1 \<or> resp ! 0 \<noteq> msgPong then Some (NtMalformedResponse ''expected pong'') else None)"

section \<open>The Rust server\<close>

datatype native_request = ParseNpm string string | ParseGomod string string | ParseCargoReq string | PingReq

datatype decode_error = EmptyBody | Truncated | TrailingBytes | UnknownOpcode char

definition read_length_prefixed :: "string \<Rightarrow> decode_error + string \<times> string" where
  "read_length_prefixed rest =
     (if length rest < 4 then Inl Truncated
      else (let len = unat (Uint32 rest); after_prefix = drop 4 rest in
            if length after_prefix < len then Inl Truncated
            else Inr (take len after_prefix, drop len after_prefix)))"

definition decode_request_body :: "string \<Rightarrow> decode_error + native_request" where
  "decode_request_body body =
     (case body of
        [] \<Rightarrow> Inl EmptyBody
      | opcode # rest \<Rightarrow>
          if opcode = msgParseRequest then
            (case read_length_prefixed rest of
               Inl e \<Rightarrow> Inl e
             | Inr (content, rest') \<Rightarrow>
                 (case read_length_prefixed rest' of
                    Inl e \<Rightarrow> Inl e
                  | Inr (metadata, rest'') \<Rightarrow> if rest'' \<noteq> [] then Inl TrailingBytes else Inr (ParseNpm content metadata)))
          else if opcode = msgParseGomodRequest then
            (case read_length_prefixed rest of
               Inl e \<Rightarrow> Inl e
             | Inr (gosum, rest') \<Rightarrow>
                 (case read_length_prefixed rest' of
                    Inl e \<Rightarrow> Inl e
                  | Inr (gomod, rest'') \<Rightarrow> if rest'' \<noteq> [] then Inl TrailingBytes else Inr (ParseGomod gosum gomod)))
          else if opcode = msgParseCargoRequest then
            (case read_length_prefixed rest of
               Inl e \<Rightarrow> Inl e
             | Inr (content, rest') \<Rightarrow> if rest' \<noteq> [] then Inl TrailingBytes else Inr (ParseCargoReq content))
          else if opcode = msgPing then (if rest \<noteq> [] then Inl TrailingBytes else Inr PingReq)
          else Inl (UnknownOpcode opcode))"

definition encode_parse_result :: "string \<Rightarrow> string" where
  "encode_parse_result json =
     u32_bytes (word_of_nat (1 + 4 + length json)) @ [msgParseResult] @ u32_bytes (word_of_nat (length json)) @ json"

definition encode_error :: "string \<Rightarrow> string \<Rightarrow> string" where
  "encode_error code message =
     u32_bytes (word_of_nat (1 + 4 + length code + 4 + length message)) @ [msgError] @
     u32_bytes (word_of_nat (length code)) @ code @ u32_bytes (word_of_nat (length message)) @ message"

definition encode_pong :: string where
  "encode_pong = u32_bytes 1 @ [msgPong]"

datatype rust_parse_error = Malformed string | UnsupportedVersion string | EmptyFile string

text \<open>What a parser of the server answers: an error, or its result after \<^verbatim>\<open>serde_json::to_vec\<close>, which may fail.\<close>

type_synonym rust_result = "rust_parse_error + (string + string)"

definition dispatch_parse :: "rust_result \<Rightarrow> string" where
  "dispatch_parse result =
     (case result of
        Inr (Inr json) \<Rightarrow> encode_parse_result json
      | Inr (Inl e) \<Rightarrow> encode_error ''INTERNAL_ERROR'' (''sbom marshal failed: '' @ e)
      | Inl (Malformed m) \<Rightarrow> encode_error ''MALFORMED_LOCKFILE'' (''malformed lockfile: '' @ m)
      | Inl (UnsupportedVersion m) \<Rightarrow> encode_error ''UNSUPPORTED_LOCKFILE_VERSION'' (''unsupported lockfile version: '' @ m)
      | Inl (EmptyFile m) \<Rightarrow> encode_error ''EMPTY_LOCKFILE'' (''empty lockfile: '' @ m))"

definition hex_lower :: "nat \<Rightarrow> string" where
  "hex_lower n = (let d = (\<lambda>k. ''0123456789abcdef'' ! k) in if n < 16 then [d n] else [d (n div 16), d (n mod 16)])"

definition show_decode_error :: "decode_error \<Rightarrow> string" where
  "show_decode_error e =
     (case e of EmptyBody \<Rightarrow> ''empty body'' | Truncated \<Rightarrow> ''truncated frame''
      | TrailingBytes \<Rightarrow> ''unexpected trailing bytes''
      | UnknownOpcode c \<Rightarrow> ''unknown opcode 0x'' @ hex_lower (of_char c))"

text \<open>The parsers of the server.\<close>

record rust_parsers =
  rp_npm :: "string \<Rightarrow> rust_result"
  rp_gomod :: "string \<Rightarrow> string \<Rightarrow> rust_result"
  rp_cargo :: "string \<Rightarrow> rust_result"

definition handle_body :: "rust_parsers \<Rightarrow> string \<Rightarrow> string" where
  "handle_body ps body =
     (case decode_request_body body of
        Inl e \<Rightarrow> encode_error ''MALFORMED_REQUEST'' (''request decode failed: '' @ show_decode_error e)
      | Inr PingReq \<Rightarrow> encode_pong
      | Inr (ParseNpm content _) \<Rightarrow> dispatch_parse (rp_npm ps content)
      | Inr (ParseGomod gosum gomod) \<Rightarrow> dispatch_parse (rp_gomod ps gosum gomod)
      | Inr (ParseCargoReq content) \<Rightarrow> dispatch_parse (rp_cargo ps content))"

text \<open>One request on a fresh connection: read the frame, or close it.\<close>

definition read_frame :: "string \<Rightarrow> string option" where
  "read_frame s =
     (if length s < 4 then None
      else (let len = unat (Uint32 s) in
            if len = 0 \<or> len > MaxFrameBytes then None
            else if length (drop 4 s) < len then None
            else Some (take len (drop 4 s))))"

definition serve_once :: "rust_parsers \<Rightarrow> string \<Rightarrow> socket_outcome" where
  "serve_once ps frame = Stream (case read_frame frame of None \<Rightarrow> [] | Some body \<Rightarrow> handle_body ps body)"

section \<open>Framing\<close>

lemma prefixed_bytes:
  "length s < 2 ^ 32 \<Longrightarrow> read_length_prefixed (u32_bytes (word_of_nat (length s)) @ s @ rest) = Inr (s, rest)"
  by (simp add: read_length_prefixed_def unat_of_length Let_def)

lemma MaxFrame_lt: "MaxFrameBytes < 2 ^ 32"
  by (simp add: MaxFrameBytes_def)

text \<open>A body of admissible length survives the frame, in either direction.\<close>

lemma read_frame_bytes:
  assumes "0 < length body" and "length body \<le> MaxFrameBytes"
  shows "read_frame (u32_bytes (word_of_nat (length body)) @ body) = Some body"
proof -
  have "unat (word_of_nat (length body) :: uint32) = length body"
    using assms(2) MaxFrame_lt by (intro unat_of_length) simp
  then show ?thesis using assms by (simp add: read_frame_def)
qed

lemma roundTrip_bytes:
  assumes "sock frame = Stream (u32_bytes (word_of_nat (length body)) @ body)"
    and "0 < length body" and "length body \<le> MaxFrameBytes"
  shows "roundTrip sock frame = Inr body"
proof -
  have "unat (word_of_nat (length body) :: uint32) = length body"
    using assms(3) MaxFrame_lt by (intro unat_of_length) simp
  moreover have "Uint32 (u32_bytes (word_of_nat (length body))) = word_of_nat (length body)"
    using Uint32_bytes [of _ "[]"] by simp
  ultimately show ?thesis using assms by (simp add: roundTrip_def ReadFull_def)
qed

lemma frames:
  "npm_frame c = u32_bytes (word_of_nat (length (msgParseRequest # u32_bytes (word_of_nat (length c)) @ c @ u32_bytes 0)))
     @ msgParseRequest # u32_bytes (word_of_nat (length c)) @ c @ u32_bytes 0"
  "gomod_frame s m = u32_bytes (word_of_nat (length (msgParseGomodRequest # u32_bytes (word_of_nat (length s)) @ s @
       u32_bytes (word_of_nat (length m)) @ m)))
     @ msgParseGomodRequest # u32_bytes (word_of_nat (length s)) @ s @ u32_bytes (word_of_nat (length m)) @ m"
  "cargo_frame c = u32_bytes (word_of_nat (length (msgParseCargoRequest # u32_bytes (word_of_nat (length c)) @ c)))
     @ msgParseCargoRequest # u32_bytes (word_of_nat (length c)) @ c"
  "encode_parse_result j = u32_bytes (word_of_nat (length (msgParseResult # u32_bytes (word_of_nat (length j)) @ j)))
     @ msgParseResult # u32_bytes (word_of_nat (length j)) @ j"
  "encode_error code msg = u32_bytes (word_of_nat (length (msgError # u32_bytes (word_of_nat (length code)) @ code @
       u32_bytes (word_of_nat (length msg)) @ msg)))
     @ msgError # u32_bytes (word_of_nat (length code)) @ code @ u32_bytes (word_of_nat (length msg)) @ msg"
  by (simp_all add: npm_frame_def gomod_frame_def cargo_frame_def encode_parse_result_def encode_error_def
      AppendUint32_def Let_def add.commute add.left_commute)

lemma decode_error_bytes:
  assumes "length code < 2 ^ 32" and "length msg < 2 ^ 32"
  shows "decodeErrorFrame (u32_bytes (word_of_nat (length code)) @ code @ u32_bytes (word_of_nat (length msg)) @ msg) =
    classifyRemoteError code msg"
proof -
  have "Uint32 (u32_bytes w) = w" for w using Uint32_bytes [of w "[]"] by simp
  then show ?thesis using assms by (simp add: decodeErrorFrame_def unat_of_length Let_def)
qed

lemma decode_result_bytes:
  assumes "length j < 2 ^ 32"
  shows "decodeParseResult unmarshal (u32_bytes (word_of_nat (length j)) @ j) =
    (case unmarshal j of None \<Rightarrow> Inl (NtMalformedResponse ''decode parsed_sbom'') | Some s \<Rightarrow> Inr s)"
proof -
  have "Uint32 (u32_bytes w) = w" for w using Uint32_bytes [of w "[]"] by simp
  then show ?thesis using assms by (simp add: decodeParseResult_def unat_of_length Let_def)
qed

lemma prefixed_last:
  "length s < 2 ^ 32 \<Longrightarrow> read_length_prefixed (u32_bytes (word_of_nat (length s)) @ s) = Inr (s, [])"
  using prefixed_bytes [of s "[]"] by simp

lemma npm_request:
  assumes "1 + 4 + length c + 4 \<le> MaxFrameBytes"
  shows "\<exists>b. read_frame (npm_frame c) = Some b \<and> decode_request_body b = Inr (ParseNpm c [])"
proof -
  have z: "read_length_prefixed (u32_bytes 0) = Inr ([], [])" using prefixed_last [of "[]"] by simp
  have "read_frame (npm_frame c) = Some (msgParseRequest # u32_bytes (word_of_nat (length c)) @ c @ u32_bytes 0)"
    unfolding frames by (rule read_frame_bytes) (use assms in simp_all)
  then show ?thesis
    using assms MaxFrame_lt by (simp add: decode_request_body_def prefixed_bytes z)
qed

lemma gomod_request:
  assumes "1 + 4 + length c + 4 + length d \<le> MaxFrameBytes"
  shows "\<exists>b. read_frame (gomod_frame c d) = Some b \<and> decode_request_body b = Inr (ParseGomod c d)"
proof -
  have "read_frame (gomod_frame c d) = Some (msgParseGomodRequest # u32_bytes (word_of_nat (length c)) @ c @
      u32_bytes (word_of_nat (length d)) @ d)"
    unfolding frames by (rule read_frame_bytes) (use assms in simp_all)
  then show ?thesis
    using assms MaxFrame_lt by (simp add: decode_request_body_def opcodes prefixed_bytes prefixed_last)
qed

lemma cargo_request:
  assumes "1 + 4 + length c \<le> MaxFrameBytes"
  shows "\<exists>b. read_frame (cargo_frame c) = Some b \<and> decode_request_body b = Inr (ParseCargoReq c)"
proof -
  have "read_frame (cargo_frame c) = Some (msgParseCargoRequest # u32_bytes (word_of_nat (length c)) @ c)"
    unfolding frames by (rule read_frame_bytes) (use assms in simp_all)
  then show ?thesis
    using assms MaxFrame_lt by (simp add: decode_request_body_def opcodes prefixed_last)
qed

text \<open>What the client makes of the server's answer to a request it decoded.\<close>

definition client_view :: "(string \<Rightarrow> parsed_sbom option) \<Rightarrow> rust_result \<Rightarrow> native_error + parsed_sbom" where
  "client_view unmarshal result =
     (case result of
        Inr (Inr json) \<Rightarrow> (case unmarshal json of None \<Rightarrow> Inl (NtMalformedResponse ''decode parsed_sbom'') | Some s \<Rightarrow> Inr s)
      | Inr (Inl e) \<Rightarrow> Inl (NtRemote ''INTERNAL_ERROR'' (''sbom marshal failed: '' @ e))
      | Inl (Malformed m) \<Rightarrow> Inl (NtMalformedLockfile (''malformed lockfile: '' @ m))
      | Inl (UnsupportedVersion m) \<Rightarrow> Inl (NtUnsupportedLockfileVersion (''unsupported lockfile version: '' @ m))
      | Inl (EmptyFile m) \<Rightarrow> Inl (NtEmptyLockfile (''empty lockfile: '' @ m)))"

lemma dispatch_result:
  assumes "sock frame = Stream (encode_parse_result j)" and "length (encode_parse_result j) \<le> 4 + MaxFrameBytes"
  shows "parseDispatch unmarshal sock frame =
    (case unmarshal j of None \<Rightarrow> Inl (NtMalformedResponse ''decode parsed_sbom'') | Some s \<Rightarrow> Inr s)"
proof -
  have "length j < 2 ^ 32" using assms(2) MaxFrame_lt by (simp add: frames(4))
  moreover have "roundTrip sock frame = Inr (msgParseResult # u32_bytes (word_of_nat (length j)) @ j)"
    by (rule roundTrip_bytes) (use assms in \<open>simp_all add: frames(4)\<close>)
  ultimately show ?thesis by (simp add: parseDispatch_def decode_result_bytes)
qed

lemma dispatch_error:
  assumes "sock frame = Stream (encode_error code msg)" and "length (encode_error code msg) \<le> 4 + MaxFrameBytes"
  shows "parseDispatch unmarshal sock frame = Inl (classifyRemoteError code msg)"
proof -
  have "length code < 2 ^ 32" "length msg < 2 ^ 32" using assms(2) MaxFrame_lt by (simp_all add: frames(5))
  moreover have "roundTrip sock frame = Inr (msgError # u32_bytes (word_of_nat (length code)) @ code @
      u32_bytes (word_of_nat (length msg)) @ msg)"
    by (rule roundTrip_bytes) (use assms in \<open>simp_all add: frames(5)\<close>)
  ultimately show ?thesis by (simp add: parseDispatch_def opcodes decode_error_bytes)
qed

lemma dispatch_view:
  assumes "sock frame = Stream (dispatch_parse result)" and "length (dispatch_parse result) \<le> 4 + MaxFrameBytes"
  shows "parseDispatch unmarshal sock frame = client_view unmarshal result"
proof (cases result)
  case (Inl e)
  then show ?thesis
    using assms by (cases e) (simp_all add: dispatch_parse_def client_view_def dispatch_error classifyRemoteError_def)
next
  case (Inr r)
  then show ?thesis
    using assms by (cases r) (simp_all add: dispatch_parse_def client_view_def dispatch_result dispatch_error classifyRemoteError_def)
qed

section \<open>Properties\<close>

text \<open>
  C34. The sidecar answers what its parser says. For lockfiles whose request fits a frame, and results or error messages
  that do, each of the three parse calls of the Go client, connected to the Rust server, returns what the server's
  parser computed from exactly the bytes that were passed in: the decoded SBOM if it succeeded, and for each kind
  of parse error the corresponding error of the client. A ping is answered.
\<close>

theorem sidecar_end_to_end:
  assumes "1 + 4 + length c + 4 + length d \<le> MaxFrameBytes"
    and "length (dispatch_parse (rp_npm ps c)) \<le> 4 + MaxFrameBytes"
    and "length (dispatch_parse (rp_gomod ps c d)) \<le> 4 + MaxFrameBytes"
    and "length (dispatch_parse (rp_cargo ps c)) \<le> 4 + MaxFrameBytes"
  shows "ParseNPMLockfile unmarshal (serve_once ps) c = client_view unmarshal (rp_npm ps c) \<and>
    ParseGoModule unmarshal (serve_once ps) c d = client_view unmarshal (rp_gomod ps c d) \<and>
    ParseCargo unmarshal (serve_once ps) c = client_view unmarshal (rp_cargo ps c) \<and>
    Ping (serve_once ps) = None"
proof -
  have sizes: "1 + 4 + length c + 4 \<le> MaxFrameBytes" "1 + 4 + length c \<le> MaxFrameBytes" using assms(1) by simp_all
  have "serve_once ps (npm_frame c) = Stream (dispatch_parse (rp_npm ps c))"
      "serve_once ps (gomod_frame c d) = Stream (dispatch_parse (rp_gomod ps c d))"
      "serve_once ps (cargo_frame c) = Stream (dispatch_parse (rp_cargo ps c))"
    using npm_request [OF sizes(1)] gomod_request [OF assms(1)] cargo_request [OF sizes(2)]
    by (auto simp: serve_once_def handle_body_def)
  moreover have "read_frame ping_frame = Some [msgPing]"
    using read_frame_bytes [of "[msgPing]"] by (simp add: ping_frame_def AppendUint32_def MaxFrameBytes_def)
  then have "serve_once ps ping_frame = Stream (u32_bytes (word_of_nat (length [msgPong])) @ [msgPong])"
    by (simp add: serve_once_def handle_body_def decode_request_body_def opcodes encode_pong_def)
  then have "roundTrip (serve_once ps) ping_frame = Inr [msgPong]"
    by (rule roundTrip_bytes) (simp_all add: MaxFrameBytes_def)
  ultimately show ?thesis
    using assms sizes
    by (simp add: ParseNPMLockfile_def ParseGoModule_def ParseCargo_def Ping_def dispatch_view)
qed

definition deaf_parsers :: rust_parsers where
  "deaf_parsers = \<lparr>rp_npm = (\<lambda>_. Inl (EmptyFile ''x'')), rp_gomod = (\<lambda>_ _. Inr (Inr ''{}'')), rp_cargo = (\<lambda>_. Inl (Malformed ''y''))\<rparr>"

theorem sidecar_end_to_end_witness:
  "ParseNPMLockfile (\<lambda>_. None) (serve_once deaf_parsers) ''{}'' = Inl (NtEmptyLockfile ''empty lockfile: x'')"
proof -
  have "length (dispatch_parse (rp_npm deaf_parsers ''{}'')) \<le> 4 + MaxFrameBytes"
      "length (dispatch_parse (rp_gomod deaf_parsers ''{}'' [])) \<le> 4 + MaxFrameBytes"
      "length (dispatch_parse (rp_cargo deaf_parsers ''{}'')) \<le> 4 + MaxFrameBytes"
    by (simp_all add: deaf_parsers_def dispatch_parse_def encode_error_def encode_parse_result_def MaxFrameBytes_def)
  from sidecar_end_to_end [OF _ this] show ?thesis
    by (simp add: MaxFrameBytes_def client_view_def deaf_parsers_def)
qed

text \<open>
  C35. Malformed answers are refused. Whatever bytes come back over the socket, the client returns an SBOM only if they
  start with a complete frame of admissible length whose body is the result opcode, the length of the rest, and a
  document that decodes to that SBOM; it never reads past the frame.
\<close>

theorem result_only_from_wellformed:
  assumes "sock (npm_frame c) = Stream bytes"
    and "ParseNPMLockfile unmarshal sock c = Inr s"
  shows "\<exists>json junk. bytes = encode_parse_result json @ junk \<and> length json \<le> MaxFrameBytes \<and> unmarshal json = Some s"
proof -
  from assms obtain body where rt: "roundTrip sock (npm_frame c) = Inr body"
    and pd: "parseDispatch unmarshal sock (npm_frame c) = Inr s"
    by (auto simp: ParseNPMLockfile_def parseDispatch_def Let_def split: if_splits sum.splits)
  from pd rt obtain rest where body: "body = msgParseResult # rest"
    and dec: "decodeParseResult unmarshal rest = Inr s"
    by (auto simp: parseDispatch_def split: list.splits if_splits)
  from dec have len: "4 \<le> length rest" "unat (Uint32 (take 4 rest)) + 4 = length rest"
    and um: "unmarshal (drop 4 rest) = Some s"
    by (auto simp: decodeParseResult_def Let_def split: if_splits option.splits)
  from rt assms(1) have hd: "4 \<le> length bytes" "unat (Uint32 (take 4 bytes)) \<le> MaxFrameBytes"
      "unat (Uint32 (take 4 bytes)) \<le> length (drop 4 bytes)"
      "body = take (unat (Uint32 (take 4 bytes))) (drop 4 bytes)"
    by (auto simp: roundTrip_def ReadFull_def Let_def split: if_splits)
  then have lb: "unat (Uint32 (take 4 bytes)) = length body" by simp
  with hd(1,4) have "bytes = u32_bytes (word_of_nat (length body)) @ body @ drop (length body) (drop 4 bytes)"
    by (metis append_take_drop_id u32_bytes_Uint32 ucast_id of_nat_unat)
  moreover have "rest = u32_bytes (word_of_nat (length (drop 4 rest))) @ drop 4 rest"
    using len by (metis add_diff_cancel_right' append_take_drop_id length_drop u32_bytes_Uint32 ucast_id of_nat_unat)
  ultimately have "bytes = encode_parse_result (drop 4 rest) @ drop (length body) (drop 4 bytes)"
    by (metis append.assoc body frames(4))
  moreover have "length (drop 4 rest) \<le> MaxFrameBytes" using hd(2) lb body by simp
  ultimately show ?thesis using um by blast
qed

definition no_packages :: parsed_sbom where
  "no_packages = \<lparr>ps_Ecosystem = ''npm'', ps_Packages = [], ps_SourceFormat = ''npm-package-lock-v3'', ps_SourceBytes = 2\<rparr>"

theorem result_only_from_wellformed_witness:
  "\<exists>json junk. encode_parse_result ''{}'' = encode_parse_result json @ junk \<and> length json \<le> MaxFrameBytes"
proof -
  have "ParseNPMLockfile (\<lambda>_. Some no_packages) (\<lambda>_. Stream (encode_parse_result ''{}'')) [] = Inr no_packages"
    using dispatch_result [of "\<lambda>_. Stream (encode_parse_result ''{}'')" "npm_frame []" "''{}''" "\<lambda>_. Some no_packages"]
    by (simp add: ParseNPMLockfile_def MaxFrameBytes_def) (simp add: encode_parse_result_def)
  from result_only_from_wellformed [OF refl this] show ?thesis by blast
qed

end
