(* ===== verification/Storage.thy ===== *)
theory Storage
  imports Domain
begin

text \<open>
  \<^verbatim>\<open>engine/internal/storage\<close>: the persistence interface as a record of operations over a backend state,
  and the in-memory backend \<^verbatim>\<open>storage/memory\<close>.

  What the environment decides at one storage call is a \<open>call\<close> record: the value of \<^verbatim>\<open>ctx.Err()\<close>, the
  order of the \<^verbatim>\<open>range\<close> loop over the backend's map, and the reading of the wall clock. The mutex of
  the in-memory backend makes each call atomic, except that reads of the joined tables in
  \<^verbatim>\<open>ListIncidentsFiltered\<close> are copies taken under the same lock.
\<close>

record call =
  c_err :: "error option"
  c_order :: order
  c_now :: time

definition with_err :: "call \<Rightarrow> 'a \<Rightarrow> 'a result" where
  "with_err c x = (case c_err c of None \<Rightarrow> Inr x | Some e \<Rightarrow> Inl e)"

section \<open>The interface\<close>

record 's storage =
  UpsertComponent :: "call \<Rightarrow> component \<Rightarrow> 's \<Rightarrow> error option \<times> 's"
  GetComponent :: "call \<Rightarrow> string \<Rightarrow> 's \<Rightarrow> component result"
  ListComponents :: "call \<Rightarrow> 's \<Rightarrow> component list result"
  UpsertSBOM :: "call \<Rightarrow> sbom \<Rightarrow> 's \<Rightarrow> error option \<times> 's"
  GetSBOM :: "call \<Rightarrow> string \<Rightarrow> 's \<Rightarrow> sbom result"
  ListSBOMsByComponent :: "call \<Rightarrow> string \<Rightarrow> 's \<Rightarrow> sbom list result"
  ListSBOMPackages :: "call \<Rightarrow> string \<Rightarrow> string \<Rightarrow> 's \<Rightarrow> sbom_package_ref list result"
  UpsertIoC :: "call \<Rightarrow> ioc \<Rightarrow> 's \<Rightarrow> error option \<times> 's"
  GetIoC :: "call \<Rightarrow> string \<Rightarrow> 's \<Rightarrow> ioc result"
  ListIoCs :: "call \<Rightarrow> 's \<Rightarrow> ioc list result"
  UpsertIncident :: "call \<Rightarrow> incident \<Rightarrow> 's \<Rightarrow> error option \<times> 's"
  GetIncident :: "call \<Rightarrow> string \<Rightarrow> 's \<Rightarrow> incident result"
  ListIncidents :: "call \<Rightarrow> 's \<Rightarrow> incident list result"
  ListIncidentsFiltered :: "call \<Rightarrow> incident_filter \<Rightarrow> 's \<Rightarrow> incident list result"
  MatchedComponentRefsByIoC :: "call \<Rightarrow> string \<Rightarrow> 's \<Rightarrow> string list result"
  AppendRemediation :: "call \<Rightarrow> string \<Rightarrow> remediation \<Rightarrow> 's \<Rightarrow> error option \<times> 's"
  ListRemediations :: "call \<Rightarrow> string \<Rightarrow> 's \<Rightarrow> remediation list result"
  UpsertPublisher :: "call \<Rightarrow> publisher \<Rightarrow> 's \<Rightarrow> error option \<times> 's"
  GetPublisher :: "call \<Rightarrow> string \<Rightarrow> string \<Rightarrow> 's \<Rightarrow> publisher result"
  UpsertPublisherProfile :: "call \<Rightarrow> publisher_profile \<Rightarrow> 's \<Rightarrow> error option \<times> 's"
  GetPublisherProfile :: "call \<Rightarrow> string \<Rightarrow> string \<Rightarrow> 's \<Rightarrow> publisher_profile result"
  ListPublishers :: "call \<Rightarrow> string \<Rightarrow> 's \<Rightarrow> publisher list result"
  SavePublisherSnapshot :: "call \<Rightarrow> publisher_snapshot \<Rightarrow> 's \<Rightarrow> error option \<times> 's"
  GetPublisherHistory :: "call \<Rightarrow> string \<Rightarrow> int \<Rightarrow> 's \<Rightarrow> publisher_snapshot list result"
  ListPackagesNeedingRefresh :: "call \<Rightarrow> time \<Rightarrow> int \<Rightarrow> 's \<Rightarrow> string list result"
  SaveAnomaly :: "call \<Rightarrow> anomaly \<Rightarrow> 's \<Rightarrow> int result \<times> 's"
  GetAnomaly :: "call \<Rightarrow> int \<Rightarrow> 's \<Rightarrow> anomaly result"
  ListAnomalies :: "call \<Rightarrow> anomaly_filter \<Rightarrow> 's \<Rightarrow> anomaly list result"

section \<open>The in-memory backend\<close>

record store =
  components :: "(string, component) gomap"
  sboms :: "(string, sbom) gomap"
  iocs :: "(string, ioc) gomap"
  incidents :: "(string, incident) gomap"
  publishers :: "(string \<times> string, publisher) gomap"
  profiles :: "(string \<times> string, publisher_profile) gomap"
  publisherHistory :: "(string, publisher_snapshot list) gomap"
  nextSnapshotID :: int
  anomalies :: "(int, anomaly) gomap"
  anomalyDedup :: "(string \<times> string \<times> time, int) gomap"
  nextAnomalyID :: int

definition mem_New :: store where
  "mem_New = \<lparr>components = [], sboms = [], iocs = [], incidents = [], publishers = [],
     profiles = [], publisherHistory = [], nextSnapshotID = 0, anomalies = [], anomalyDedup = [],
     nextAnomalyID = 0\<rparr>"

definition lookup :: "call \<Rightarrow> 'v option \<Rightarrow> 'v result" where
  "lookup c r = (case r of None \<Rightarrow> Inl ErrNotFound | Some v \<Rightarrow> with_err c v)"

definition mem_UpsertComponent :: "call \<Rightarrow> component \<Rightarrow> store \<Rightarrow> error option \<times> store" where
  "mem_UpsertComponent c x s = (c_err c, s\<lparr>components := put (comp_Ref x) x (components s)\<rparr>)"

definition mem_GetComponent :: "call \<Rightarrow> string \<Rightarrow> store \<Rightarrow> component result" where
  "mem_GetComponent c ref s = lookup c (get (components s) ref)"

definition mem_ListComponents :: "call \<Rightarrow> store \<Rightarrow> component list result" where
  "mem_ListComponents c s =
     with_err c (sort_slice (\<lambda>a b. comp_Ref a < comp_Ref b) (values_in (c_order c) (components s)))"

definition mem_UpsertSBOM :: "call \<Rightarrow> sbom \<Rightarrow> store \<Rightarrow> error option \<times> store" where
  "mem_UpsertSBOM c b s = (c_err c, s\<lparr>sboms := put (sbom_ID b) b (sboms s)\<rparr>)"

definition mem_GetSBOM :: "call \<Rightarrow> string \<Rightarrow> store \<Rightarrow> sbom result" where
  "mem_GetSBOM c k s = lookup c (get (sboms s) k)"

definition mem_ListSBOMsByComponent :: "call \<Rightarrow> string \<Rightarrow> store \<Rightarrow> sbom list result" where
  "mem_ListSBOMsByComponent c ref s =
     with_err c (sort_slice (\<lambda>a b. sbom_GeneratedAt a < sbom_GeneratedAt b)
       (filter (\<lambda>b. sbom_ComponentRef b = ref) (values_in (c_order c) (sboms s))))"

text \<open>The rows one SBOM contributes to a package lookup.\<close>

definition sbom_rows :: "string \<Rightarrow> string \<Rightarrow> sbom \<Rightarrow> sbom_package_ref list" where
  "sbom_rows eco name b =
     (if sbom_Ecosystem b \<noteq> eco then []
      else map (\<lambda>p. \<lparr>spr_ComponentRef = sbom_ComponentRef b, spr_Package = p\<rparr>)
             (filter (\<lambda>p. pv_Name p = name) (sbom_Packages b)))"

definition mem_ListSBOMPackages ::
    "call \<Rightarrow> string \<Rightarrow> string \<Rightarrow> store \<Rightarrow> sbom_package_ref list result" where
  "mem_ListSBOMPackages c eco name s =
     with_err c (sort_slice
       (\<lambda>a b. if spr_ComponentRef a \<noteq> spr_ComponentRef b then spr_ComponentRef a < spr_ComponentRef b
              else pv_Version (spr_Package a) < pv_Version (spr_Package b))
       (concat (map (sbom_rows eco name) (values_in (c_order c) (sboms s)))))"

definition mem_UpsertIoC :: "call \<Rightarrow> ioc \<Rightarrow> store \<Rightarrow> error option \<times> store" where
  "mem_UpsertIoC c i s = (c_err c, s\<lparr>iocs := put (ioc_ID i) i (iocs s)\<rparr>)"

definition mem_GetIoC :: "call \<Rightarrow> string \<Rightarrow> store \<Rightarrow> ioc result" where
  "mem_GetIoC c k s = lookup c (get (iocs s) k)"

definition mem_ListIoCs :: "call \<Rightarrow> store \<Rightarrow> ioc list result" where
  "mem_ListIoCs c s =
     with_err c (sort_slice (\<lambda>a b. ioc_PublishedAt a < ioc_PublishedAt b)
       (values_in (c_order c) (iocs s)))"

definition mem_UpsertIncident :: "call \<Rightarrow> incident \<Rightarrow> store \<Rightarrow> error option \<times> store" where
  "mem_UpsertIncident c i s = (c_err c, s\<lparr>incidents := put (inc_ID i) i (incidents s)\<rparr>)"

definition mem_GetIncident :: "call \<Rightarrow> string \<Rightarrow> store \<Rightarrow> incident result" where
  "mem_GetIncident c k s = lookup c (get (incidents s) k)"

definition mem_ListIncidents :: "call \<Rightarrow> store \<Rightarrow> incident list result" where
  "mem_ListIncidents c s =
     with_err c (sort_slice (\<lambda>a b. inc_OpenedAt a < inc_OpenedAt b)
       (values_in (c_order c) (incidents s)))"

definition mem_MatchedComponentRefsByIoC :: "call \<Rightarrow> string \<Rightarrow> store \<Rightarrow> string list result" where
  "mem_MatchedComponentRefsByIoC c k s =
     with_err c (sort_slice (\<lambda>a b. a < b) (uniq []
       (concat (map inc_AffectedComponentsSnapshot
         (filter (\<lambda>i. inc_IoCID i = k) (values_in (c_order c) (incidents s)))))))"

definition matchesIndexedFilter :: "incident \<Rightarrow> incident_filter \<Rightarrow> bool" where
  "matchesIndexedFilter i f =
     (if if_States f \<noteq> [] \<and> inc_State i \<notin> set (if_States f) then False
      else if (case if_From f of None \<Rightarrow> False | Some t \<Rightarrow> inc_OpenedAt i < t) then False
      else if (case if_To f of None \<Rightarrow> False | Some t \<Rightarrow> inc_OpenedAt i > t) then False
      else True)"

definition matchesEcosystemFilter :: "incident \<Rightarrow> incident_filter \<Rightarrow> (string, ioc) gomap \<Rightarrow> bool" where
  "matchesEcosystemFilter i f m =
     (if if_Ecosystems f = [] then True
      else case get m (inc_IoCID i) of
             None \<Rightarrow> False
           | Some x \<Rightarrow> list_ex (\<lambda>eco. eco \<noteq> [] \<and> ioc_Ecosystem x = eco) (if_Ecosystems f))"

definition matchesSearchFilter :: "incident \<Rightarrow> incident_filter \<Rightarrow> bool" where
  "matchesSearchFilter i f =
     (if if_Search f = [] then True
      else (let q = ToLower (if_Search f) in
            if Contains (ToLower (inc_ID i)) q then True
            else if Contains (ToLower (inc_IoCID i)) q then True
            else list_ex (\<lambda>ref. Contains (ToLower ref) q) (inc_AffectedComponentsSnapshot i)))"

definition matchesOwnerFilter ::
    "incident \<Rightarrow> incident_filter \<Rightarrow> (string, component) gomap \<Rightarrow> bool" where
  "matchesOwnerFilter i f m =
     (if if_Owner f = [] then True
      else list_ex (\<lambda>ref. case get m ref of None \<Rightarrow> False | Some x \<Rightarrow> comp_Owner x = if_Owner f)
             (inc_AffectedComponentsSnapshot i))"

definition mem_ListIncidentsFiltered ::
    "call \<Rightarrow> incident_filter \<Rightarrow> store \<Rightarrow> incident list result" where
  "mem_ListIncidentsFiltered c f s =
     (let candidates = filter (\<lambda>i. matchesIndexedFilter i f) (values_in (c_order c) (incidents s));
          out = filter (\<lambda>i. matchesEcosystemFilter i f (iocs s) \<and> matchesSearchFilter i f \<and>
                            matchesOwnerFilter i f (components s)) candidates
      in with_err c (cap (if_Limit f) (sort_slice (\<lambda>a b. inc_OpenedAt a > inc_OpenedAt b) out)))"

definition mem_AppendRemediation ::
    "call \<Rightarrow> string \<Rightarrow> remediation \<Rightarrow> store \<Rightarrow> error option \<times> store" where
  "mem_AppendRemediation c k r s =
     (case get (incidents s) k of
        None \<Rightarrow> (Some ErrNotFound, s)
      | Some i \<Rightarrow>
          (c_err c,
           s\<lparr>incidents := put k (i\<lparr>inc_Remediations := inc_Remediations i @ [r]\<rparr>) (incidents s)\<rparr>))"

definition mem_ListRemediations :: "call \<Rightarrow> string \<Rightarrow> store \<Rightarrow> remediation list result" where
  "mem_ListRemediations c k s = lookup c (map_option inc_Remediations (get (incidents s) k))"

definition mem_UpsertPublisher :: "call \<Rightarrow> publisher \<Rightarrow> store \<Rightarrow> error option \<times> store" where
  "mem_UpsertPublisher c p s =
     (c_err c, s\<lparr>publishers := put (pub_Ecosystem p, pub_Name p) p (publishers s)\<rparr>)"

definition mem_GetPublisher :: "call \<Rightarrow> string \<Rightarrow> string \<Rightarrow> store \<Rightarrow> publisher result" where
  "mem_GetPublisher c eco name s = lookup c (get (publishers s) (eco, name))"

definition mem_UpsertPublisherProfile ::
    "call \<Rightarrow> publisher_profile \<Rightarrow> store \<Rightarrow> error option \<times> store" where
  "mem_UpsertPublisherProfile c p s =
     (c_err c,
      s\<lparr>profiles := put (pub_Ecosystem (prof_Publisher p), pub_Name (prof_Publisher p)) p (profiles s)\<rparr>)"

definition mem_GetPublisherProfile ::
    "call \<Rightarrow> string \<Rightarrow> string \<Rightarrow> store \<Rightarrow> publisher_profile result" where
  "mem_GetPublisherProfile c eco name s = lookup c (get (profiles s) (eco, name))"

definition mem_ListPublishers :: "call \<Rightarrow> string \<Rightarrow> store \<Rightarrow> publisher list result" where
  "mem_ListPublishers c eco s =
     with_err c (sort_slice (\<lambda>a b. pub_Name a < pub_Name b)
       (map snd (filter (\<lambda>e. fst (fst e) = eco) (in_order (c_order c) (publishers s)))))"

definition mem_SavePublisherSnapshot ::
    "call \<Rightarrow> publisher_snapshot \<Rightarrow> store \<Rightarrow> error option \<times> store" where
  "mem_SavePublisherSnapshot c snap s =
     (let n = nextSnapshotID s + 1;
          at = (if IsZero (snap_SnapshotAt snap) then c_now c else snap_SnapshotAt snap);
          snap' = snap\<lparr>snap_ID := n, snap_SnapshotAt := at\<rparr>;
          old = (case get (publisherHistory s) (snap_PackageRef snap) of None \<Rightarrow> [] | Some h \<Rightarrow> h)
      in (c_err c,
          s\<lparr>nextSnapshotID := n,
            publisherHistory := put (snap_PackageRef snap) (old @ [snap']) (publisherHistory s)\<rparr>))"

definition mem_GetPublisherHistory ::
    "call \<Rightarrow> string \<Rightarrow> int \<Rightarrow> store \<Rightarrow> publisher_snapshot list result" where
  "mem_GetPublisherHistory c ref limit s =
     (case get (publisherHistory s) ref of
        None \<Rightarrow> with_err c []
      | Some all \<Rightarrow>
          with_err c (cap limit (sort_slice (\<lambda>a b. snap_SnapshotAt a > snap_SnapshotAt b) all)))"

text \<open>The newest snapshot time of a history, as the loop of the source computes it.\<close>

fun latest_of :: "time \<Rightarrow> publisher_snapshot list \<Rightarrow> time" where
  "latest_of t [] = t"
| "latest_of t (x # xs) = latest_of (if snap_SnapshotAt x > t then snap_SnapshotAt x else t) xs"

definition stale_candidate ::
    "time \<Rightarrow> string \<times> publisher_snapshot list \<Rightarrow> (string \<times> time) list" where
  "stale_candidate olderThan e =
     (case snd e of
        [] \<Rightarrow> []
      | h # hs \<Rightarrow>
          (let latest = latest_of (snap_SnapshotAt h) hs in
           if latest < olderThan then [(fst e, latest)] else []))"

fun take_limit :: "int \<Rightarrow> nat \<Rightarrow> 'a list \<Rightarrow> 'a list" where
  "take_limit limit n [] = []"
| "take_limit limit n (x # xs) =
     (if limit > 0 \<and> int (Suc n) \<ge> limit then [x] else x # take_limit limit (Suc n) xs)"

definition mem_ListPackagesNeedingRefresh ::
    "call \<Rightarrow> time \<Rightarrow> int \<Rightarrow> store \<Rightarrow> string list result" where
  "mem_ListPackagesNeedingRefresh c olderThan limit s =
     (let cands = concat (map (stale_candidate olderThan) (in_order (c_order c) (publisherHistory s)))
      in with_err c (take_limit limit 0 (map fst (sort_slice (\<lambda>a b. snd a < snd b) cands))))"

definition mem_SaveAnomaly :: "call \<Rightarrow> anomaly \<Rightarrow> store \<Rightarrow> int result \<times> store" where
  "mem_SaveAnomaly c a s =
     (let at = (if IsZero (anom_DetectedAt a) then c_now c else anom_DetectedAt a);
          dk = (anom_Kind a, anom_PackageRef a, at)
      in case get (anomalyDedup s) dk of
           Some existing \<Rightarrow> (with_err c existing, s)
         | None \<Rightarrow>
             (let n = nextAnomalyID s + 1 in
              (with_err c n,
               s\<lparr>nextAnomalyID := n,
                 anomalies := put n (a\<lparr>anom_ID := n, anom_DetectedAt := at\<rparr>) (anomalies s),
                 anomalyDedup := put dk n (anomalyDedup s)\<rparr>)))"

definition mem_GetAnomaly :: "call \<Rightarrow> int \<Rightarrow> store \<Rightarrow> anomaly result" where
  "mem_GetAnomaly c k s = lookup c (get (anomalies s) k)"

definition keepAnomaly :: "anomaly_filter \<Rightarrow> anomaly \<Rightarrow> bool" where
  "keepAnomaly f a =
     (if af_PackageRef f \<noteq> [] \<and> anom_PackageRef a \<noteq> af_PackageRef f then False
      else if af_Kind f \<noteq> [] \<and> anom_Kind a \<noteq> af_Kind f then False
      else if (case af_From f of None \<Rightarrow> False | Some t \<Rightarrow> anom_DetectedAt a < t) then False
      else if (case af_To f of None \<Rightarrow> False | Some t \<Rightarrow> anom_DetectedAt a > t) then False
      else True)"

definition mem_ListAnomalies :: "call \<Rightarrow> anomaly_filter \<Rightarrow> store \<Rightarrow> anomaly list result" where
  "mem_ListAnomalies c f s =
     with_err c (cap (af_Limit f) (sort_slice (\<lambda>a b. anom_DetectedAt a > anom_DetectedAt b)
       (filter (keepAnomaly f) (values_in (c_order c) (anomalies s)))))"

definition memory :: "store storage" where
  "memory = \<lparr>UpsertComponent = mem_UpsertComponent, GetComponent = mem_GetComponent,
     ListComponents = mem_ListComponents, UpsertSBOM = mem_UpsertSBOM, GetSBOM = mem_GetSBOM,
     ListSBOMsByComponent = mem_ListSBOMsByComponent, ListSBOMPackages = mem_ListSBOMPackages,
     UpsertIoC = mem_UpsertIoC, GetIoC = mem_GetIoC, ListIoCs = mem_ListIoCs,
     UpsertIncident = mem_UpsertIncident, GetIncident = mem_GetIncident,
     ListIncidents = mem_ListIncidents, ListIncidentsFiltered = mem_ListIncidentsFiltered,
     MatchedComponentRefsByIoC = mem_MatchedComponentRefsByIoC,
     AppendRemediation = mem_AppendRemediation, ListRemediations = mem_ListRemediations,
     UpsertPublisher = mem_UpsertPublisher, GetPublisher = mem_GetPublisher,
     UpsertPublisherProfile = mem_UpsertPublisherProfile,
     GetPublisherProfile = mem_GetPublisherProfile, ListPublishers = mem_ListPublishers,
     SavePublisherSnapshot = mem_SavePublisherSnapshot,
     GetPublisherHistory = mem_GetPublisherHistory,
     ListPackagesNeedingRefresh = mem_ListPackagesNeedingRefresh, SaveAnomaly = mem_SaveAnomaly,
     GetAnomaly = mem_GetAnomaly, ListAnomalies = mem_ListAnomalies\<rparr>"

section \<open>Comparators of the in-memory backend\<close>

text \<open>Every comparator the backend passes to \<^verbatim>\<open>sort.Slice\<close> orders by a key.\<close>

interpretation by_ref: comparator "\<lambda>a b. comp_Ref a < comp_Ref b" comp_Ref
  by unfold_locales simp

interpretation by_generated: comparator "\<lambda>a b. sbom_GeneratedAt a < sbom_GeneratedAt b" sbom_GeneratedAt
  by unfold_locales simp

interpretation by_published: comparator "\<lambda>a b. ioc_PublishedAt a < ioc_PublishedAt b" ioc_PublishedAt
  by unfold_locales simp

interpretation by_opened: comparator "\<lambda>a b. inc_OpenedAt a < inc_OpenedAt b" inc_OpenedAt
  by unfold_locales simp

interpretation by_opened_desc: comparator "\<lambda>a b. inc_OpenedAt a > inc_OpenedAt b" "\<lambda>i. - inc_OpenedAt i"
  by unfold_locales simp

interpretation by_string: comparator "\<lambda>a b. a < b" "\<lambda>a :: string. a"
  by unfold_locales simp

interpretation by_snapshot_desc:
  comparator "\<lambda>a b. snap_SnapshotAt a > snap_SnapshotAt b" "\<lambda>x. - snap_SnapshotAt x"
  by unfold_locales simp

interpretation by_latest: comparator "\<lambda>a b. snd a < snd b" "\<lambda>x :: string \<times> time. snd x"
  by unfold_locales simp

interpretation by_detected_desc:
  comparator "\<lambda>a b. anom_DetectedAt a > anom_DetectedAt b" "\<lambda>x. - anom_DetectedAt x"
  by unfold_locales simp

section \<open>The abstract database and the storage contract\<close>

text \<open>
  What the engine may rely on, whatever the backend: four tables keyed by identity. The remediation
  log of an incident is left out of the incident table, because a backend may keep it apart.
\<close>

record db =
  db_components :: "string \<Rightarrow> component option"
  db_sboms :: "string \<Rightarrow> sbom option"
  db_iocs :: "string \<Rightarrow> ioc option"
  db_incidents :: "string \<Rightarrow> incident option"

definition bare :: "incident \<Rightarrow> incident" where
  "bare i = i\<lparr>inc_Remediations := []\<rparr>"

text \<open>
  A backend may keep times at a coarser resolution than it is given: \<open>gran\<close> is what becomes of a time it stores.
\<close>

definition stored_sbom :: "(time \<Rightarrow> time) \<Rightarrow> sbom \<Rightarrow> sbom" where
  "stored_sbom gran b = b\<lparr>sbom_GeneratedAt := gran (sbom_GeneratedAt b)\<rparr>"

definition stored_ioc :: "(time \<Rightarrow> time) \<Rightarrow> ioc \<Rightarrow> ioc" where
  "stored_ioc gran i = i\<lparr>ioc_PublishedAt := gran (ioc_PublishedAt i)\<rparr>"

definition stored_incident :: "(time \<Rightarrow> time) \<Rightarrow> incident \<Rightarrow> incident" where
  "stored_incident gran i = (bare i)\<lparr>inc_OpenedAt := gran (inc_OpenedAt i),
     inc_LastTransitionedAt := gran (inc_LastTransitionedAt i)\<rparr>"

definition uniform :: "sbom \<Rightarrow> bool" where
  "uniform b \<longleftrightarrow> (\<forall>p \<in> set (sbom_Packages b). pv_Ecosystem p = sbom_Ecosystem b)"

definition keyed :: "db \<Rightarrow> bool" where
  "keyed d \<longleftrightarrow>
     (\<forall>k x. db_components d k = Some x \<longrightarrow> comp_Ref x = k) \<and>
     (\<forall>k x. db_sboms d k = Some x \<longrightarrow> sbom_ID x = k) \<and>
     (\<forall>k x. db_iocs d k = Some x \<longrightarrow> ioc_ID x = k) \<and>
     (\<forall>k x. db_incidents d k = Some x \<longrightarrow> inc_ID x = k)"

locale storage_contract =
  fixes ops :: "'s storage" and invar :: "'s \<Rightarrow> bool" and abs :: "'s \<Rightarrow> db" and gran :: "time \<Rightarrow> time"
  assumes keys: "invar s \<Longrightarrow> keyed (abs s)"
    and upsert_component_err: "c_err c = None \<Longrightarrow> fst (UpsertComponent ops c x s) = None"
    and upsert_component: "invar s \<Longrightarrow> c_err c = None \<Longrightarrow>
      invar (snd (UpsertComponent ops c x s)) \<and>
      abs (snd (UpsertComponent ops c x s)) =
        (abs s)\<lparr>db_components := (db_components (abs s))(comp_Ref x \<mapsto> x)\<rparr>"
    and upsert_sbom_err: "c_err c = None \<Longrightarrow> fst (UpsertSBOM ops c b s) = None"
    and upsert_sbom: "invar s \<Longrightarrow> c_err c = None \<Longrightarrow>
      invar (snd (UpsertSBOM ops c b s)) \<and>
      abs (snd (UpsertSBOM ops c b s)) =
        (abs s)\<lparr>db_sboms := (db_sboms (abs s))(sbom_ID b \<mapsto> stored_sbom gran b)\<rparr>"
    and upsert_ioc_err: "c_err c = None \<Longrightarrow> fst (UpsertIoC ops c i s) = None"
    and upsert_ioc: "invar s \<Longrightarrow> c_err c = None \<Longrightarrow>
      invar (snd (UpsertIoC ops c i s)) \<and>
      abs (snd (UpsertIoC ops c i s)) =
        (abs s)\<lparr>db_iocs := (db_iocs (abs s))(ioc_ID i \<mapsto> stored_ioc gran i)\<rparr>"
    and upsert_incident_err: "c_err c = None \<Longrightarrow> fst (UpsertIncident ops c n s) = None"
    and upsert_incident: "invar s \<Longrightarrow> c_err c = None \<Longrightarrow>
      invar (snd (UpsertIncident ops c n s)) \<and>
      abs (snd (UpsertIncident ops c n s)) =
        (abs s)\<lparr>db_incidents := (db_incidents (abs s))(inc_ID n \<mapsto> stored_incident gran n)\<rparr>"
    and append_remediation_err: "invar s \<Longrightarrow> c_err c = None \<Longrightarrow>
      fst (AppendRemediation ops c k r s) =
        (if db_incidents (abs s) k = None then Some ErrNotFound else None)"
    and append_remediation: "invar s \<Longrightarrow> c_err c = None \<Longrightarrow>
      invar (snd (AppendRemediation ops c k r s)) \<and>
      abs (snd (AppendRemediation ops c k r s)) = abs s"
    and get_component: "invar s \<Longrightarrow> c_err c = None \<Longrightarrow>
      GetComponent ops c k s =
        (case db_components (abs s) k of None \<Rightarrow> Inl ErrNotFound | Some x \<Rightarrow> Inr x)"
    and get_ioc: "invar s \<Longrightarrow> c_err c = None \<Longrightarrow>
      GetIoC ops c k s = (case db_iocs (abs s) k of None \<Rightarrow> Inl ErrNotFound | Some x \<Rightarrow> Inr x)"
    and get_incident: "invar s \<Longrightarrow> c_err c = None \<Longrightarrow>
      map_sum id bare (GetIncident ops c k s) =
        (case db_incidents (abs s) k of None \<Rightarrow> Inl ErrNotFound | Some x \<Rightarrow> Inr x)"
    and list_components: "invar s \<Longrightarrow> c_err c = None \<Longrightarrow> is_order (c_order c) \<Longrightarrow>
      \<exists>xs. ListComponents ops c s = Inr xs \<and> set xs = ran (db_components (abs s))"
    and list_sboms: "invar s \<Longrightarrow> c_err c = None \<Longrightarrow> is_order (c_order c) \<Longrightarrow>
      \<exists>xs. ListSBOMsByComponent ops c ref s = Inr xs \<and>
        set xs = {b \<in> ran (db_sboms (abs s)). sbom_ComponentRef b = ref}"
    and list_packages: "invar s \<Longrightarrow> c_err c = None \<Longrightarrow> is_order (c_order c) \<Longrightarrow>
      (\<And>b. b \<in> ran (db_sboms (abs s)) \<Longrightarrow> uniform b) \<Longrightarrow>
      \<exists>xs. ListSBOMPackages ops c eco name s = Inr xs \<and>
        set xs = {\<lparr>spr_ComponentRef = sbom_ComponentRef b, spr_Package = p\<rparr> | b p.
          b \<in> ran (db_sboms (abs s)) \<and> sbom_Ecosystem b = eco \<and> p \<in> set (sbom_Packages b) \<and>
          pv_Name p = name}"
    and list_iocs: "invar s \<Longrightarrow> c_err c = None \<Longrightarrow> is_order (c_order c) \<Longrightarrow>
      \<exists>xs. ListIoCs ops c s = Inr xs \<and> set xs = ran (db_iocs (abs s))"
    and list_incidents: "invar s \<Longrightarrow> c_err c = None \<Longrightarrow> is_order (c_order c) \<Longrightarrow>
      \<exists>xs. ListIncidents ops c s = Inr xs \<and> bare ` set xs = ran (db_incidents (abs s))"
    and matched_refs: "invar s \<Longrightarrow> c_err c = None \<Longrightarrow> is_order (c_order c) \<Longrightarrow>
      \<exists>xs. MatchedComponentRefsByIoC ops c k s = Inr xs \<and> distinct xs \<and>
        set xs = (\<Union>i \<in> {i \<in> ran (db_incidents (abs s)). inc_IoCID i = k}.
          set (inc_AffectedComponentsSnapshot i))"

lemma stored_simps [simp]:
  "sbom_ID (stored_sbom gran b) = sbom_ID b" "sbom_ComponentRef (stored_sbom gran b) = sbom_ComponentRef b"
  "sbom_Ecosystem (stored_sbom gran b) = sbom_Ecosystem b" "sbom_Packages (stored_sbom gran b) = sbom_Packages b"
  "uniform (stored_sbom gran b) = uniform b"
  "ioc_ID (stored_ioc gran i) = ioc_ID i" "ioc_Ecosystem (stored_ioc gran i) = ioc_Ecosystem i"
  "inc_ID (stored_incident gran n) = inc_ID n" "inc_IoCID (stored_incident gran n) = inc_IoCID n"
  "inc_State (stored_incident gran n) = inc_State n"
  "inc_AffectedComponentsSnapshot (stored_incident gran n) = inc_AffectedComponentsSnapshot n"
  by (simp_all add: stored_sbom_def stored_ioc_def stored_incident_def bare_def uniform_def)

lemma stored_id [simp]:
  "stored_sbom (\<lambda>t. t) b = b" "stored_ioc (\<lambda>t. t) i = i" "stored_incident (\<lambda>t. t) n = bare n"
  by (simp_all add: stored_sbom_def stored_ioc_def stored_incident_def bare_def)

section \<open>Well-formedness of the in-memory backend\<close>

definition dedup_ok :: "store \<Rightarrow> bool" where
  "dedup_ok s \<longleftrightarrow>
     (\<forall>k a. get (anomalies s) k = Some a \<longrightarrow> anom_ID a = k \<and> 0 < k \<and> k \<le> nextAnomalyID s \<and>
        get (anomalyDedup s) (anom_Kind a, anom_PackageRef a, anom_DetectedAt a) = Some k) \<and>
     (\<forall>d k. get (anomalyDedup s) d = Some k \<longrightarrow>
        (\<exists>a. get (anomalies s) k = Some a \<and> d = (anom_Kind a, anom_PackageRef a, anom_DetectedAt a)))"

definition history_ok :: "store \<Rightarrow> bool" where
  "history_ok s \<longleftrightarrow>
     (\<forall>ref h. get (publisherHistory s) ref = Some h \<longrightarrow>
        h \<noteq> [] \<and> sorted_wrt (<) (map snap_ID h) \<and>
        (\<forall>x \<in> set h. snap_PackageRef x = ref \<and> 0 < snap_ID x \<and> snap_ID x \<le> nextSnapshotID s))"

definition tables_ok :: "store \<Rightarrow> bool" where
  "tables_ok s \<longleftrightarrow>
     gmap_ok (components s) \<and> gmap_ok (sboms s) \<and> gmap_ok (iocs s) \<and> gmap_ok (incidents s) \<and>
     gmap_ok (publishers s) \<and> gmap_ok (profiles s) \<and> gmap_ok (publisherHistory s) \<and>
     gmap_ok (anomalies s) \<and> gmap_ok (anomalyDedup s)"

definition keys_ok :: "store \<Rightarrow> bool" where
  "keys_ok s \<longleftrightarrow>
     (\<forall>k x. get (components s) k = Some x \<longrightarrow> comp_Ref x = k) \<and>
     (\<forall>k x. get (sboms s) k = Some x \<longrightarrow> sbom_ID x = k) \<and>
     (\<forall>k x. get (iocs s) k = Some x \<longrightarrow> ioc_ID x = k) \<and>
     (\<forall>k x. get (incidents s) k = Some x \<longrightarrow> inc_ID x = k) \<and>
     (\<forall>k x. get (publishers s) k = Some x \<longrightarrow> (pub_Ecosystem x, pub_Name x) = k)"

definition store_ok :: "store \<Rightarrow> bool" where
  "store_ok s \<longleftrightarrow> tables_ok s \<and> keys_ok s \<and> dedup_ok s \<and> history_ok s \<and> 0 \<le> nextAnomalyID s \<and>
     0 \<le> nextSnapshotID s"

definition mem_abs :: "store \<Rightarrow> db" where
  "mem_abs s = \<lparr>db_components = get (components s), db_sboms = get (sboms s), db_iocs = get (iocs s),
     db_incidents = (\<lambda>k. map_option bare (get (incidents s) k))\<rparr>"

lemmas mem_upsert_defs = mem_UpsertComponent_def mem_UpsertSBOM_def mem_UpsertIoC_def
  mem_UpsertIncident_def mem_AppendRemediation_def mem_UpsertPublisher_def
  mem_UpsertPublisherProfile_def

lemmas ok_defs = store_ok_def tables_ok_def keys_ok_def dedup_ok_def history_ok_def

lemma bare_simps [simp]:
  "inc_ID (bare i) = inc_ID i" "inc_IoCID (bare i) = inc_IoCID i" "inc_State (bare i) = inc_State i"
  "inc_AffectedComponentsSnapshot (bare i) = inc_AffectedComponentsSnapshot i"
  "inc_OpenedAt (bare i) = inc_OpenedAt i"
  "bare (i\<lparr>inc_Remediations := r\<rparr>) = bare i"
  by (simp_all add: bare_def)

lemma ran_get: "ran (get m) = {v. \<exists>k. get m k = Some v}"
  by (auto simp: ran_def)

lemma values_ran: "is_order \<rho> \<Longrightarrow> gmap_ok m \<Longrightarrow> set (values_in \<rho> m) = ran (get m)"
  by (auto simp: ran_get in_values_in)

section \<open>Preservation of well-formedness\<close>

lemma store_ok_New [simp]: "store_ok mem_New"
  by (simp add: ok_defs mem_New_def)

lemma store_ok_UpsertComponent: "store_ok s \<Longrightarrow> store_ok (snd (mem_UpsertComponent c x s))"
  by (simp add: ok_defs mem_upsert_defs)

lemma store_ok_UpsertSBOM: "store_ok s \<Longrightarrow> store_ok (snd (mem_UpsertSBOM c b s))"
  by (simp add: ok_defs mem_upsert_defs)

lemma store_ok_UpsertIoC: "store_ok s \<Longrightarrow> store_ok (snd (mem_UpsertIoC c i s))"
  by (simp add: ok_defs mem_upsert_defs)

lemma store_ok_UpsertIncident: "store_ok s \<Longrightarrow> store_ok (snd (mem_UpsertIncident c i s))"
  by (simp add: ok_defs mem_upsert_defs)

lemma store_ok_AppendRemediation: "store_ok s \<Longrightarrow> store_ok (snd (mem_AppendRemediation c k r s))"
  by (simp add: ok_defs mem_upsert_defs split: option.split)

lemma store_ok_UpsertPublisher: "store_ok s \<Longrightarrow> store_ok (snd (mem_UpsertPublisher c p s))"
  by (simp add: ok_defs mem_upsert_defs)

lemma store_ok_UpsertPublisherProfile:
  "store_ok s \<Longrightarrow> store_ok (snd (mem_UpsertPublisherProfile c p s))"
  by (simp add: ok_defs mem_upsert_defs)

lemma history_ok_SavePublisherSnapshot:
  assumes "history_ok s" and "0 \<le> nextSnapshotID s"
  shows "history_ok (snd (mem_SavePublisherSnapshot c x s))"
  unfolding history_ok_def
proof (intro allI impI)
  fix ref h
  assume h: "get (publisherHistory (snd (mem_SavePublisherSnapshot c x s))) ref = Some h"
  have "get (publisherHistory s) ref = Some h0 \<Longrightarrow> y \<in> set h0 \<Longrightarrow>
      snap_PackageRef y = ref \<and> 0 < snap_ID y \<and> snap_ID y \<le> nextSnapshotID s" for h0 y
    using assms(1) by (simp add: history_ok_def)
  moreover have "get (publisherHistory s) ref = Some h0 \<Longrightarrow>
      h0 \<noteq> [] \<and> sorted_wrt (<) (map snap_ID h0)" for h0
    using assms(1) by (simp add: history_ok_def)
  ultimately show "h \<noteq> [] \<and> sorted_wrt (<) (map snap_ID h) \<and>
      (\<forall>y \<in> set h. snap_PackageRef y = ref \<and> 0 < snap_ID y \<and>
         snap_ID y \<le> nextSnapshotID (snd (mem_SavePublisherSnapshot c x s)))"
    using h assms(2)
    by (fastforce simp: mem_SavePublisherSnapshot_def Let_def sorted_wrt_append
        split: option.splits if_splits)
qed

lemma store_ok_SavePublisherSnapshot:
  assumes "store_ok s"
  shows "store_ok (snd (mem_SavePublisherSnapshot c x s))"
  using assms history_ok_SavePublisherSnapshot [of s c x]
  by (simp add: store_ok_def)
    (simp add: mem_SavePublisherSnapshot_def Let_def tables_ok_def keys_ok_def dedup_ok_def)

lemma dedup_ok_SaveAnomaly:
  assumes "dedup_ok s" and "0 \<le> nextAnomalyID s"
  shows "dedup_ok (snd (mem_SaveAnomaly c a s))"
proof -
  define at where "at = (if IsZero (anom_DetectedAt a) then c_now c else anom_DetectedAt a)"
  define n where "n = nextAnomalyID s + 1"
  have b: "get (anomalies s) k = Some x \<Longrightarrow> anom_ID x = k \<and> 0 < k \<and> k < n \<and>
      get (anomalyDedup s) (anom_Kind x, anom_PackageRef x, anom_DetectedAt x) = Some k" for k x
    using assms(1) by (fastforce simp: dedup_ok_def n_def)
  have d: "\<exists>x. get (anomalies s) k = Some x \<and> k \<noteq> n \<and>
      d = (anom_Kind x, anom_PackageRef x, anom_DetectedAt x)"
    if "get (anomalyDedup s) d = Some k" for d k
    using that assms(1) b by (cases d) (fastforce simp: dedup_ok_def)
  show ?thesis
  proof (cases "get (anomalyDedup s) (anom_Kind a, anom_PackageRef a, at)")
    case (Some k)
    then show ?thesis using assms by (simp add: mem_SaveAnomaly_def at_def)
  next
    case None
    then have t: "snd (mem_SaveAnomaly c a s) = s\<lparr>nextAnomalyID := n,
        anomalies := put n (a\<lparr>anom_ID := n, anom_DetectedAt := at\<rparr>) (anomalies s),
        anomalyDedup := put (anom_Kind a, anom_PackageRef a, at) n (anomalyDedup s)\<rparr>"
      by (simp add: mem_SaveAnomaly_def at_def n_def Let_def)
    show ?thesis
      unfolding t dedup_ok_def
    proof (intro conjI allI impI; clarsimp split: if_splits)
      show "0 < n" using assms(2) by (simp add: n_def)
    qed (use b d None in \<open>force+\<close>)
  qed
qed

lemma store_ok_SaveAnomaly:
  assumes "store_ok s"
  shows "store_ok (snd (mem_SaveAnomaly c a s))"
  using assms dedup_ok_SaveAnomaly [of s c a]
  by (simp add: store_ok_def)
    (simp add: mem_SaveAnomaly_def Let_def tables_ok_def keys_ok_def history_ok_def split: option.split)

lemmas store_ok_ops = store_ok_UpsertComponent store_ok_UpsertSBOM store_ok_UpsertIoC
  store_ok_UpsertIncident store_ok_AppendRemediation store_ok_UpsertPublisher
  store_ok_UpsertPublisherProfile store_ok_SavePublisherSnapshot store_ok_SaveAnomaly

section \<open>The in-memory backend keeps the contract\<close>

lemma memory_simps [simp]:
  "UpsertComponent memory = mem_UpsertComponent" "GetComponent memory = mem_GetComponent"
  "ListComponents memory = mem_ListComponents" "UpsertSBOM memory = mem_UpsertSBOM"
  "GetSBOM memory = mem_GetSBOM" "ListSBOMsByComponent memory = mem_ListSBOMsByComponent"
  "ListSBOMPackages memory = mem_ListSBOMPackages" "UpsertIoC memory = mem_UpsertIoC"
  "GetIoC memory = mem_GetIoC" "ListIoCs memory = mem_ListIoCs"
  "UpsertIncident memory = mem_UpsertIncident" "GetIncident memory = mem_GetIncident"
  "ListIncidents memory = mem_ListIncidents"
  "ListIncidentsFiltered memory = mem_ListIncidentsFiltered"
  "MatchedComponentRefsByIoC memory = mem_MatchedComponentRefsByIoC"
  "AppendRemediation memory = mem_AppendRemediation"
  "ListRemediations memory = mem_ListRemediations"
  "SavePublisherSnapshot memory = mem_SavePublisherSnapshot"
  "GetPublisherHistory memory = mem_GetPublisherHistory"
  "ListPackagesNeedingRefresh memory = mem_ListPackagesNeedingRefresh"
  "SaveAnomaly memory = mem_SaveAnomaly" "GetAnomaly memory = mem_GetAnomaly"
  "ListAnomalies memory = mem_ListAnomalies"
  by (simp_all add: memory_def)

lemma mem_abs_simps [simp]:
  "db_components (mem_abs s) = get (components s)" "db_sboms (mem_abs s) = get (sboms s)"
  "db_iocs (mem_abs s) = get (iocs s)"
  "db_incidents (mem_abs s) k = map_option bare (get (incidents s) k)"
  by (simp_all add: mem_abs_def)

lemma get_put_fun: "get (put k v m) = (get m)(k \<mapsto> v)"
  by (rule ext) simp

lemma ran_bare: "ran (\<lambda>k. map_option bare (get m k)) = bare ` ran (get m)"
  by (auto simp: ran_def)

lemma store_okD:
  "store_ok s \<Longrightarrow> gmap_ok (components s)" "store_ok s \<Longrightarrow> gmap_ok (sboms s)"
  "store_ok s \<Longrightarrow> gmap_ok (iocs s)" "store_ok s \<Longrightarrow> gmap_ok (incidents s)"
  "store_ok s \<Longrightarrow> gmap_ok (anomalies s)" "store_ok s \<Longrightarrow> gmap_ok (publisherHistory s)"
  by (simp_all add: store_ok_def tables_ok_def)

lemma with_err_None [simp]: "c_err c = None \<Longrightarrow> with_err c x = Inr x"
  by (simp add: with_err_def)

lemma mem_AppendRemediation_abs: "mem_abs (snd (mem_AppendRemediation c k r s)) = mem_abs s"
  by (auto simp: mem_AppendRemediation_def mem_abs_def fun_eq_iff split: option.split)

lemma mem_matched_refs:
  assumes "store_ok s" "c_err c = None" "is_order (c_order c)"
  shows "\<exists>xs. mem_MatchedComponentRefsByIoC c k s = Inr xs \<and> sorted xs \<and> distinct xs \<and>
    set xs = (\<Union>i \<in> {i \<in> ran (db_incidents (mem_abs s)). inc_IoCID i = k}.
      set (inc_AffectedComponentsSnapshot i))"
proof -
  let ?u = "uniq [] (concat (map inc_AffectedComponentsSnapshot
         (filter (\<lambda>i. inc_IoCID i = k) (values_in (c_order c) (incidents s)))))"
  have "db_incidents (mem_abs s) = (\<lambda>k. map_option bare (get (incidents s) k))"
    by (simp add: mem_abs_def)
  moreover have "sorted (sort_slice (\<lambda>a b. a < b) ?u)"
    using by_string.sorted_slice [of ?u] by simp
  moreover have "distinct (sort_slice (\<lambda>a b. a < b) ?u)"
    using distinct_sort_slice [where f = "\<lambda>x. x" and lt = "\<lambda>a b. a < b" and xs = ?u] by simp
  ultimately show ?thesis
    using assms by (auto simp: mem_MatchedComponentRefsByIoC_def values_ran store_okD ran_bare)
qed

lemma mem_list_packages:
  assumes "store_ok s" "c_err c = None" "is_order (c_order c)"
  shows "\<exists>xs. mem_ListSBOMPackages c eco name s = Inr xs \<and>
    set xs = {\<lparr>spr_ComponentRef = sbom_ComponentRef b, spr_Package = p\<rparr> | b p.
      b \<in> ran (get (sboms s)) \<and> sbom_Ecosystem b = eco \<and> p \<in> set (sbom_Packages b) \<and>
      pv_Name p = name}"
  using assms
  by (auto simp: mem_ListSBOMPackages_def values_ran store_okD sbom_rows_def split: if_splits)

interpretation mem: storage_contract memory store_ok mem_abs "\<lambda>t. t"
proof (unfold_locales, goal_cases)
  case 1 then show ?case
    by (fastforce simp: keyed_def store_ok_def keys_ok_def)
next
  case 3 then show ?case
    using store_ok_UpsertComponent by (simp add: mem_upsert_defs mem_abs_def get_put_fun)
next
  case 5 then show ?case
    using store_ok_UpsertSBOM by (simp add: mem_upsert_defs mem_abs_def get_put_fun)
next
  case 7 then show ?case
    using store_ok_UpsertIoC by (simp add: mem_upsert_defs mem_abs_def get_put_fun)
next
  case 9 then show ?case
    using store_ok_UpsertIncident
    by (auto simp: mem_upsert_defs mem_abs_def get_put_fun fun_eq_iff)
next
  case 10 then show ?case
    by (simp add: mem_AppendRemediation_def split: option.split)
next
  case 11 then show ?case
    by (simp add: store_ok_AppendRemediation mem_AppendRemediation_abs)
next
  case (17 s c eco name) then show ?case
    using mem_list_packages [of s c] by simp
next
  case (20 s c k) then show ?case
    using mem_matched_refs [of s c k] by auto
qed (auto simp: mem_upsert_defs mem_GetComponent_def mem_GetIoC_def mem_GetIncident_def lookup_def
      mem_ListComponents_def mem_ListSBOMsByComponent_def mem_ListIoCs_def mem_ListIncidents_def
      mem_abs_def values_ran ran_bare store_okD split: option.split)

section \<open>Properties\<close>

text \<open>The states the backend can be in: any sequence of mutating calls on a new store.\<close>

inductive mem_reachable :: "store \<Rightarrow> bool" where
  new: "mem_reachable mem_New"
| component: "mem_reachable s \<Longrightarrow> mem_reachable (snd (mem_UpsertComponent c x s))"
| sbom: "mem_reachable s \<Longrightarrow> mem_reachable (snd (mem_UpsertSBOM c b s))"
| ioc: "mem_reachable s \<Longrightarrow> mem_reachable (snd (mem_UpsertIoC c i s))"
| incident: "mem_reachable s \<Longrightarrow> mem_reachable (snd (mem_UpsertIncident c n s))"
| remediation: "mem_reachable s \<Longrightarrow> mem_reachable (snd (mem_AppendRemediation c k r s))"
| publisher: "mem_reachable s \<Longrightarrow> mem_reachable (snd (mem_UpsertPublisher c p s))"
| profile: "mem_reachable s \<Longrightarrow> mem_reachable (snd (mem_UpsertPublisherProfile c q s))"
| snapshot: "mem_reachable s \<Longrightarrow> mem_reachable (snd (mem_SavePublisherSnapshot c x s))"
| anomaly: "mem_reachable s \<Longrightarrow> mem_reachable (snd (mem_SaveAnomaly c a s))"

lemma reachable_ok: "mem_reachable s \<Longrightarrow> store_ok s"
  by (induction rule: mem_reachable.induct) (simp_all add: store_ok_ops)

lemma dedup_row:
  "dedup_ok s \<Longrightarrow> get (anomalies s) k = Some a \<Longrightarrow> anom_ID a = k \<and> 0 < k \<and>
     get (anomalyDedup s) (anom_Kind a, anom_PackageRef a, anom_DetectedAt a) = Some k"
  by (simp add: dedup_ok_def)

text \<open>
  Anomalies are stored once per kind, package and detection time: in every store the backend can
  reach, two stored anomalies with the same kind, package and time are the same row, the row is
  filed under its own positive ID, and saving the anomaly again returns that ID and changes nothing.
\<close>

theorem anomaly_stored_once:
  assumes "mem_reachable s" and "get (anomalies s) k = Some a"
  shows "anom_ID a = k \<and> 0 < k \<and>
    (\<forall>k' a'. get (anomalies s) k' = Some a' \<and> anom_Kind a' = anom_Kind a \<and>
      anom_PackageRef a' = anom_PackageRef a \<and> anom_DetectedAt a' = anom_DetectedAt a \<longrightarrow> k' = k) \<and>
    (\<not> IsZero (anom_DetectedAt a) \<longrightarrow> mem_SaveAnomaly c a s = (with_err c k, s))"
proof -
  have d: "dedup_ok s" using reachable_ok [OF assms(1)] by (simp add: store_ok_def)
  note row = dedup_row [OF d assms(2)]
  have "k' = k" if "get (anomalies s) k' = Some a'" "anom_Kind a' = anom_Kind a"
      "anom_PackageRef a' = anom_PackageRef a" "anom_DetectedAt a' = anom_DetectedAt a" for k' a'
    using dedup_row [OF d that(1)] row that(2-4) by simp
  moreover have "\<not> IsZero (anom_DetectedAt a) \<Longrightarrow> mem_SaveAnomaly c a s = (with_err c k, s)"
    using row by (simp add: mem_SaveAnomaly_def)
  ultimately show ?thesis using row by blast
qed

definition sample_anomaly :: anomaly where
  "sample_anomaly = \<lparr>anom_ID = 0, anom_Kind = AnomalyKindVersionJump, anom_PackageRef = ''npm:axios'',
     anom_DetectedAt = 5, anom_Confidence = ConfidenceHigh, anom_Explanation = [], anom_Evidence = []\<rparr>"

definition plain_call :: call where
  "plain_call = \<lparr>c_err = None, c_order = (\<lambda>n. [0..<n]), c_now = 7\<rparr>"

lemma plain_call_simps [simp]:
  "c_err plain_call = None" "c_now plain_call = 7" "is_order (c_order plain_call)"
  by (simp_all add: plain_call_def is_order_upt)

theorem anomaly_stored_once_witness:
  "let s = snd (mem_SaveAnomaly plain_call sample_anomaly mem_New) in
   mem_SaveAnomaly plain_call (sample_anomaly\<lparr>anom_ID := 1\<rparr>) s = (Inr 1, s)"
proof -
  let ?s = "snd (mem_SaveAnomaly plain_call sample_anomaly mem_New)"
  have "mem_reachable ?s" by (intro mem_reachable.intros)
  moreover have "get (anomalies ?s) 1 = Some (sample_anomaly\<lparr>anom_ID := 1\<rparr>)"
    by (simp add: mem_SaveAnomaly_def mem_New_def sample_anomaly_def IsZero_def zeroTime_def)
  moreover have "\<not> IsZero (anom_DetectedAt (sample_anomaly\<lparr>anom_ID := 1\<rparr>))"
    by (simp add: sample_anomaly_def IsZero_def zeroTime_def)
  ultimately show ?thesis
    using anomaly_stored_once [of ?s 1 "sample_anomaly\<lparr>anom_ID := 1\<rparr>" plain_call] by simp
qed

definition passes :: "store \<Rightarrow> incident_filter \<Rightarrow> incident \<Rightarrow> bool" where
  "passes s f i \<longleftrightarrow>
     (if_States f = [] \<or> inc_State i \<in> set (if_States f)) \<and>
     (\<forall>t. if_From f = Some t \<longrightarrow> t \<le> inc_OpenedAt i) \<and>
     (\<forall>t. if_To f = Some t \<longrightarrow> inc_OpenedAt i \<le> t) \<and>
     (if_Ecosystems f = [] \<or> (\<exists>x. get (iocs s) (inc_IoCID i) = Some x \<and> ioc_Ecosystem x \<noteq> [] \<and>
        ioc_Ecosystem x \<in> set (if_Ecosystems f))) \<and>
     (if_Search f = [] \<or> (\<exists>text \<in> {inc_ID i, inc_IoCID i} \<union> set (inc_AffectedComponentsSnapshot i).
        Contains (ToLower text) (ToLower (if_Search f)))) \<and>
     (if_Owner f = [] \<or> (\<exists>ref \<in> set (inc_AffectedComponentsSnapshot i). \<exists>x.
        get (components s) ref = Some x \<and> comp_Owner x = if_Owner f))"

lemma passes_code:
  "passes s f i \<longleftrightarrow> matchesIndexedFilter i f \<and> matchesEcosystemFilter i f (iocs s) \<and>
     matchesSearchFilter i f \<and> matchesOwnerFilter i f (components s)"
proof -
  have 1: "matchesIndexedFilter i f \<longleftrightarrow> (if_States f = [] \<or> inc_State i \<in> set (if_States f)) \<and>
     (\<forall>t. if_From f = Some t \<longrightarrow> t \<le> inc_OpenedAt i) \<and>
     (\<forall>t. if_To f = Some t \<longrightarrow> inc_OpenedAt i \<le> t)"
    by (auto simp: matchesIndexedFilter_def split: option.split)
  have 2: "matchesEcosystemFilter i f (iocs s) \<longleftrightarrow> if_Ecosystems f = [] \<or>
     (\<exists>x. get (iocs s) (inc_IoCID i) = Some x \<and> ioc_Ecosystem x \<noteq> [] \<and>
        ioc_Ecosystem x \<in> set (if_Ecosystems f))"
    by (auto simp: matchesEcosystemFilter_def list_ex_iff split: option.split)
  have 3: "matchesSearchFilter i f \<longleftrightarrow> if_Search f = [] \<or>
     (\<exists>text \<in> {inc_ID i, inc_IoCID i} \<union> set (inc_AffectedComponentsSnapshot i).
        Contains (ToLower text) (ToLower (if_Search f)))"
    by (auto simp: matchesSearchFilter_def list_ex_iff Let_def)
  have 4: "matchesOwnerFilter i f (components s) \<longleftrightarrow> if_Owner f = [] \<or>
     (\<exists>ref \<in> set (inc_AffectedComponentsSnapshot i). \<exists>x.
        get (components s) ref = Some x \<and> comp_Owner x = if_Owner f)"
    by (auto simp: matchesOwnerFilter_def list_ex_iff split: option.splits) (force+)?
  show ?thesis by (simp add: passes_def 1 2 3 4)
qed

lemma sorted_key_cut:
  "sorted (map f xs) \<Longrightarrow> x \<in> set (take n xs) \<Longrightarrow> y \<in> set (drop n xs) \<Longrightarrow> f x \<le> (f y :: 'b :: linorder)"
  using sorted_append [of "map f (take n xs)" "map f (drop n xs)"]
  by (simp flip: map_append)

lemma mem_list_filtered:
  assumes "store_ok s" and "c_err c = None" and "is_order (c_order c)"
  obtains xs where "mem_ListIncidentsFiltered c f s = Inr (cap (if_Limit f) xs)"
    and "sorted (map (\<lambda>i. - inc_OpenedAt i) xs)"
    and "set xs = {i \<in> ran (get (incidents s)). passes s f i}"
proof
  let ?xs = "sort_slice (\<lambda>a b. inc_OpenedAt a > inc_OpenedAt b)
    (filter (\<lambda>i. matchesEcosystemFilter i f (iocs s) \<and> matchesSearchFilter i f \<and>
        matchesOwnerFilter i f (components s))
      (filter (\<lambda>i. matchesIndexedFilter i f) (values_in (c_order c) (incidents s))))"
  show "mem_ListIncidentsFiltered c f s = Inr (cap (if_Limit f) ?xs)"
    using assms by (simp add: mem_ListIncidentsFiltered_def)
  show "sorted (map (\<lambda>i. - inc_OpenedAt i) ?xs)"
    by (rule by_opened_desc.sorted_slice)
  show "set ?xs = {i \<in> ran (get (incidents s)). passes s f i}"
    using assms by (auto simp: values_ran store_okD passes_code)
qed

text \<open>
  An incident query returns exactly the incidents that pass every given filter, newest first; a
  limit cuts that list from the old end, so that no incident left out is newer than one returned.
\<close>

theorem incident_query_exact:
  assumes "mem_reachable s" and "c_err c = None" and "is_order (c_order c)"
  shows "\<exists>xs. mem_ListIncidentsFiltered c f s = Inr xs \<and>
    sorted_wrt (\<lambda>i j. inc_OpenedAt j \<le> inc_OpenedAt i) xs \<and>
    set xs \<subseteq> {i \<in> ran (get (incidents s)). passes s f i} \<and>
    (if_Limit f \<le> 0 \<longrightarrow> set xs = {i \<in> ran (get (incidents s)). passes s f i}) \<and>
    (0 < if_Limit f \<longrightarrow> int (length xs) \<le> if_Limit f) \<and>
    (\<forall>j \<in> ran (get (incidents s)). passes s f j \<longrightarrow> j \<in> set xs \<or>
       int (length xs) = if_Limit f \<and> (\<forall>i \<in> set xs. inc_OpenedAt j \<le> inc_OpenedAt i))"
proof -
  obtain ys where r: "mem_ListIncidentsFiltered c f s = Inr (cap (if_Limit f) ys)"
    and srt: "sorted (map (\<lambda>i. - inc_OpenedAt i) ys)"
    and st: "set ys = {i \<in> ran (get (incidents s)). passes s f i}"
    using mem_list_filtered [OF reachable_ok [OF assms(1)] assms(2,3)] by blast
  have "sorted_wrt (\<lambda>i j. inc_OpenedAt j \<le> inc_OpenedAt i) (cap (if_Limit f) ys)"
    using srt by (simp add: sorted_map sorted_cap)
  moreover have "j \<in> set (cap (if_Limit f) ys) \<or> int (length (cap (if_Limit f) ys)) = if_Limit f \<and>
      (\<forall>i \<in> set (cap (if_Limit f) ys). inc_OpenedAt j \<le> inc_OpenedAt i)" if "j \<in> set ys" for j
    using that sorted_key_cut [OF srt, of _ "nat (if_Limit f)" j]
    by (auto simp: cap_def simp flip: set_append [of "take _ ys" "drop _ ys"])
      (metis Un_iff append_take_drop_id set_append)+
  ultimately show ?thesis
    using r st set_cap [of "if_Limit f" ys] length_cap [of "if_Limit f" ys]
    by (intro exI [of _ "cap (if_Limit f) ys"]) (auto simp: cap_def)
qed

definition sample_incident :: "string \<Rightarrow> time \<Rightarrow> incident" where
  "sample_incident k t = \<lparr>inc_ID = k, inc_IoCID = ''ioc'', inc_State = StatePending, inc_OpenedAt = t,
     inc_LastTransitionedAt = t, inc_AffectedComponentsSnapshot = [''kind:Component/default/web''],
     inc_Remediations = []\<rparr>"

definition no_filter :: incident_filter where
  "no_filter = \<lparr>if_States = [], if_Ecosystems = [], if_From = None, if_To = None, if_Search = [],
     if_Owner = [], if_Limit = 0\<rparr>"

theorem incident_query_exact_witness:
  "let s = snd (mem_UpsertIncident plain_call (sample_incident ''b'' 2)
        (snd (mem_UpsertIncident plain_call (sample_incident ''a'' 1) mem_New))) in
   mem_ListIncidentsFiltered plain_call (no_filter\<lparr>if_Limit := 1\<rparr>) s = Inr [sample_incident ''b'' 2] \<and>
   (\<exists>xs. Inr [sample_incident ''b'' 2] = (Inr xs :: incident list result) \<and> int (length xs) \<le> 1)"
proof -
  let ?s = "snd (mem_UpsertIncident plain_call (sample_incident ''b'' 2)
        (snd (mem_UpsertIncident plain_call (sample_incident ''a'' 1) mem_New)))"
  have r: "mem_reachable ?s" by (intro mem_reachable.intros)
  have e: "mem_ListIncidentsFiltered plain_call (no_filter\<lparr>if_Limit := 1\<rparr>) ?s =
      Inr [sample_incident ''b'' 2]"
    by (simp add: mem_ListIncidentsFiltered_def mem_upsert_defs mem_New_def put_def plain_call_def
        sample_incident_def no_filter_def matchesIndexedFilter_def matchesEcosystemFilter_def
        matchesSearchFilter_def matchesOwnerFilter_def values_in_def sort_slice_def cap_def with_err_def)
  show ?thesis
    using incident_query_exact [OF r, of plain_call "no_filter\<lparr>if_Limit := 1\<rparr>"] e
    by (auto simp: no_filter_def)
qed

lemma distinct_refs: "store_ok s \<Longrightarrow> distinct (map comp_Ref (map snd (components s)))"
proof -
  assume ok: "store_ok s"
  have "comp_Ref (snd e) = fst e" if "e \<in> set (components s)" for e
    using ok that store_okD(1) [OF ok] get_in_set [of "components s" "fst e" "snd e"]
    by (simp add: store_ok_def keys_ok_def)
  then have e: "map comp_Ref (map snd (components s)) = map fst (components s)" by simp
  show ?thesis unfolding e using store_okD(1) [OF ok] by (simp add: gmap_ok_def)
qed

text \<open>
  The component list and the blast radius of an IoC do not depend on the order in which the
  runtime walks the map: any two calls on the same store give the same list.
\<close>

theorem listings_deterministic:
  assumes "mem_reachable s" and "c_err c = None" "is_order (c_order c)"
    and "c_err c' = None" "is_order (c_order c')"
  shows "mem_ListComponents c s = mem_ListComponents c' s \<and>
    mem_MatchedComponentRefsByIoC c k s = mem_MatchedComponentRefsByIoC c' k s"
proof
  note ok = reachable_ok [OF assms(1)]
  have "sort_slice (\<lambda>a b. comp_Ref a < comp_Ref b) (values_in (c_order c) (components s)) =
        sort_slice (\<lambda>a b. comp_Ref a < comp_Ref b) (map snd (components s))"
    if "is_order (c_order c)" for c :: call
    using that distinct_refs [OF ok] by_ref.sorted_slice
    by (intro by_ref.slice_unique) (simp_all add: mset_values_in)
  then show "mem_ListComponents c s = mem_ListComponents c' s"
    using assms by (simp add: mem_ListComponents_def)
  obtain xs where "mem_MatchedComponentRefsByIoC c k s = Inr xs" "sorted xs" "distinct xs"
      "set xs = (\<Union>i \<in> {i \<in> ran (db_incidents (mem_abs s)). inc_IoCID i = k}.
        set (inc_AffectedComponentsSnapshot i))"
    using mem_matched_refs [OF ok assms(2,3)] by blast
  moreover obtain ys where "mem_MatchedComponentRefsByIoC c' k s = Inr ys" "sorted ys" "distinct ys"
      "set ys = (\<Union>i \<in> {i \<in> ran (db_incidents (mem_abs s)). inc_IoCID i = k}.
        set (inc_AffectedComponentsSnapshot i))"
    using mem_matched_refs [OF ok assms(4,5)] by blast
  ultimately show "mem_MatchedComponentRefsByIoC c k s = mem_MatchedComponentRefsByIoC c' k s"
    using sorted_distinct_set_unique by metis
qed

definition reverse_call :: call where
  "reverse_call = plain_call\<lparr>c_order := (\<lambda>n. rev [0..<n])\<rparr>"

theorem listings_deterministic_witness:
  "let s = snd (mem_UpsertIncident plain_call (sample_incident ''b'' 2)
        (snd (mem_UpsertIncident plain_call (sample_incident ''a'' 1) mem_New))) in
   mem_ListComponents plain_call s = mem_ListComponents reverse_call s \<and>
   mem_MatchedComponentRefsByIoC plain_call ''ioc'' s =
     mem_MatchedComponentRefsByIoC reverse_call ''ioc'' s"
  unfolding Let_def
  by (rule listings_deterministic)
    (auto intro: mem_reachable.intros simp: reverse_call_def is_order_rev)

lemma latest_of_max: "latest_of t xs = Max (insert t (snap_SnapshotAt ` set xs))"
proof (induction xs arbitrary: t)
  case (Cons x xs)
  have "Max (insert (if snap_SnapshotAt x > t then snap_SnapshotAt x else t) (snap_SnapshotAt ` set xs)) =
        Max (insert t (insert (snap_SnapshotAt x) (snap_SnapshotAt ` set xs)))"
    by (cases "xs = []") (auto simp: max_def)
  with Cons show ?case by simp
qed simp

lemma take_limit_none: "limit \<le> 0 \<Longrightarrow> take_limit limit n xs = xs"
  by (induction xs arbitrary: n) simp_all

lemma take_limit_take: "int n < limit \<Longrightarrow> take_limit limit n xs = take (nat limit - n) xs"
proof (induction xs arbitrary: n)
  case (Cons x xs)
  then obtain m where m: "nat limit - n = Suc m" by (metis Suc_diff_Suc zless_nat_eq_int_zless)
  show ?case
  proof (cases "int (Suc n) < limit")
    case True
    moreover have "nat limit - Suc n = m" using m by simp
    ultimately show ?thesis using Cons.IH [of "Suc n"] m by simp
  next
    case False
    then have l: "limit = int (Suc n)" using Cons.prems by simp
    then have "nat limit - n = 1" by linarith
    then show ?thesis using l by simp
  qed
qed simp

lemma take_limit_cap: "take_limit limit 0 xs = cap limit xs"
  by (cases "limit \<le> 0") (simp_all add: take_limit_none take_limit_take cap_def)

definition newest :: "publisher_snapshot list \<Rightarrow> time" where
  "newest h = Max (snap_SnapshotAt ` set h)"

lemma stale_candidate_newest:
  "snd e \<noteq> [] \<Longrightarrow>
   stale_candidate t e = (if newest (snd e) < t then [(fst e, newest (snd e))] else [])"
  by (auto simp: stale_candidate_def newest_def latest_of_max Let_def split: list.split)

lemma stale_concat:
  "(\<And>e. e \<in> set es \<Longrightarrow> snd e \<noteq> []) \<Longrightarrow>
   concat (map (stale_candidate t) es) =
     map (\<lambda>e. (fst e, newest (snd e))) (filter (\<lambda>e. newest (snd e) < t) es)"
  by (induction es) (simp_all add: stale_candidate_newest)

lemma history_row:
  "store_ok s \<Longrightarrow> (ref, h) \<in> set (publisherHistory s) \<Longrightarrow> h \<noteq> [] \<and>
     get (publisherHistory s) ref = Some h"
  using get_in_set [of "publisherHistory s" ref h] store_okD(6) [of s]
  by (simp add: store_ok_def history_ok_def)

text \<open>
  The refresh query of the publisher scheduler lists the packages whose newest snapshot is older
  than the cut-off, each once, stalest first; a limit keeps the stalest ones.
\<close>

theorem stale_packages_exact:
  assumes "mem_reachable s" and "c_err c = None" and "is_order (c_order c)"
  shows "\<exists>xs. mem_ListPackagesNeedingRefresh c olderThan limit s = Inr (cap limit xs) \<and>
    distinct xs \<and>
    set xs = {ref. \<exists>h. get (publisherHistory s) ref = Some h \<and> newest h < olderThan} \<and>
    sorted_wrt (\<lambda>r r'. newest (the (get (publisherHistory s) r)) \<le>
      newest (the (get (publisherHistory s) r'))) xs"
proof -
  note ok = reachable_ok [OF assms(1)]
  define es where "es = filter (\<lambda>e. newest (snd e) < olderThan) (in_order (c_order c) (publisherHistory s))"
  define cs where "cs = map (\<lambda>e. (fst e, newest (snd e))) es"
  define ys where "ys = sort_slice (\<lambda>a b. snd a < snd b) cs"
  have row: "get (publisherHistory s) (fst e) = Some (snd e)" "snd e \<noteq> []"
    if "e \<in> set (publisherHistory s)" for e
    using history_row [OF ok, of "fst e" "snd e"] that by simp_all
  have key: "snd y = newest (the (get (publisherHistory s) (fst y)))" if "y \<in> set ys" for y
    using that row assms(3) by (auto simp: ys_def cs_def es_def)
  have "concat (map (stale_candidate olderThan) (in_order (c_order c) (publisherHistory s))) = cs"
    unfolding cs_def es_def using row assms(3) by (intro stale_concat) auto
  then have r: "mem_ListPackagesNeedingRefresh c olderThan limit s = Inr (cap limit (map fst ys))"
    using assms by (simp add: mem_ListPackagesNeedingRefresh_def take_limit_cap ys_def Let_def)
  have "distinct (map fst cs)"
    using store_okD(6) [OF ok] assms(3) distinct_in_order [of "c_order c" fst "publisherHistory s"]
    by (simp add: cs_def es_def comp_def gmap_ok_def distinct_map_filter)
  then have d: "distinct (map fst ys)" by (simp add: ys_def distinct_sort_slice)
  have "sorted (map snd ys)" unfolding ys_def by (rule by_latest.sorted_slice)
  then have "sorted_wrt (\<lambda>a b. newest (the (get (publisherHistory s) (fst a))) \<le>
      newest (the (get (publisherHistory s) (fst b)))) ys"
    unfolding sorted_map by (rule sorted_wrt_mono_rel [rotated]) (simp add: key)
  moreover have "set (map fst ys) = {ref. \<exists>h. get (publisherHistory s) ref = Some h \<and> newest h < olderThan}"
    using row assms(3) by (force simp: ys_def cs_def es_def dest: get_SomeD)
  ultimately show ?thesis using r d by (auto simp: sorted_wrt_map)
qed

definition sample_snapshot :: publisher_snapshot where
  "sample_snapshot = \<lparr>snap_ID = 0, snap_PackageRef = ''npm:axios'', snap_SnapshotAt = 3,
     snap_Maintainers = [], snap_LatestVersion = ''1.0.0'', snap_LatestVersionPublishedAt = None,
     snap_PublishMethod = ''token'', snap_SourceRepoURL = None, snap_RawData = []\<rparr>"

theorem stale_packages_exact_witness:
  "let s = snd (mem_SavePublisherSnapshot plain_call sample_snapshot mem_New) in
   \<exists>xs. mem_ListPackagesNeedingRefresh plain_call 10 5 s = Inr (cap 5 xs) \<and>
     set xs = {''npm:axios''}"
proof -
  let ?s = "snd (mem_SavePublisherSnapshot plain_call sample_snapshot mem_New)"
  have "mem_reachable ?s" by (intro mem_reachable.intros)
  note p = stale_packages_exact [OF this, of plain_call 10 5]
  have "{ref. \<exists>h. get (publisherHistory ?s) ref = Some h \<and> newest h < 10} = {''npm:axios''}"
    by (auto simp: mem_SavePublisherSnapshot_def mem_New_def sample_snapshot_def newest_def IsZero_def
        zeroTime_def Let_def)
  with p show ?thesis by auto
qed

text \<open>
  A publisher history is append-only and read newest first: after a snapshot is saved, the
  history of its package is the previous one plus the snapshot, with the next snapshot ID and the
  clock's time if it had none, and no other package's history changes.
\<close>

theorem snapshot_appended:
  assumes "mem_reachable s" and "c_err c = None"
    and "mem_SavePublisherSnapshot c x s = (None, s')"
    and "mem_GetPublisherHistory c (snap_PackageRef x) 0 s = Inr old"
  shows "\<exists>new. mem_GetPublisherHistory c (snap_PackageRef x) 0 s' = Inr new \<and>
    mset new = add_mset (x\<lparr>snap_ID := nextSnapshotID s + 1, snap_SnapshotAt :=
      (if IsZero (snap_SnapshotAt x) then c_now c else snap_SnapshotAt x)\<rparr>) (mset old) \<and>
    sorted_wrt (\<lambda>a b. snap_SnapshotAt b \<le> snap_SnapshotAt a) new \<and> distinct (map snap_ID new) \<and>
    (\<forall>ref. ref \<noteq> snap_PackageRef x \<longrightarrow>
       mem_GetPublisherHistory c ref 0 s' = mem_GetPublisherHistory c ref 0 s)"
proof -
  have s': "s' = snd (mem_SavePublisherSnapshot c x s)" using assms(3) by simp
  have "mem_reachable s'" unfolding s' by (rule mem_reachable.snapshot [OF assms(1)])
  then have hist: "history_ok s'" using reachable_ok by (simp add: store_ok_def)
  obtain h where h: "get (publisherHistory s') (snap_PackageRef x) = Some h"
    by (simp add: s' mem_SavePublisherSnapshot_def Let_def)
  let ?new = "sort_slice (\<lambda>a b. snap_SnapshotAt a > snap_SnapshotAt b) h"
  have "sorted_wrt (<) (map snap_ID h)" using hist h by (simp add: history_ok_def)
  then have "distinct (map snap_ID h)" by (simp add: strict_sorted_iff)
  then have "distinct (map snap_ID ?new)" by (simp add: distinct_sort_slice)
  moreover have "sorted_wrt (\<lambda>a b. snap_SnapshotAt b \<le> snap_SnapshotAt a) ?new"
    using by_snapshot_desc.sorted_slice [of h] by (simp add: sorted_map)
  ultimately show ?thesis
    using assms(2-4) h unfolding s'
    by (intro exI [of _ ?new])
      (auto simp: mem_GetPublisherHistory_def mem_SavePublisherSnapshot_def Let_def
        split: option.splits)
qed

theorem snapshot_appended_witness:
  "\<exists>new. mem_GetPublisherHistory plain_call ''npm:axios'' 0
      (snd (mem_SavePublisherSnapshot plain_call sample_snapshot mem_New)) = Inr new \<and>
    mset new = {#sample_snapshot\<lparr>snap_ID := 1\<rparr>#}"
proof -
  have "mem_SavePublisherSnapshot plain_call sample_snapshot mem_New =
      (None, snd (mem_SavePublisherSnapshot plain_call sample_snapshot mem_New))"
    by (simp add: mem_SavePublisherSnapshot_def Let_def)
  from snapshot_appended [OF mem_reachable.new _ this, of "[]"] show ?thesis
    by (auto simp: mem_GetPublisherHistory_def mem_New_def sample_snapshot_def IsZero_def zeroTime_def)
qed

end
