(* ===== verification/EventBus.thy ===== *)
theory EventBus
  imports Domain "HOL-Library.Sublist"
begin

text \<open>
  \<^verbatim>\<open>engine/internal/events\<close>: the process-local bus that fans domain events out to subscribers.

  A subscriber keeps its channel after the bus has dropped it, so the channels live in a store of their
  own, keyed by subscription ID, and the bus holds the IDs of the live subscriptions. Sending on a closed channel and
  closing a channel twice panic in Go; here they set \<open>panicked\<close>, and the properties show that no run
  of the bus does. The mutex makes each operation one step; any interleaving of subscribers,
  publishers and receivers is a sequence of such steps.
\<close>

section \<open>State and operations\<close>

record channel =
  ch_buf :: "event list"
  ch_closed :: bool

record bus =
  subs :: "nat list"
  nextID :: nat
  bufferSize :: int
  chans :: "(nat, channel) gomap"
  panicked :: bool

definition NewBus :: "int \<Rightarrow> bus" where
  "NewBus n = \<lparr>subs = [], nextID = 0, bufferSize = (if n < 1 then 256 else n), chans = [],
     panicked = False\<rparr>"

definition Subscribe :: "bus \<Rightarrow> nat \<times> bus" where
  "Subscribe b =
     (let k = nextID b in
      (k, b\<lparr>nextID := k + 1, chans := put k \<lparr>ch_buf = [], ch_closed = False\<rparr> (chans b),
            subs := subs b @ [k]\<rparr>))"

definition close_chan :: "nat \<Rightarrow> bus \<Rightarrow> bus" where
  "close_chan k b =
     (case get (chans b) k of
        None \<Rightarrow> b\<lparr>panicked := True\<rparr>
      | Some ch \<Rightarrow>
          if ch_closed ch then b\<lparr>panicked := True\<rparr>
          else b\<lparr>chans := put k (ch\<lparr>ch_closed := True\<rparr>) (chans b)\<rparr>)"

text \<open>
  The cancel function of a subscription, called by its owner or when the owner's context is done.
  \<^verbatim>\<open>sync.Once\<close> makes later calls do nothing, which the test for the ID does as well.
\<close>

definition cancel :: "nat \<Rightarrow> bus \<Rightarrow> bus" where
  "cancel k b = (if k \<in> set (subs b) then close_chan k (b\<lparr>subs := removeAll k (subs b)\<rparr>) else b)"

definition deliver :: "event \<Rightarrow> bus \<Rightarrow> nat \<Rightarrow> bus" where
  "deliver e b k =
     (if panicked b then b
      else case get (chans b) k of
        None \<Rightarrow> b\<lparr>panicked := True\<rparr>
      | Some ch \<Rightarrow>
          if ch_closed ch then b\<lparr>panicked := True\<rparr>
          else if int (length (ch_buf ch)) < bufferSize b
            then b\<lparr>chans := put k (ch\<lparr>ch_buf := ch_buf ch @ [e]\<rparr>) (chans b)\<rparr>
          else close_chan k (b\<lparr>subs := removeAll k (subs b)\<rparr>))"

definition Publish :: "order \<Rightarrow> event \<Rightarrow> bus \<Rightarrow> bus" where
  "Publish \<rho> e b = foldl (deliver e) b (in_order \<rho> (subs b))"

definition SubscriberCount :: "bus \<Rightarrow> nat" where
  "SubscriberCount b = length (subs b)"

text \<open>A receive that finds an event in the channel of subscription \<open>k\<close>.\<close>

definition receive :: "nat \<Rightarrow> bus \<Rightarrow> (event \<times> bus) option" where
  "receive k b =
     (case get (chans b) k of
        None \<Rightarrow> None
      | Some ch \<Rightarrow>
          (case ch_buf ch of
             [] \<Rightarrow> None
           | e # es \<Rightarrow> Some (e, b\<lparr>chans := put k (ch\<lparr>ch_buf := es\<rparr>) (chans b)\<rparr>)))"

section \<open>Invariant\<close>

definition bus_ok :: "bus \<Rightarrow> bool" where
  "bus_ok b \<longleftrightarrow> \<not> panicked b \<and> 1 \<le> bufferSize b \<and> distinct (subs b) \<and>
     (\<forall>k. get (chans b) k = None \<longleftrightarrow> nextID b \<le> k) \<and>
     (\<forall>k ch. get (chans b) k = Some ch \<longrightarrow> int (length (ch_buf ch)) \<le> bufferSize b \<and>
        (ch_closed ch \<longleftrightarrow> k \<notin> set (subs b))) \<and>
     (\<forall>k \<in> set (subs b). k < nextID b)"

lemma bus_ok_chan:
  "bus_ok b \<Longrightarrow> k \<in> set (subs b) \<Longrightarrow> \<exists>ch. get (chans b) k = Some ch \<and> \<not> ch_closed ch"
  unfolding bus_ok_def by (metis leD option.exhaust)

lemma bus_ok_row:
  "bus_ok b \<Longrightarrow> get (chans b) k = Some ch \<Longrightarrow> int (length (ch_buf ch)) \<le> bufferSize b \<and>
     (ch_closed ch \<longleftrightarrow> k \<notin> set (subs b)) \<and> k < nextID b"
  unfolding bus_ok_def by (metis not_le option.distinct(1))

lemma bus_ok_no_row: "bus_ok b \<Longrightarrow> get (chans b) k = None \<Longrightarrow> nextID b \<le> k \<and> k \<notin> set (subs b)"
  unfolding bus_ok_def by (metis not_le)

lemma bus_ok_NewBus: "bus_ok (NewBus n)"
  by (simp add: bus_ok_def NewBus_def)

lemma bus_ok_Subscribe: "bus_ok b \<Longrightarrow> bus_ok (snd (Subscribe b))"
  by (auto simp: bus_ok_def Subscribe_def Let_def)

lemma cancel_ok:
  assumes "bus_ok b"
  shows "bus_ok (cancel k b)"
proof (cases "k \<in> set (subs b)")
  case True
  with assms obtain ch where "get (chans b) k = Some ch" "\<not> ch_closed ch"
    using bus_ok_chan by blast
  then show ?thesis
    using assms True by (fastforce simp: bus_ok_def cancel_def close_chan_def distinct_removeAll)
qed (simp add: cancel_def assms)

lemma receive_SomeE:
  assumes "receive k b = Some (e, b')"
  obtains ch es where "get (chans b) k = Some ch" "ch_buf ch = e # es"
    "b' = b\<lparr>chans := put k (ch\<lparr>ch_buf := es\<rparr>) (chans b)\<rparr>"
  using assms by (auto simp: receive_def split: option.splits list.splits)

lemma receive_ok:
  assumes "bus_ok b" and "receive k b = Some (e, b')"
  shows "bus_ok b'"
  using assms(2)
proof (rule receive_SomeE)
  fix ch es
  assume *: "get (chans b) k = Some ch" "ch_buf ch = e # es"
    "b' = b\<lparr>chans := put k (ch\<lparr>ch_buf := es\<rparr>) (chans b)\<rparr>"
  then have "int (length es) \<le> bufferSize b" "ch_closed ch \<longleftrightarrow> k \<notin> set (subs b)" "\<not> nextID b \<le> k"
    using assms(1) bus_ok_row [OF assms(1) *(1)] by simp_all
  then show ?thesis using assms(1) by (simp add: *(3) bus_ok_def)
qed

text \<open>What one offer does to the channel of a live subscription.\<close>

definition offer :: "int \<Rightarrow> event \<Rightarrow> channel \<Rightarrow> channel" where
  "offer n e ch =
     (if int (length (ch_buf ch)) < n then ch\<lparr>ch_buf := ch_buf ch @ [e]\<rparr> else ch\<lparr>ch_closed := True\<rparr>)"

definition roomy :: "bus \<Rightarrow> nat \<Rightarrow> bool" where
  "roomy b k \<longleftrightarrow> (\<exists>ch. get (chans b) k = Some ch \<and> int (length (ch_buf ch)) < bufferSize b)"

lemma deliver_step:
  assumes "bus_ok b" and "k \<in> set (subs b)"
  shows "bus_ok (deliver e b k)"
    and "get (chans (deliver e b k)) k' =
      (if k' = k then map_option (offer (bufferSize b) e) (get (chans b) k') else get (chans b) k')"
    and "subs (deliver e b k) = (if roomy b k then subs b else removeAll k (subs b))"
    and "nextID (deliver e b k) = nextID b" and "bufferSize (deliver e b k) = bufferSize b"
proof -
  obtain ch where ch: "get (chans b) k = Some ch" "\<not> ch_closed ch"
    using bus_ok_chan [OF assms] by blast
  have np: "\<not> panicked b" using assms(1) by (simp add: bus_ok_def)
  show "bus_ok (deliver e b k)"
    using assms ch np by (fastforce simp: bus_ok_def deliver_def close_chan_def distinct_removeAll)
  show "get (chans (deliver e b k)) k' =
      (if k' = k then map_option (offer (bufferSize b) e) (get (chans b) k') else get (chans b) k')"
    using ch np by (simp add: deliver_def close_chan_def offer_def)
  show "subs (deliver e b k) = (if roomy b k then subs b else removeAll k (subs b))"
    using ch np by (simp add: deliver_def close_chan_def roomy_def)
  show "nextID (deliver e b k) = nextID b" "bufferSize (deliver e b k) = bufferSize b"
    using ch np by (simp_all add: deliver_def close_chan_def)
qed

lemma deliver_all:
  assumes "bus_ok b" and "distinct ks" and "set ks \<subseteq> set (subs b)"
  shows "bus_ok (foldl (deliver e) b ks) \<and>
    (\<forall>k. get (chans (foldl (deliver e) b ks)) k =
      (if k \<in> set ks then map_option (offer (bufferSize b) e) (get (chans b) k)
       else get (chans b) k)) \<and>
    set (subs (foldl (deliver e) b ks)) = {k \<in> set (subs b). k \<in> set ks \<longrightarrow> roomy b k} \<and>
    nextID (foldl (deliver e) b ks) = nextID b \<and> bufferSize (foldl (deliver e) b ks) = bufferSize b"
  using assms
proof (induction ks arbitrary: b)
  case (Cons k ks)
  let ?b = "deliver e b k"
  have k: "k \<in> set (subs b)" using Cons.prems by simp
  note st = deliver_step [OF Cons.prems(1) k, of e]
  have "set ks \<subseteq> set (subs ?b)" using Cons.prems by (auto simp: st)
  then have ih: "bus_ok (foldl (deliver e) ?b ks) \<and>
    (\<forall>k. get (chans (foldl (deliver e) ?b ks)) k =
      (if k \<in> set ks then map_option (offer (bufferSize ?b) e) (get (chans ?b) k)
       else get (chans ?b) k)) \<and>
    set (subs (foldl (deliver e) ?b ks)) = {k \<in> set (subs ?b). k \<in> set ks \<longrightarrow> roomy ?b k} \<and>
    nextID (foldl (deliver e) ?b ks) = nextID ?b \<and> bufferSize (foldl (deliver e) ?b ks) = bufferSize ?b"
    using Cons.prems Cons.IH [OF st(1)] by simp
  have "roomy ?b k' = roomy b k'" if "k' \<noteq> k" for k'
    using that by (simp add: roomy_def st)
  then have "roomy ?b k' = roomy b k'" if "k' \<in> set ks" for k'
    using that Cons.prems(2) by (metis distinct.simps(2))
  then have "{k' \<in> set (subs ?b). k' \<in> set ks \<longrightarrow> roomy ?b k'} =
      {k' \<in> set (subs b). k' \<in> set (k # ks) \<longrightarrow> roomy b k'}"
    using Cons.prems by (auto simp: st)
  then show ?case using ih Cons.prems(2) by (simp add: st)
qed simp

lemma Publish_effect:
  assumes "bus_ok b" and "is_order \<rho>"
  shows "bus_ok (Publish \<rho> e b)"
    and "get (chans (Publish \<rho> e b)) k =
      (if k \<in> set (subs b) then map_option (offer (bufferSize b) e) (get (chans b) k)
       else get (chans b) k)"
    and "set (subs (Publish \<rho> e b)) = {k \<in> set (subs b). roomy b k}"
    and "nextID (Publish \<rho> e b) = nextID b" and "bufferSize (Publish \<rho> e b) = bufferSize b"
proof -
  have "distinct (in_order \<rho> (subs b))"
    using assms distinct_in_order [OF assms(2), of "\<lambda>x. x" "subs b"] by (simp add: bus_ok_def)
  from deliver_all [OF assms(1) this, of e] assms(2)
  show "bus_ok (Publish \<rho> e b)"
    and "get (chans (Publish \<rho> e b)) k =
      (if k \<in> set (subs b) then map_option (offer (bufferSize b) e) (get (chans b) k)
       else get (chans b) k)"
    and "set (subs (Publish \<rho> e b)) = {k \<in> set (subs b). roomy b k}"
    and "nextID (Publish \<rho> e b) = nextID b" and "bufferSize (Publish \<rho> e b) = bufferSize b"
    by (auto simp: Publish_def)
qed

section \<open>Runs\<close>

text \<open>
  A run of the bus with its history: for every subscription the events its owner has received and
  the events published since it was made.
\<close>

inductive bus_run :: "bus \<Rightarrow> (nat \<Rightarrow> event list) \<Rightarrow> (nat \<Rightarrow> event list) \<Rightarrow> bool" where
  start: "bus_run (NewBus n) (\<lambda>_. []) (\<lambda>_. [])"
| subscribe: "bus_run b rcv off \<Longrightarrow> bus_run (snd (Subscribe b)) rcv off"
| cancelled: "bus_run b rcv off \<Longrightarrow> bus_run (cancel k b) rcv off"
| publish: "bus_run b rcv off \<Longrightarrow> is_order \<rho> \<Longrightarrow>
    bus_run (Publish \<rho> e b) rcv (\<lambda>k. if k < nextID b then off k @ [e] else off k)"
| received: "bus_run b rcv off \<Longrightarrow> receive k b = Some (e, b') \<Longrightarrow>
    bus_run b' (rcv(k := rcv k @ [e])) off"

lemma run_ok: "bus_run b rcv off \<Longrightarrow> bus_ok b"
  by (induction rule: bus_run.induct)
    (simp_all add: bus_ok_NewBus bus_ok_Subscribe cancel_ok Publish_effect(1) receive_ok)

definition delivered :: "bus \<Rightarrow> (nat \<Rightarrow> event list) \<Rightarrow> (nat \<Rightarrow> event list) \<Rightarrow> nat \<Rightarrow> bool" where
  "delivered b rcv off k \<longleftrightarrow>
     (case get (chans b) k of
        None \<Rightarrow> rcv k = [] \<and> off k = []
      | Some ch \<Rightarrow> prefix (rcv k @ ch_buf ch) (off k) \<and>
          (\<not> ch_closed ch \<longrightarrow> rcv k @ ch_buf ch = off k))"

lemma delivered_cancel: "delivered b rcv off k' \<Longrightarrow> delivered (cancel k b) rcv off k'"
  by (auto simp: delivered_def cancel_def close_chan_def split: option.splits)

lemma delivered_publish:
  assumes "bus_ok b" and "is_order \<rho>" and "delivered b rcv off k"
  shows "delivered (Publish \<rho> e b) rcv (\<lambda>k. if k < nextID b then off k @ [e] else off k) k"
proof (cases "get (chans b) k")
  case None
  then have "\<not> k < nextID b" "k \<notin> set (subs b)" using bus_ok_no_row [OF assms(1) None] by simp_all
  then show ?thesis using assms None by (simp add: delivered_def Publish_effect(2))
next
  case (Some ch)
  then have "k < nextID b" "ch_closed ch = (k \<notin> set (subs b))"
    using bus_ok_row [OF assms(1) Some] by simp_all
  then show ?thesis using assms Some
    by (auto simp: delivered_def Publish_effect(2) offer_def)
qed

lemma delivered_receive:
  "receive k b = Some (e, b') \<Longrightarrow> delivered b rcv off k' \<Longrightarrow>
   delivered b' (rcv(k := rcv k @ [e])) off k'"
  by (erule receive_SomeE) (cases "k' = k", auto simp: delivered_def split: option.splits)

lemma run_delivered: "bus_run b rcv off \<Longrightarrow> delivered b rcv off k"
proof (induction rule: bus_run.induct)
  case (subscribe b rcv off)
  then have "get (chans b) (nextID b) = None" using run_ok by (auto simp: bus_ok_def)
  with subscribe show ?case
    by (auto simp: delivered_def Subscribe_def Let_def split: option.splits)
next
  case (start n)
  show ?case by (simp add: delivered_def NewBus_def)
qed (simp_all add: delivered_cancel delivered_publish delivered_receive run_ok del: fun_upd_apply)

section \<open>Properties\<close>

text \<open>
  C16. The bus never panics and never blocks or reorders: in every run, whatever order the runtime
  walks the subscribers in, no closed channel is sent to or closed again, a subscriber's buffer
  stays within the capacity, and what a subscriber has received followed by what waits in its buffer
  is a prefix of what was published since it subscribed, and all of it while the subscription is
  live.
\<close>

theorem bus_delivery:
  assumes "bus_run b rcv off"
  shows "\<not> panicked b \<and> SubscriberCount b = card {k. \<exists>ch. get (chans b) k = Some ch \<and> \<not> ch_closed ch} \<and>
    (\<forall>k ch. get (chans b) k = Some ch \<longrightarrow>
       int (length (ch_buf ch)) \<le> bufferSize b \<and>
       prefix (rcv k @ ch_buf ch) (off k) \<and>
       (k \<in> set (subs b) \<longrightarrow> \<not> ch_closed ch \<and> rcv k @ ch_buf ch = off k))"
proof -
  note ok = run_ok [OF assms]
  have "{k. \<exists>ch. get (chans b) k = Some ch \<and> \<not> ch_closed ch} = set (subs b)"
    using ok bus_ok_chan [OF ok] by (fastforce simp: bus_ok_def)
  then have "SubscriberCount b = card {k. \<exists>ch. get (chans b) k = Some ch \<and> \<not> ch_closed ch}"
    using ok by (simp add: bus_ok_def SubscriberCount_def distinct_card)
  moreover have "prefix (rcv k @ ch_buf ch) (off k) \<and> (k \<in> set (subs b) \<longrightarrow> rcv k @ ch_buf ch = off k)"
    if "get (chans b) k = Some ch" for k ch
    using run_delivered [OF assms, of k] that ok by (auto simp: delivered_def bus_ok_def)
  ultimately show ?thesis
    using ok unfolding bus_ok_def by blast
qed

theorem bus_delivery_witness:
  "let e = SBOMIngested ''s'' ''c'' 1; f = SBOMIngested ''t'' ''c'' 2;
       b = Publish (\<lambda>n. [0..<n]) f (Publish (\<lambda>n. [0..<n]) e (snd (Subscribe (NewBus 1)))) in
   \<not> panicked b \<and> prefix ([] @ [e]) [e, f]"
proof -
  let ?e = "SBOMIngested ''s'' ''c'' 1" and ?f = "SBOMIngested ''t'' ''c'' 2"
  let ?b = "Publish (\<lambda>n. [0..<n]) ?f (Publish (\<lambda>n. [0..<n]) ?e (snd (Subscribe (NewBus 1))))"
  have c: "get (chans ?b) 0 = Some \<lparr>ch_buf = [?e], ch_closed = True\<rparr>"
    by (simp add: Publish_def Subscribe_def NewBus_def deliver_def close_chan_def)
  let ?start = "snd (Subscribe (NewBus 1))"
  let ?offmid = "\<lambda>k. if k < nextID ?start then [] @ [?e] else []"
  let ?mid = "Publish (\<lambda>n. [0..<n]) ?e ?start"
  let ?offend = "\<lambda>k. if k < nextID ?mid then ?offmid k @ [?f] else ?offmid k"
  have "bus_run ?start (\<lambda>_. []) (\<lambda>_. [])" by (intro bus_run.intros)
  from bus_run.publish [OF this is_order_upt, of ?e] have "bus_run ?mid (\<lambda>_. []) ?offmid" .
  from bus_run.publish [OF this is_order_upt, of ?f] have "bus_run ?b (\<lambda>_. []) ?offend" .
  note p = bus_delivery [OF this]
  have "?offend 0 = [?e, ?f]"
    by (simp add: Publish_def Subscribe_def NewBus_def deliver_def close_chan_def)
  then show ?thesis using p c unfolding Let_def by fastforce
qed

text \<open>
  A slow subscriber is dropped without disturbing the others, in whatever order the subscribers
  are walked: publishing appends the event to every live channel that has room, closes and
  unsubscribes exactly the full ones, and leaves what they had buffered for their owner to read.
\<close>

theorem publish_drops_only_slow:
  assumes "bus_run b rcv off" and "is_order \<rho>" and "k \<in> set (subs b)"
    and "get (chans b) k = Some ch"
  shows "if int (length (ch_buf ch)) < bufferSize b
    then k \<in> set (subs (Publish \<rho> e b)) \<and>
         get (chans (Publish \<rho> e b)) k = Some (ch\<lparr>ch_buf := ch_buf ch @ [e]\<rparr>)
    else k \<notin> set (subs (Publish \<rho> e b)) \<and>
         get (chans (Publish \<rho> e b)) k = Some (ch\<lparr>ch_closed := True\<rparr>)"
  using Publish_effect [OF run_ok [OF assms(1)] assms(2)] assms(3,4)
  by (simp add: offer_def roomy_def)

theorem publish_drops_only_slow_witness:
  "let e = SBOMIngested ''s'' ''c'' 1; b = snd (Subscribe (snd (Subscribe (NewBus 0)))) in
   get (chans (Publish (\<lambda>n. rev [0..<n]) e b)) 1 = Some \<lparr>ch_buf = [e], ch_closed = False\<rparr>"
proof -
  let ?b = "snd (Subscribe (snd (Subscribe (NewBus 0))))"
  have "bus_run ?b (\<lambda>_. []) (\<lambda>_. [])" by (intro bus_run.intros)
  from publish_drops_only_slow [OF this is_order_rev, of 1 "\<lparr>ch_buf = [], ch_closed = False\<rparr>"]
  show ?thesis by (simp add: Subscribe_def NewBus_def)
qed

end
