(* ===== verification/Runtime.thy ===== *)
theory Runtime
  imports Storage EventBus "HOL-Library.State_Monad"
begin

text \<open>
  The world the handlers and background jobs of the engine run in: the storage backend, the event bus, and an
  environment that answers every question the code asks of the outside. Each storage call, clock
  reading, fresh ULID and \<^verbatim>\<open>range\<close> over a map takes one tick, and the environment's answers are
  functions of the tick, so that they are independent from one call to the next.

  A statement \<open>wp m Q s\<close> says that the action \<open>m\<close> run in state \<open>s\<close> ends with a result and a state in
  \<open>Q\<close>; actions are total, so this includes that they return.
\<close>

section \<open>State, environment and actions\<close>

record env =
  e_err :: "nat \<Rightarrow> error option"
  e_order :: "nat \<Rightarrow> order"
  e_now :: "nat \<Rightarrow> time"
  e_ulid :: "nat \<Rightarrow> string"

record 's sys =
  sys_store :: 's
  sys_bus :: bus
  sys_tick :: nat

type_synonym ('s, 'a) act = "('s sys, 'a) state"

definition call_at :: "env \<Rightarrow> nat \<Rightarrow> call" where
  "call_at env n = \<lparr>c_err = e_err env n, c_order = e_order env n, c_now = e_now env n\<rparr>"

definition ret :: "'a \<Rightarrow> ('s, 'a) state" where
  "ret x = State_Monad.return x"

definition read_call :: "env \<Rightarrow> (call \<Rightarrow> 's \<Rightarrow> 'a) \<Rightarrow> ('s, 'a) act" where
  "read_call env f = State (\<lambda>s. (f (call_at env (sys_tick s)) (sys_store s),
     s\<lparr>sys_tick := Suc (sys_tick s)\<rparr>))"

definition write_call :: "env \<Rightarrow> (call \<Rightarrow> 's \<Rightarrow> 'a \<times> 's) \<Rightarrow> ('s, 'a) act" where
  "write_call env f = State (\<lambda>s.
     (fst (f (call_at env (sys_tick s)) (sys_store s)),
      s\<lparr>sys_store := snd (f (call_at env (sys_tick s)) (sys_store s)),
        sys_tick := Suc (sys_tick s)\<rparr>))"

definition time_Now :: "env \<Rightarrow> ('s, time) act" where
  "time_Now env = State (\<lambda>s. (e_now env (sys_tick s), s\<lparr>sys_tick := Suc (sys_tick s)\<rparr>))"

definition ulid_Make :: "env \<Rightarrow> ('s, string) act" where
  "ulid_Make env = State (\<lambda>s. (e_ulid env (sys_tick s), s\<lparr>sys_tick := Suc (sys_tick s)\<rparr>))"

definition ctx_Err :: "env \<Rightarrow> ('s, error option) act" where
  "ctx_Err env = State (\<lambda>s. (e_err env (sys_tick s), s\<lparr>sys_tick := Suc (sys_tick s)\<rparr>))"

definition range_over :: "env \<Rightarrow> 'a list \<Rightarrow> ('s, 'a list) act" where
  "range_over env xs = State (\<lambda>s. (in_order (e_order env (sys_tick s)) xs,
     s\<lparr>sys_tick := Suc (sys_tick s)\<rparr>))"

definition publish :: "env \<Rightarrow> event \<Rightarrow> ('s, unit) act" where
  "publish env e = State (\<lambda>s. ((), s\<lparr>sys_bus := Publish (e_order env (sys_tick s)) e (sys_bus s),
     sys_tick := Suc (sys_tick s)\<rparr>))"

section \<open>Weakest preconditions\<close>

definition wp :: "('s, 'a) state \<Rightarrow> ('a \<Rightarrow> 's \<Rightarrow> bool) \<Rightarrow> 's \<Rightarrow> bool" where
  "wp m Q s \<longleftrightarrow> (case run_state m s of (r, s') \<Rightarrow> Q r s')"

lemma wp_ret [simp]: "wp (ret x) Q s \<longleftrightarrow> Q x s"
  by (simp add: wp_def ret_def State_Monad.return_def)

lemma wp_ret_eta [simp]: "wp (ret x) Q = Q x"
  by (rule ext) simp

lemma wp_bind [simp]: "wp (State_Monad.bind m f) Q s \<longleftrightarrow> wp m (\<lambda>r. wp (f r) Q) s"
  by (simp add: wp_def State_Monad.bind_def split: prod.split)

lemma wp_mono: "wp m Q s \<Longrightarrow> (\<And>r s'. Q r s' \<Longrightarrow> Q' r s') \<Longrightarrow> wp m Q' s"
  by (auto simp: wp_def split: prod.splits)

lemma wp_conj: "wp m Q s \<Longrightarrow> wp m Q' s \<Longrightarrow> wp m (\<lambda>r s'. Q r s' \<and> Q' r s') s"
  by (auto simp: wp_def)

lemma wp_run: "wp m Q s \<longleftrightarrow> Q (fst (run_state m s)) (snd (run_state m s))"
  by (simp add: wp_def case_prod_beta)

lemma wp_read [simp]:
  "wp (read_call env f) Q s \<longleftrightarrow>
     Q (f (call_at env (sys_tick s)) (sys_store s)) (s\<lparr>sys_tick := Suc (sys_tick s)\<rparr>)"
  by (simp add: wp_def read_call_def)

lemma wp_write [simp]:
  "wp (write_call env f) Q s \<longleftrightarrow>
     Q (fst (f (call_at env (sys_tick s)) (sys_store s)))
       (s\<lparr>sys_store := snd (f (call_at env (sys_tick s)) (sys_store s)),
          sys_tick := Suc (sys_tick s)\<rparr>)"
  by (simp add: wp_def write_call_def)

lemma wp_now [simp]:
  "wp (time_Now env) Q s \<longleftrightarrow> Q (e_now env (sys_tick s)) (s\<lparr>sys_tick := Suc (sys_tick s)\<rparr>)"
  by (simp add: wp_def time_Now_def)

lemma wp_ctx_Err [simp]:
  "wp (ctx_Err env) Q s \<longleftrightarrow> Q (e_err env (sys_tick s)) (s\<lparr>sys_tick := Suc (sys_tick s)\<rparr>)"
  by (simp add: wp_def ctx_Err_def)

lemma wp_ulid [simp]:
  "wp (ulid_Make env) Q s \<longleftrightarrow> Q (e_ulid env (sys_tick s)) (s\<lparr>sys_tick := Suc (sys_tick s)\<rparr>)"
  by (simp add: wp_def ulid_Make_def)

lemma wp_range [simp]:
  "wp (range_over env xs) Q s \<longleftrightarrow>
     Q (in_order (e_order env (sys_tick s)) xs) (s\<lparr>sys_tick := Suc (sys_tick s)\<rparr>)"
  by (simp add: wp_def range_over_def)

lemma wp_publish [simp]:
  "wp (publish env e) Q s \<longleftrightarrow>
     Q () (s\<lparr>sys_bus := Publish (e_order env (sys_tick s)) e (sys_bus s),
             sys_tick := Suc (sys_tick s)\<rparr>)"
  by (simp add: wp_def publish_def)

section \<open>Store predicates an action keeps\<close>

text \<open>
  \<open>keeps P m\<close> says that \<open>m\<close> keeps the predicate \<open>P\<close> of the store. It is closed under the
  constructs the code is written with, so that for a whole handler it reduces to the storage calls it makes.
\<close>

definition keeps :: "('s \<Rightarrow> bool) \<Rightarrow> ('s, 'a) act \<Rightarrow> bool" where
  "keeps P m \<longleftrightarrow> (\<forall>s. P (sys_store s) \<longrightarrow> wp m (\<lambda>_ s'. P (sys_store s')) s)"

named_theorems keeps_intros

lemma keeps_ret [keeps_intros]: "keeps P (ret x)"
  by (simp add: keeps_def)

lemma keeps_read [keeps_intros]: "keeps P (read_call env f)"
  by (simp add: keeps_def)

lemma keeps_now [keeps_intros]: "keeps P (time_Now env)"
  by (simp add: keeps_def)

lemma keeps_ulid [keeps_intros]: "keeps P (ulid_Make env)"
  by (simp add: keeps_def)

lemma keeps_ctx_Err [keeps_intros]: "keeps P (ctx_Err env)"
  by (simp add: keeps_def)

lemma keeps_range [keeps_intros]: "keeps P (range_over env xs)"
  by (simp add: keeps_def)

lemma keeps_publish [keeps_intros]: "keeps P (publish env e)"
  by (simp add: keeps_def)

lemma keeps_write: "(\<And>c s. P s \<Longrightarrow> P (snd (f c s))) \<Longrightarrow> keeps P (write_call env f)"
  by (simp add: keeps_def)

lemma keeps_bind [keeps_intros]:
  "keeps P m \<Longrightarrow> (\<And>x. keeps P (f x)) \<Longrightarrow> keeps P (State_Monad.bind m f)"
  unfolding keeps_def by (simp, meson wp_mono)

lemma keeps_Let [keeps_intros]: "(\<And>x. keeps P (f x)) \<Longrightarrow> keeps P (Let x f)"
  by simp

lemma keeps_if [keeps_intros]: "keeps P m \<Longrightarrow> keeps P m' \<Longrightarrow> keeps P (if b then m else m')"
  by simp

lemma keeps_option [keeps_intros]:
  "keeps P m \<Longrightarrow> (\<And>x. keeps P (f x)) \<Longrightarrow> keeps P (case y of None \<Rightarrow> m | Some x \<Rightarrow> f x)"
  by (cases y) simp_all

lemma keeps_sum [keeps_intros]:
  "(\<And>x. keeps P (f x)) \<Longrightarrow> (\<And>x. keeps P (g x)) \<Longrightarrow> keeps P (case y of Inl x \<Rightarrow> f x | Inr x \<Rightarrow> g x)"
  by (cases y) simp_all

lemma keeps_prod [keeps_intros]: "(\<And>x z. keeps P (f x z)) \<Longrightarrow> keeps P (case y of (x, z) \<Rightarrow> f x z)"
  by (cases y) simp_all

lemma keeps_wp: "keeps P m \<Longrightarrow> P (sys_store s) \<Longrightarrow> wp m (\<lambda>_ s'. P (sys_store s')) s"
  by (simp add: keeps_def)

section \<open>Quiet environments\<close>

text \<open>
  An environment is quiet when no request context is cancelled and the map walks are permutations.
  ULIDs are fresh: the library promises that two of them never coincide, and none is in use.
\<close>

definition quiet :: "env \<Rightarrow> bool" where
  "quiet env \<longleftrightarrow> (\<forall>n. e_err env n = None \<and> is_order (e_order env n)) \<and> inj (e_ulid env)"

lemma quiet_call [simp]:
  "quiet env \<Longrightarrow> c_err (call_at env n) = None"
  "quiet env \<Longrightarrow> is_order (c_order (call_at env n))"
  "quiet env \<Longrightarrow> is_order (e_order env n)"
  by (simp_all add: quiet_def call_at_def)

lemma quiet_ulid [simp]: "quiet env \<Longrightarrow> e_ulid env n = e_ulid env m \<longleftrightarrow> n = m"
  by (auto simp: quiet_def inj_def)

definition ids_fresh :: "env \<Rightarrow> nat \<Rightarrow> db \<Rightarrow> bool" where
  "ids_fresh env t d \<longleftrightarrow>
     (\<forall>n \<ge> t. db_incidents d (e_ulid env n) = None \<and> db_sboms d (e_ulid env n) = None)"

lemma ids_fresh_mono: "ids_fresh env t d \<Longrightarrow> t \<le> t' \<Longrightarrow> ids_fresh env t' d"
  by (simp add: ids_fresh_def)

text \<open>A sample environment: one clock reading per tick, and numbered identifiers.\<close>

definition sample_env :: env where
  "sample_env = \<lparr>e_err = (\<lambda>_. None), e_order = (\<lambda>_ n. [0..<n]), e_now = int,
     e_ulid = (\<lambda>n. replicate n CHR ''I'')\<rparr>"

lemma quiet_sample: "quiet sample_env"
proof -
  have "inj (\<lambda>n. replicate n CHR ''I'')"
    by (rule injI) (metis length_replicate)
  then show ?thesis by (simp add: quiet_def sample_env_def is_order_upt)
qed

end
