(* ===== verification/Matcher.thy ===== *)
theory Matcher
  imports Domain "HOL-Library.Word"
begin

text \<open>
  \<^verbatim>\<open>engine/internal/matcher\<close>: the predicate of one IoC evaluated against one SBOM. The semantic
  version library (\<^verbatim>\<open>Masterminds/semver\<close>) is not part of the repository; its functions are the
  fields of a record that every definition using them takes as an argument.
\<close>

section \<open>The semantic version library as a parameter\<close>

record ('c, 'v) semver =
  NewConstraint :: "string \<Rightarrow> 'c option"
  NewVersion :: "string \<Rightarrow> 'v option"
  Check :: "'c \<Rightarrow> 'v \<Rightarrow> bool"
  Major :: "'v \<Rightarrow> 64 word"
  Minor :: "'v \<Rightarrow> 64 word"
  Prerelease :: "'v \<Rightarrow> string"
  VersionEqual :: "'v \<Rightarrow> 'v \<Rightarrow> bool"
  Original :: "'v \<Rightarrow> string"

section \<open>Evaluation\<close>

record match =
  Matched :: bool
  MatchPackages :: "package_version list"

definition noMatch :: match where
  "noMatch = \<lparr>Matched = False, MatchPackages = []\<rparr>"

definition hitsMatch :: "package_version list \<Rightarrow> match" where
  "hitsMatch hits = \<lparr>Matched = length hits > 0, MatchPackages = hits\<rparr>"

definition evaluateAnomalyBody :: "ioc_body_anomaly \<Rightarrow> sbom \<Rightarrow> match" where
  "evaluateAnomalyBody body b =
     (let target = iba_PackageRef body in
      if target = [] then noMatch
      else hitsMatch (filter (\<lambda>p. pv_Ecosystem p @ '':'' @ pv_Name p = target) (sbom_Packages b)))"

definition evaluatePackageVersion :: "ioc \<Rightarrow> sbom \<Rightarrow> match" where
  "evaluatePackageVersion i b =
     (case ioc_PackageVersion i of
        None \<Rightarrow> noMatch
      | Some target \<Rightarrow>
          hitsMatch (filter (\<lambda>p. pv_Name p = ipv_Name target \<and> pv_Version p = ipv_Version target)
                       (sbom_Packages b)))"

definition evaluatePackageRange :: "('c, 'v) semver \<Rightarrow> ioc \<Rightarrow> sbom \<Rightarrow> match" where
  "evaluatePackageRange sv i b =
     (case ioc_PackageRange i of
        None \<Rightarrow> noMatch
      | Some target \<Rightarrow>
          (case NewConstraint sv (ipr_Constraint target) of
             None \<Rightarrow> noMatch
           | Some constraint \<Rightarrow>
               hitsMatch (filter (\<lambda>p.
                   if pv_Name p \<noteq> ipr_Name target then False
                   else case NewVersion sv (pv_Version p) of
                          None \<Rightarrow> False
                        | Some v \<Rightarrow> Check sv constraint v)
                 (sbom_Packages b))))"

definition Evaluate :: "('c, 'v) semver \<Rightarrow> ioc \<Rightarrow> sbom \<Rightarrow> match" where
  "Evaluate sv i b =
     (if sbom_Ecosystem b \<noteq> [] \<and> ioc_Ecosystem i \<noteq> [] \<and> sbom_Ecosystem b \<noteq> ioc_Ecosystem i
      then noMatch
      else if ioc_Kind i = IoCKindPackageVersion then evaluatePackageVersion i b
      else if ioc_Kind i = IoCKindPackageRange then evaluatePackageRange sv i b
      else if ioc_Kind i = IoCKindPublisherAnomaly then
        (case ioc_AnomalyBody i of
           Some body \<Rightarrow> evaluateAnomalyBody body b
         | None \<Rightarrow> noMatch)
      else noMatch)"

section \<open>The predicate of an IoC on one package\<close>

text \<open>
  What an IoC says about a single package, independently of the SBOM that lists it: the abstract
  specification of the three evaluators.
\<close>

definition compatible :: "ioc \<Rightarrow> string \<Rightarrow> bool" where
  "compatible i eco \<longleftrightarrow> eco = [] \<or> ioc_Ecosystem i = [] \<or> eco = ioc_Ecosystem i"

definition fires :: "('c, 'v) semver \<Rightarrow> ioc \<Rightarrow> package_version \<Rightarrow> bool" where
  "fires sv i p \<longleftrightarrow>
     (ioc_Kind i = IoCKindPackageVersion \<and>
       (\<exists>t. ioc_PackageVersion i = Some t \<and> pv_Name p = ipv_Name t \<and> pv_Version p = ipv_Version t)) \<or>
     (ioc_Kind i = IoCKindPackageRange \<and>
       (\<exists>t c v. ioc_PackageRange i = Some t \<and> NewConstraint sv (ipr_Constraint t) = Some c \<and>
         pv_Name p = ipr_Name t \<and> NewVersion sv (pv_Version p) = Some v \<and> Check sv c v)) \<or>
     (ioc_Kind i = IoCKindPublisherAnomaly \<and>
       (\<exists>a. ioc_AnomalyBody i = Some a \<and> iba_PackageRef a \<noteq> [] \<and>
         pv_Ecosystem p @ '':'' @ pv_Name p = iba_PackageRef a))"

lemma Matched_hits [simp]: "Matched (hitsMatch hits) \<longleftrightarrow> hits \<noteq> []"
  by (simp add: hitsMatch_def)

lemma Packages_hits [simp]: "MatchPackages (hitsMatch hits) = hits"
  by (simp add: hitsMatch_def)

lemma noMatch_hits: "noMatch = hitsMatch []"
  by (simp add: noMatch_def hitsMatch_def)

lemma filter_False: "(\<And>x. x \<in> set xs \<Longrightarrow> \<not> P x) \<Longrightarrow> filter P xs = []"
  by (induction xs) auto

lemma Evaluate_filter:
  "Evaluate sv i b =
     hitsMatch (if compatible i (sbom_Ecosystem b) then filter (fires sv i) (sbom_Packages b) else [])"
proof (cases "compatible i (sbom_Ecosystem b)")
  case False
  then show ?thesis by (auto simp: Evaluate_def compatible_def noMatch_hits)
next
  case True
  then have "Evaluate sv i b = hitsMatch (filter (fires sv i) (sbom_Packages b))"
    by (auto simp: Evaluate_def compatible_def noMatch_hits evaluatePackageVersion_def
        evaluatePackageRange_def evaluateAnomalyBody_def Let_def fires_def
        intro!: arg_cong [where f = hitsMatch] filter_cong filter_False [symmetric]
        split: option.splits)
  with True show ?thesis by simp
qed

lemma Matched_iff:
  "Matched (Evaluate sv i b) \<longleftrightarrow>
     compatible i (sbom_Ecosystem b) \<and> (\<exists>p \<in> set (sbom_Packages b). fires sv i p)"
  by (auto simp: Evaluate_filter filter_empty_conv)

section \<open>Properties\<close>

text \<open>
  C15. Evaluation is exact: the packages reported for an IoC against an SBOM are, in the SBOM's order
  and with repetitions, those of its packages that satisfy the IoC's own predicate, and none at all
  when both ecosystems are given and differ; the match flag says whether there is one. An unknown
  kind, an empty or mismatched body and a malformed constraint report nothing.
\<close>

theorem evaluate_exact:
  "MatchPackages (Evaluate sv i b) =
     (if compatible i (sbom_Ecosystem b) then filter (fires sv i) (sbom_Packages b) else []) \<and>
   Matched (Evaluate sv i b) = (MatchPackages (Evaluate sv i b) \<noteq> [])"
  by (simp add: Evaluate_filter)

end
