(* ===== verification/Matching.thy ===== *)
theory Matching
  imports Runtime Matcher
begin

text \<open>
  The matching pipeline: \<^verbatim>\<open>engine/internal/api/matching.go\<close> (one new SBOM against every IoC, one new
  IoC against every SBOM through the bulk package lookup, and the opening of incidents) and
  \<^verbatim>\<open>engine/internal/iocforward\<close>, the variant the anomaly orchestrator calls, which walks every SBOM
  of every component. The proofs use only the storage contract, so they hold for every backend that
  interprets it.
\<close>

section \<open>Lookup keys and bulk matching\<close>

definition iocLookupKey :: "ioc \<Rightarrow> (string \<times> string) option" where
  "iocLookupKey i =
     (if ioc_Kind i = IoCKindPackageVersion then
        (case ioc_PackageVersion i of
           None \<Rightarrow> None
         | Some t \<Rightarrow> Some (ioc_Ecosystem i, ipv_Name t))
      else if ioc_Kind i = IoCKindPackageRange then
        (case ioc_PackageRange i of
           None \<Rightarrow> None
         | Some t \<Rightarrow> Some (ioc_Ecosystem i, ipr_Name t))
      else if ioc_Kind i = IoCKindPublisherAnomaly then
        (case ioc_AnomalyBody i of
           None \<Rightarrow> None
         | Some body \<Rightarrow>
             (let ref = iba_PackageRef body in
              case Index ref '':'' of
                None \<Rightarrow> None
              | Some idx \<Rightarrow>
                  if idx = 0 \<or> idx = length ref - 1 then None
                  else Some (take idx ref, drop (idx + 1) ref)))
      else None)"

text \<open>The one-package SBOM in which a looked-up row is wrapped; the fields the code leaves out are zero.\<close>

definition synthetic_sbom :: "string \<Rightarrow> package_version \<Rightarrow> sbom" where
  "synthetic_sbom ecosystem p = \<lparr>sbom_ID = [], sbom_ComponentRef = [], sbom_CommitSHA = [],
     sbom_Ecosystem = ecosystem, sbom_GeneratedAt = zeroTime, sbom_Packages = [p],
     sbom_SourceFormat = [], sbom_SourceBytes = 0\<rparr>"

fun match_rows ::
    "('c, 'v) semver \<Rightarrow> ioc \<Rightarrow> string \<Rightarrow> string list \<Rightarrow> sbom_package_ref list \<Rightarrow> string list" where
  "match_rows sv i eco seen [] = []"
| "match_rows sv i eco seen (p # ps) =
     (if spr_ComponentRef p \<in> set seen then match_rows sv i eco seen ps
      else if \<not> Matched (Evaluate sv i (synthetic_sbom eco (spr_Package p)))
        then match_rows sv i eco seen ps
      else spr_ComponentRef p # match_rows sv i eco (spr_ComponentRef p # seen) ps)"

definition matchPackagesAgainstIoC ::
    "('c, 'v) semver \<Rightarrow> ioc \<Rightarrow> string \<Rightarrow> sbom_package_ref list \<Rightarrow> string list" where
  "matchPackagesAgainstIoC sv i ecosystem pkgs = match_rows sv i ecosystem [] pkgs"

section \<open>Opening incidents\<close>

definition isNonTerminal :: "string \<Rightarrow> bool" where
  "isNonTerminal state \<longleftrightarrow> state \<noteq> StateClosed \<and> state \<noteq> StateDismissed"

record matchPair =
  mp_IoCID :: string
  mp_ComponentRef :: string

type_synonym open_index = "(string \<times> string, incident) gomap"

definition index_incident :: "open_index \<Rightarrow> incident \<Rightarrow> open_index" where
  "index_incident idx inc =
     (if \<not> isNonTerminal (inc_State inc) then idx
      else foldl (\<lambda>m r. put (inc_IoCID inc, r) inc m) idx (inc_AffectedComponentsSnapshot inc))"

definition pending_incident :: "string \<Rightarrow> matchPair \<Rightarrow> time \<Rightarrow> incident" where
  "pending_incident k p now = \<lparr>inc_ID = k, inc_IoCID = mp_IoCID p, inc_State = StatePending,
     inc_OpenedAt = now, inc_LastTransitionedAt = now,
     inc_AffectedComponentsSnapshot = [mp_ComponentRef p], inc_Remediations = []\<rparr>"

text \<open>
  The repository has two copies of this function, in the API and in \<^verbatim>\<open>iocforward\<close>, which differ only in
  that the second one may run without a bus: \<open>pub\<close> is the publication of one event.
\<close>

fun open_pairs :: "env \<Rightarrow> 's storage \<Rightarrow> (event \<Rightarrow> ('s, unit) act) \<Rightarrow> time \<Rightarrow> open_index \<Rightarrow>
    string list \<Rightarrow> matchPair list \<Rightarrow> ('s, string list \<times> error option) act" where
  "open_pairs env ops pub now idx opened [] = ret (opened, None)"
| "open_pairs env ops pub now idx opened (p # ps) =
     (if get idx (mp_IoCID p, mp_ComponentRef p) \<noteq> None
      then open_pairs env ops pub now idx opened ps
      else do {
        k \<leftarrow> ulid_Make env;
        let inc = pending_incident k p now;
        r \<leftarrow> write_call env (\<lambda>c. UpsertIncident ops c inc);
        case r of
          Some e \<Rightarrow> ret (opened, Some e)
        | None \<Rightarrow> do {
            pub (IncidentOpened (inc_ID inc) (inc_IoCID inc) (inc_AffectedComponentsSnapshot inc) now);
            open_pairs env ops pub now (put (mp_IoCID p, mp_ComponentRef p) inc idx) (opened @ [k]) ps
          }
      })"

definition open_with :: "env \<Rightarrow> 's storage \<Rightarrow> (event \<Rightarrow> ('s, unit) act) \<Rightarrow> matchPair list \<Rightarrow>
    ('s, string list \<times> error option) act" where
  "open_with env ops pub pairs =
     (if pairs = [] then ret ([], None)
      else do {
        r \<leftarrow> read_call env (ListIncidents ops);
        case r of
          Inl e \<Rightarrow> ret ([], Some e)
        | Inr existing \<Rightarrow> do {
            now \<leftarrow> time_Now env;
            open_pairs env ops pub now (foldl index_incident [] existing) [] pairs
          }
      })"

definition openIncidentsForMatches ::
    "env \<Rightarrow> 's storage \<Rightarrow> matchPair list \<Rightarrow> ('s, string list \<times> error option) act" where
  "openIncidentsForMatches env ops pairs = open_with env ops (publish env) pairs"

section \<open>The API's matching functions\<close>

fun retro_pairs :: "('c, 'v) semver \<Rightarrow> sbom \<Rightarrow> string list \<Rightarrow> ioc list \<Rightarrow> matchPair list" where
  "retro_pairs sv b seen [] = []"
| "retro_pairs sv b seen (i # is) =
     (if \<not> Matched (Evaluate sv i b) then retro_pairs sv b seen is
      else if ioc_ID i \<in> set seen then retro_pairs sv b seen is
      else \<lparr>mp_IoCID = ioc_ID i, mp_ComponentRef = sbom_ComponentRef b\<rparr> #
             retro_pairs sv b (ioc_ID i # seen) is)"

definition retroactiveMatch ::
    "('c, 'v) semver \<Rightarrow> env \<Rightarrow> 's storage \<Rightarrow> sbom \<Rightarrow> ('s, (matchPair list \<times> string list) result) act" where
  "retroactiveMatch sv env ops b = do {
     r \<leftarrow> read_call env (ListIoCs ops);
     case r of
       Inl e \<Rightarrow> ret (Inl e)
     | Inr stored \<Rightarrow> do {
         let pairs = retro_pairs sv b [] stored;
         ids \<leftarrow> range_over env (map mp_IoCID pairs);
         ret (Inr (pairs, ids))
       }
   }"

definition forwardMatch ::
    "('c, 'v) semver \<Rightarrow> env \<Rightarrow> 's storage \<Rightarrow> ioc \<Rightarrow> ('s, (matchPair list \<times> string list) result) act" where
  "forwardMatch sv env ops i =
     (case iocLookupKey i of
        None \<Rightarrow> ret (Inr ([], []))
      | Some (eco, name) \<Rightarrow> do {
          r \<leftarrow> read_call env (\<lambda>c. ListSBOMPackages ops c eco name);
          case r of
            Inl e \<Rightarrow> ret (Inl e)
          | Inr pkgs \<Rightarrow>
              (let matched = matchPackagesAgainstIoC sv i eco pkgs in
               ret (Inr (map (\<lambda>ref. \<lparr>mp_IoCID = ioc_ID i, mp_ComponentRef = ref\<rparr>) matched, matched)))
        })"

section \<open>The orchestrator's variant\<close>

text \<open>The inner loop over the SBOMs of one component: whether it adds a pair.\<close>

definition component_hit :: "('c, 'v) semver \<Rightarrow> ioc \<Rightarrow> string list \<Rightarrow> string \<Rightarrow> sbom list \<Rightarrow> bool" where
  "component_hit sv i seen ref bs =
     list_ex (\<lambda>b. Matched (Evaluate sv i b) \<and> ref \<notin> set seen) bs"

fun walk_components :: "('c, 'v) semver \<Rightarrow> env \<Rightarrow> 's storage \<Rightarrow> ioc \<Rightarrow> string list \<Rightarrow> component list \<Rightarrow>
    ('s, string list result) act" where
  "walk_components sv env ops i seen [] = ret (Inr seen)"
| "walk_components sv env ops i seen (x # xs) = do {
     r \<leftarrow> read_call env (\<lambda>c. ListSBOMsByComponent ops c (comp_Ref x));
     case r of
       Inl e \<Rightarrow> ret (Inl e)
     | Inr bs \<Rightarrow>
         walk_components sv env ops i
           (if component_hit sv i seen (comp_Ref x) bs then seen @ [comp_Ref x] else seen) xs
   }"

definition fwd_forwardMatch ::
    "('c, 'v) semver \<Rightarrow> env \<Rightarrow> 's storage \<Rightarrow> ioc \<Rightarrow> ('s, (matchPair list \<times> string list) result) act" where
  "fwd_forwardMatch sv env ops i = do {
     r \<leftarrow> read_call env (ListComponents ops);
     case r of
       Inl e \<Rightarrow> ret (Inl e)
     | Inr comps \<Rightarrow> do {
         m \<leftarrow> walk_components sv env ops i [] comps;
         case m of
           Inl e \<Rightarrow> ret (Inl e)
         | Inr matched \<Rightarrow>
             ret (Inr (map (\<lambda>ref. \<lparr>mp_IoCID = ioc_ID i, mp_ComponentRef = ref\<rparr>) matched, matched))
       }
   }"

definition fwd_publish :: "env \<Rightarrow> bool \<Rightarrow> event \<Rightarrow> ('s, unit) act" where
  "fwd_publish env has_bus e = (if has_bus then publish env e else ret ())"

definition fwd_openIncidentsForMatches ::
    "env \<Rightarrow> 's storage \<Rightarrow> bool \<Rightarrow> matchPair list \<Rightarrow> ('s, string list \<times> error option) act" where
  "fwd_openIncidentsForMatches env ops has_bus pairs = open_with env ops (fwd_publish env has_bus) pairs"

record submit_result =
  OpenedIncidents :: "string list"
  MatchedComponents :: "string list"

datatype submit_stage = UpsertStage | MatchStage | OpenStage

definition Submit :: "('c, 'v) semver \<Rightarrow> env \<Rightarrow> 's storage \<Rightarrow> bool \<Rightarrow> ioc \<Rightarrow>
    ('s, submit_result \<times> (submit_stage \<times> error) option) act" where
  "Submit sv env ops has_bus i = do {
     u \<leftarrow> write_call env (\<lambda>c. UpsertIoC ops c i);
     case u of
       Some e \<Rightarrow> ret (\<lparr>OpenedIncidents = [], MatchedComponents = []\<rparr>, Some (UpsertStage, e))
     | None \<Rightarrow> do {
         m \<leftarrow> fwd_forwardMatch sv env ops i;
         case m of
           Inl e \<Rightarrow> ret (\<lparr>OpenedIncidents = [], MatchedComponents = []\<rparr>, Some (MatchStage, e))
         | Inr (pairs, matched) \<Rightarrow> do {
             (opened, err) \<leftarrow> fwd_openIncidentsForMatches env ops has_bus pairs;
             let res = \<lparr>OpenedIncidents = opened, MatchedComponents = matched\<rparr>;
             case err of
               Some e \<Rightarrow> ret (res, Some (OpenStage, e))
             | None \<Rightarrow>
                 if has_bus \<and> matched \<noteq> [] then do {
                   now \<leftarrow> time_Now env;
                   publish env (IoCMatched (ioc_ID i) matched now);
                   ret (res, None)
                 }
                 else ret (res, None)
           }
       }
   }"

section \<open>Matching does not look at times\<close>

lemma Evaluate_stored [simp]:
  "Evaluate sv (stored_ioc gran i) b = Evaluate sv i b" "Evaluate sv i (stored_sbom gran b) = Evaluate sv i b"
  by (simp_all add: Evaluate_def evaluatePackageVersion_def evaluatePackageRange_def evaluateAnomalyBody_def
      stored_ioc_def stored_sbom_def Let_def cong: option.case_cong if_cong)

section \<open>Specification of the incident table\<close>

definition covered :: "db \<Rightarrow> string \<Rightarrow> string \<Rightarrow> bool" where
  "covered d i r \<longleftrightarrow> (\<exists>x \<in> ran (db_incidents d). inc_IoCID x = i \<and>
     r \<in> set (inc_AffectedComponentsSnapshot x))"

definition open_for :: "db \<Rightarrow> string \<Rightarrow> string \<Rightarrow> bool" where
  "open_for d i r \<longleftrightarrow> (\<exists>x \<in> ran (db_incidents d). inc_IoCID x = i \<and>
     r \<in> set (inc_AffectedComponentsSnapshot x) \<and> isNonTerminal (inc_State x))"

definition single_open :: "db \<Rightarrow> bool" where
  "single_open d \<longleftrightarrow> (\<forall>k k' x x' r.
     db_incidents d k = Some x \<and> db_incidents d k' = Some x' \<and> inc_IoCID x = inc_IoCID x' \<and>
     r \<in> set (inc_AffectedComponentsSnapshot x) \<and> r \<in> set (inc_AffectedComponentsSnapshot x') \<and>
     isNonTerminal (inc_State x) \<and> isNonTerminal (inc_State x') \<longrightarrow> k = k')"

text \<open>What the opening of incidents for a set of (IoC, component) pairs may do to the database.\<close>

definition opens :: "(string \<times> string) set \<Rightarrow> db \<Rightarrow> db \<Rightarrow> bool" where
  "opens P d d' \<longleftrightarrow>
     db_components d' = db_components d \<and> db_sboms d' = db_sboms d \<and> db_iocs d' = db_iocs d \<and>
     db_incidents d \<subseteq>\<^sub>m db_incidents d' \<and>
     (\<forall>(i, r) \<in> P. open_for d' i r) \<and>
     (\<forall>k x. db_incidents d k = None \<and> db_incidents d' k = Some x \<longrightarrow>
        inc_State x = StatePending \<and>
        (\<exists>r. (inc_IoCID x, r) \<in> P \<and> inc_AffectedComponentsSnapshot x = [r] \<and>
             \<not> open_for d (inc_IoCID x) r)) \<and>
     (single_open d \<longrightarrow> single_open d')"

lemma open_for_covered: "open_for d i r \<Longrightarrow> covered d i r"
  by (auto simp: open_for_def covered_def)

lemma open_for_mono: "db_incidents d \<subseteq>\<^sub>m db_incidents d' \<Longrightarrow> open_for d i r \<Longrightarrow> open_for d' i r"
  by (fastforce simp: open_for_def ran_def map_le_def dom_def)

lemma covered_mono: "db_incidents d \<subseteq>\<^sub>m db_incidents d' \<Longrightarrow> covered d i r \<Longrightarrow> covered d' i r"
  by (fastforce simp: covered_def ran_def map_le_def dom_def)

lemma opens_refl: "(\<And>i r. (i, r) \<in> P \<Longrightarrow> open_for d i r) \<Longrightarrow> opens P d d"
  by (auto simp: opens_def)

lemma opens_empty [simp]: "opens {} d d"
  by (rule opens_refl) simp

lemma opens_trans:
  assumes "opens P d d1" and "opens P' d1 d'"
  shows "opens (P \<union> P') d d'"
proof -
  have le: "db_incidents d \<subseteq>\<^sub>m db_incidents d1" "db_incidents d1 \<subseteq>\<^sub>m db_incidents d'"
    using assms by (simp_all add: opens_def)
  have new: "inc_State x = StatePending \<and> (\<exists>r. (inc_IoCID x, r) \<in> P \<union> P' \<and>
      inc_AffectedComponentsSnapshot x = [r] \<and> \<not> open_for d (inc_IoCID x) r)"
    if x: "db_incidents d k = None" "db_incidents d' k = Some x" for k x
  proof (cases "db_incidents d1 k")
    case None
    then show ?thesis using x assms(2) open_for_mono [OF le(1)] unfolding opens_def by blast
  next
    case (Some y)
    then have "y = x" using le(2) x(2) by (metis domI map_le_def option.inject)
    then show ?thesis using x Some assms(1) unfolding opens_def by blast
  qed
  have "open_for d' i r" if "(i, r) \<in> P \<union> P'" for i r
    using that assms open_for_mono [OF le(2)] by (fastforce simp: opens_def)
  moreover have "db_incidents d \<subseteq>\<^sub>m db_incidents d'" using le map_le_trans by blast
  ultimately show ?thesis
    using new assms unfolding opens_def by auto
qed

lemma open_for_upd:
  assumes "db_incidents d k = None"
  shows "open_for (d\<lparr>db_incidents := (db_incidents d)(k \<mapsto> x)\<rparr>) i r \<longleftrightarrow> open_for d i r \<or>
    inc_IoCID x = i \<and> r \<in> set (inc_AffectedComponentsSnapshot x) \<and> isNonTerminal (inc_State x)"
  using assms by (auto simp: open_for_def ran_map_upd)

lemma pending_simps [simp]:
  "inc_ID (pending_incident k p now) = k" "inc_IoCID (pending_incident k p now) = mp_IoCID p"
  "inc_State (pending_incident k p now) = StatePending"
  "inc_AffectedComponentsSnapshot (pending_incident k p now) = [mp_ComponentRef p]"
  "bare (pending_incident k p now) = pending_incident k p now"
  "stored_incident gran (pending_incident k p now) = pending_incident k p (gran now)"
  "isNonTerminal StatePending"
  by (simp_all add: pending_incident_def bare_def isNonTerminal_def stored_incident_def)

lemma opens_one:
  assumes "db_incidents d k = None" and "\<not> open_for d (mp_IoCID p) (mp_ComponentRef p)"
  shows "opens {(mp_IoCID p, mp_ComponentRef p)} d
    (d\<lparr>db_incidents := (db_incidents d)(k \<mapsto> pending_incident k p now)\<rparr>)"
proof -
  let ?d = "d\<lparr>db_incidents := (db_incidents d)(k \<mapsto> pending_incident k p now)\<rparr>"
  have no: False if "db_incidents d k' = Some x" "inc_IoCID x = mp_IoCID p"
      "mp_ComponentRef p \<in> set (inc_AffectedComponentsSnapshot x)" "isNonTerminal (inc_State x)" for k' x
    using that assms(2) by (auto simp: open_for_def ran_def)
  have "single_open ?d" if "single_open d"
    unfolding single_open_def
  proof (intro allI impI, elim conjE)
    fix k1 k2 x x' r
    assume a: "db_incidents ?d k1 = Some x" "db_incidents ?d k2 = Some x'" "inc_IoCID x = inc_IoCID x'"
      "r \<in> set (inc_AffectedComponentsSnapshot x)" "r \<in> set (inc_AffectedComponentsSnapshot x')"
      "isNonTerminal (inc_State x)" "isNonTerminal (inc_State x')"
    have "k1 = k2" if "k1 \<noteq> k" "k2 \<noteq> k"
      using a that \<open>single_open d\<close> unfolding single_open_def by simp blast
    then show "k1 = k2"
      using a by (cases "k1 = k"; cases "k2 = k") (auto dest: no no [OF _ sym])
  qed
  moreover have "open_for ?d (mp_IoCID p) (mp_ComponentRef p)"
    using assms(1) by (simp add: open_for_upd)
  ultimately show ?thesis
    using assms by (auto simp: opens_def map_le_def split: if_splits)
qed

lemma opens_insert: "open_for d i r \<Longrightarrow> opens P d d' \<Longrightarrow> opens (insert (i, r) P) d d'"
  using opens_trans [of "{(i, r)}" d d P d'] opens_refl [of "{(i, r)}" d] by simp

lemma opens_same:
  "opens P d d' \<Longrightarrow> db_sboms d' = db_sboms d \<and> db_iocs d' = db_iocs d \<and>
     db_components d' = db_components d"
  by (simp add: opens_def)

lemma get_index_refs:
  "get (foldl (\<lambda>m r. put (i, r) x m) idx rs) q \<noteq> None \<longleftrightarrow>
     get idx q \<noteq> None \<or> (fst q = i \<and> snd q \<in> set rs)"
  by (induction rs arbitrary: idx) (auto split: if_splits)

lemma get_index:
  "get (foldl index_incident idx xs) (i, r) \<noteq> None \<longleftrightarrow> get idx (i, r) \<noteq> None \<or>
     (\<exists>x \<in> set xs. inc_IoCID x = i \<and> r \<in> set (inc_AffectedComponentsSnapshot x) \<and>
        isNonTerminal (inc_State x))"
proof (induction xs arbitrary: idx)
  case (Cons x xs)
  show ?case
    unfolding foldl_Cons Cons.IH
    by (simp only: index_incident_def get_index_refs split: if_split) auto
qed simp

lemma open_for_bare:
  assumes "bare ` set xs = ran (db_incidents d)"
  shows "open_for d i r \<longleftrightarrow> (\<exists>x \<in> set xs. inc_IoCID x = i \<and>
    r \<in> set (inc_AffectedComponentsSnapshot x) \<and> isNonTerminal (inc_State x))"
  unfolding open_for_def assms [symmetric] by simp

section \<open>Opening incidents meets its specification\<close>

definition harmless :: "('s, unit) act \<Rightarrow> bool" where
  "harmless a \<longleftrightarrow> (\<forall>s Q. (\<forall>b t. sys_tick s \<le> t \<longrightarrow> Q () (s\<lparr>sys_bus := b, sys_tick := t\<rparr>)) \<longrightarrow> wp a Q s)"

lemma harmless_publish [simp]: "harmless (publish env e)"
  unfolding harmless_def
proof (intro allI impI)
  fix s :: "'a sys" and Q
  assume "\<forall>b t. sys_tick s \<le> t \<longrightarrow> Q () (s\<lparr>sys_bus := b, sys_tick := t\<rparr>)"
  from this [rule_format, of "Suc (sys_tick s)"] show "wp (publish env e) Q s" by simp
qed

lemma harmless_fwd_publish [simp]: "harmless (fwd_publish env has_bus e)"
proof (cases has_bus)
  case False
  then show ?thesis
    unfolding harmless_def fwd_publish_def
  proof (intro allI impI)
    fix s :: "'a sys" and Q
    assume "\<forall>b t. sys_tick s \<le> t \<longrightarrow> Q () (s\<lparr>sys_bus := b, sys_tick := t\<rparr>)"
    from this [rule_format, of "sys_tick s" "sys_bus s"] False
    show "wp (if has_bus then publish env e else ret ()) Q s" by simp
  qed
qed (simp add: fwd_publish_def)

definition pair_of :: "matchPair \<Rightarrow> string \<times> string" where
  "pair_of p = (mp_IoCID p, mp_ComponentRef p)"

lemma pair_of_simps [simp]: "pair_of \<lparr>mp_IoCID = i, mp_ComponentRef = r\<rparr> = (i, r)"
  by (simp add: pair_of_def)

definition only_ticks :: "'s sys \<Rightarrow> 's sys \<Rightarrow> bool" where
  "only_ticks s s' \<longleftrightarrow> sys_tick s \<le> sys_tick s' \<and> s' = s\<lparr>sys_tick := sys_tick s'\<rparr>"

lemma only_ticks_simps [simp]:
  "only_ticks s (s\<lparr>sys_tick := t\<rparr>) \<longleftrightarrow> sys_tick s \<le> t" "only_ticks s s"
  by (simp_all add: only_ticks_def)

lemma only_ticks_trans: "only_ticks s s1 \<Longrightarrow> only_ticks s1 s2 \<Longrightarrow> only_ticks s s2"
  unfolding only_ticks_def by (cases s, cases s1, cases s2) simp

lemma only_ticks_Suc: "only_ticks (s\<lparr>sys_tick := Suc (sys_tick s)\<rparr>) s' \<Longrightarrow> only_ticks s s'"
  using only_ticks_trans [of s "s\<lparr>sys_tick := Suc (sys_tick s)\<rparr>" s'] by simp

lemma only_ticks_tick: "only_ticks (s\<lparr>sys_tick := t\<rparr>) s' \<Longrightarrow> sys_tick s \<le> t \<Longrightarrow> only_ticks s s'"
  using only_ticks_trans [of s "s\<lparr>sys_tick := t\<rparr>" s'] by simp

lemma only_ticks_store: "only_ticks s s' \<Longrightarrow> sys_store s' = sys_store s \<and> sys_tick s \<le> sys_tick s'"
  unfolding only_ticks_def by (cases s, cases s') simp

text \<open>The conditions under which the bulk lookup sees every package the evaluator sees.\<close>

definition bulk_safe :: "ioc \<Rightarrow> sbom \<Rightarrow> bool" where
  "bulk_safe i b \<longleftrightarrow> uniform b \<and> sbom_Ecosystem b \<noteq> [] \<and> ioc_Ecosystem i \<noteq> [] \<and>
     (ioc_AnomalyBody i \<noteq> None \<longrightarrow> CHR '':'' \<notin> set (sbom_Ecosystem b) \<and>
        (\<forall>p \<in> set (sbom_Packages b). pv_Name p \<noteq> []))"

lemma Matched_synthetic:
  "Matched (Evaluate sv i (synthetic_sbom eco p)) \<longleftrightarrow> compatible i eco \<and> fires sv i p"
  by (simp add: Matched_iff synthetic_sbom_def)

lemma anomaly_key:
  assumes "CHR '':'' \<notin> set eco" and "eco \<noteq> []" and "name \<noteq> []" and "eco @ '':'' @ name = ref"
  shows "Index ref '':'' = Some (length eco)" and "length eco \<noteq> length ref - 1"
    and "take (length eco) ref = eco" and "drop (length eco + 1) ref = name"
proof -
  have r: "ref = eco @ CHR '':'' # name" using assms(4) by simp
  show "Index ref '':'' = Some (length eco)" unfolding r by (rule Index_single_absent [OF assms(1)])
  show "length eco \<noteq> length ref - 1" using assms(3) by (simp add: r)
  show "take (length eco) ref = eco" "drop (length eco + 1) ref = name" by (simp_all add: r)
qed

lemma fires_key:
  assumes "fires sv i p" and "pv_Ecosystem p = eco" and "compatible i eco" and "ioc_Ecosystem i \<noteq> []"
    and "eco \<noteq> []" and "ioc_AnomalyBody i \<noteq> None \<longrightarrow> CHR '':'' \<notin> set eco \<and> pv_Name p \<noteq> []"
  shows "iocLookupKey i = Some (eco, pv_Name p)"
proof (cases "ioc_Kind i = IoCKindPublisherAnomaly")
  case True
  then obtain a where a: "ioc_AnomalyBody i = Some a" "eco @ '':'' @ pv_Name p = iba_PackageRef a"
    using assms(1,2) by (auto simp: fires_def)
  with assms True anomaly_key [OF _ _ _ a(2)] show ?thesis
    by (simp add: iocLookupKey_def)
next
  case False
  with assms show ?thesis by (auto simp: fires_def iocLookupKey_def compatible_def)
qed

lemma bulk_exact:
  assumes "bulk_safe i b"
  shows "Matched (Evaluate sv i b) \<longleftrightarrow> (\<exists>eco name. iocLookupKey i = Some (eco, name) \<and>
    sbom_Ecosystem b = eco \<and> (\<exists>p \<in> set (sbom_Packages b). pv_Name p = name \<and>
      Matched (Evaluate sv i (synthetic_sbom eco p))))"
proof
  assume "Matched (Evaluate sv i b)"
  then obtain p where p: "compatible i (sbom_Ecosystem b)" "p \<in> set (sbom_Packages b)" "fires sv i p"
    using Matched_iff by blast
  have "iocLookupKey i = Some (sbom_Ecosystem b, pv_Name p)"
    using assms p by (intro fires_key [OF p(3)]) (auto simp: bulk_safe_def uniform_def)
  with p show "\<exists>eco name. iocLookupKey i = Some (eco, name) \<and>
    sbom_Ecosystem b = eco \<and> (\<exists>p \<in> set (sbom_Packages b). pv_Name p = name \<and>
      Matched (Evaluate sv i (synthetic_sbom eco p)))"
    by (auto simp: Matched_synthetic)
next
  assume "\<exists>eco name. iocLookupKey i = Some (eco, name) \<and>
    sbom_Ecosystem b = eco \<and> (\<exists>p \<in> set (sbom_Packages b). pv_Name p = name \<and>
      Matched (Evaluate sv i (synthetic_sbom eco p)))"
  then show "Matched (Evaluate sv i b)"
    unfolding Matched_synthetic Matched_iff [of sv i b] by blast
qed

lemma row_refs:
  "{spr_ComponentRef q | q. (\<exists>b p. q = \<lparr>spr_ComponentRef = f b, spr_Package = p\<rparr> \<and> R b p) \<and> P (spr_Package q)} =
   {f b | b p. R b p \<and> P p}"
proof -
  have "(\<exists>q. r = spr_ComponentRef q \<and> (\<exists>b p. q = \<lparr>spr_ComponentRef = f b, spr_Package = p\<rparr> \<and> R b p) \<and>
      P (spr_Package q)) \<longleftrightarrow> (\<exists>b p. r = f b \<and> R b p \<and> P p)" for r
    by (metis sbom_package_ref.select_convs(1,2))
  then show ?thesis by simp
qed

lemma bulk_refs:
  assumes "\<And>b. b \<in> B \<Longrightarrow> bulk_safe i b" and "iocLookupKey i = Some (eco, name)"
  shows "{sbom_ComponentRef b | b p. b \<in> B \<and> sbom_Ecosystem b = eco \<and> p \<in> set (sbom_Packages b) \<and>
      pv_Name p = name \<and> Matched (Evaluate sv i (synthetic_sbom eco p))} =
    {sbom_ComponentRef b | b. b \<in> B \<and> Matched (Evaluate sv i b)}"
proof -
  have "Matched (Evaluate sv i b) \<longleftrightarrow> sbom_Ecosystem b = eco \<and> (\<exists>p \<in> set (sbom_Packages b).
      pv_Name p = name \<and> Matched (Evaluate sv i (synthetic_sbom eco p)))" if "b \<in> B" for b
    unfolding bulk_exact [OF assms(1) [OF that]] using assms(2) by auto
  then show ?thesis by blast
qed

lemma retro_pairs_set:
  "pair_of ` set (retro_pairs sv b seen is) =
     {(ioc_ID i, sbom_ComponentRef b) | i. i \<in> set is \<and> Matched (Evaluate sv i b) \<and>
        ioc_ID i \<notin> set seen}"
  by (induction sv b seen "is" rule: retro_pairs.induct) auto

lemma match_rows_set:
  "set (match_rows sv i eco seen ps) =
     {spr_ComponentRef p | p. p \<in> set ps \<and> Matched (Evaluate sv i (synthetic_sbom eco (spr_Package p))) \<and>
        spr_ComponentRef p \<notin> set seen}"
  by (induction sv i eco seen ps rule: match_rows.induct) auto

lemma distinct_match_rows: "distinct (match_rows sv i eco seen ps)"
  by (induction sv i eco seen ps rule: match_rows.induct) (auto simp: match_rows_set)

context storage_contract
begin

text \<open>What every step of a run keeps: a well-formed store and unused identifiers.\<close>

definition ready :: "env \<Rightarrow> 's sys \<Rightarrow> bool" where
  "ready env s \<longleftrightarrow> invar (sys_store s) \<and> ids_fresh env (sys_tick s) (abs (sys_store s))"

definition after :: "env \<Rightarrow> 's sys \<Rightarrow> 's sys \<Rightarrow> bool" where
  "after env s s' \<longleftrightarrow> ready env s' \<and> sys_tick s \<le> sys_tick s'"

lemma ready_tick:
  "ready env s \<Longrightarrow> sys_tick s \<le> t \<Longrightarrow> ready env (s\<lparr>sys_bus := b, sys_tick := t\<rparr>)"
  "ready env s \<Longrightarrow> sys_tick s \<le> t \<Longrightarrow> ready env (s\<lparr>sys_tick := t\<rparr>)"
  by (auto simp: ready_def intro: ids_fresh_mono)

lemma ready_insert_incident:
  assumes "quiet env" and "ready env s" and "sys_tick s < t" and "sys_tick s \<le> n" "n < t"
    and "inc_ID x = e_ulid env n"
  shows "ready env (s\<lparr>sys_store := snd (UpsertIncident ops (call_at env m) x (sys_store s)),
      sys_tick := t\<rparr>)"
  using assms upsert_incident [of "sys_store s" "call_at env m" x]
  by (auto simp: ready_def ids_fresh_def)

lemma open_pairs_spec:
  assumes "quiet env" and "\<And>e. harmless (pub e)" and "ready env s"
    and "\<And>i r. get idx (i, r) \<noteq> None \<longleftrightarrow> open_for (abs (sys_store s)) i r"
  shows "wp (open_pairs env ops pub now idx opened ps)
    (\<lambda>(out, err) s'. err = None \<and> after env s s' \<and>
      opens (pair_of ` set ps) (abs (sys_store s)) (abs (sys_store s'))) s"
  using assms(3,4)
proof (induction ps arbitrary: idx opened s)
  case Nil
  then show ?case by (simp add: after_def)
next
  case (Cons p ps)
  let ?d = "abs (sys_store s)"
  show ?case
  proof (cases "get idx (mp_IoCID p, mp_ComponentRef p) = None")
    case False
    then have o: "open_for ?d (mp_IoCID p) (mp_ComponentRef p)" using Cons.prems(2) by simp
    show ?thesis
      using False wp_mono [OF Cons.IH [OF Cons.prems, of opened]] opens_insert [OF o]
      by (auto simp: pair_of_def elim!: wp_mono)
  next
    case True
    let ?n = "sys_tick s"
    let ?x = "pending_incident (e_ulid env ?n) p now"
    let ?s = "s\<lparr>sys_store := snd (UpsertIncident ops (call_at env (Suc ?n)) ?x (sys_store s)),
      sys_tick := Suc (Suc ?n)\<rparr>"
    have no: "\<not> open_for ?d (mp_IoCID p) (mp_ComponentRef p)"
      using True Cons.prems(2) by metis
    have unused: "db_incidents ?d (e_ulid env ?n) = None"
      using Cons.prems(1) by (simp add: ready_def ids_fresh_def)
    have abs_s: "abs (sys_store ?s) = ?d\<lparr>db_incidents := (db_incidents ?d)(e_ulid env ?n \<mapsto> pending_incident (e_ulid env ?n) p (gran now))\<rparr>"
      using Cons.prems(1) upsert_incident [of "sys_store s" "call_at env (Suc ?n)" ?x] assms(1)
      by (simp add: ready_def)
    have step: "opens {pair_of p} ?d (abs (sys_store ?s))"
      unfolding abs_s pair_of_def by (rule opens_one [OF unused no])
    have ih: "wp (open_pairs env ops pub now (put (mp_IoCID p, mp_ComponentRef p) ?x idx) (opened @ [e_ulid env ?n]) ps)
      (\<lambda>(out, err) s'. err = None \<and> after env s s' \<and>
        opens (pair_of ` set (p # ps)) ?d (abs (sys_store s'))) (?s\<lparr>sys_bus := b, sys_tick := t\<rparr>)"
      if t: "Suc (Suc ?n) \<le> t" for b t
    proof (rule wp_mono, rule Cons.IH)
      have "ready env ?s"
        by (rule ready_insert_incident [OF assms(1) Cons.prems(1), of _ ?n]) simp_all
      then show "ready env (?s\<lparr>sys_bus := b, sys_tick := t\<rparr>)"
        by (rule ready_tick(1)) (simp add: t)
      show "get (put (mp_IoCID p, mp_ComponentRef p) ?x idx) (i, r) \<noteq> None \<longleftrightarrow>
          open_for (abs (sys_store (?s\<lparr>sys_bus := b, sys_tick := t\<rparr>))) i r" for i r
        using Cons.prems(2) [of i r] unused abs_s by (auto simp: open_for_upd)
      show "\<And>r s'. (case r of (out, err) \<Rightarrow> \<lambda>s'. err = None \<and>
          after env (?s\<lparr>sys_bus := b, sys_tick := t\<rparr>) s' \<and>
          opens (pair_of ` set ps) (abs (sys_store (?s\<lparr>sys_bus := b, sys_tick := t\<rparr>))) (abs (sys_store s'))) s' \<Longrightarrow>
        (case r of (out, err) \<Rightarrow> \<lambda>s'. err = None \<and> after env s s' \<and>
          opens (pair_of ` set (p # ps)) ?d (abs (sys_store s'))) s'"
        using t opens_trans [OF step] by (auto simp: after_def)
    qed
    show ?thesis
      using True upsert_incident_err [of "call_at env (Suc ?n)"] assms(1,2) ih
      by (simp add: harmless_def Let_def)
  qed
qed

lemma open_with_spec:
  assumes "quiet env" and "ready env s" and "\<And>e. harmless (pub e)"
  shows "wp (open_with env ops pub ps)
    (\<lambda>(out, err) s'. err = None \<and> after env s s' \<and>
      opens (pair_of ` set ps) (abs (sys_store s)) (abs (sys_store s'))) s"
proof (cases "ps = []")
  case True
  then show ?thesis using assms by (simp add: open_with_def after_def)
next
  case False
  let ?s = "s\<lparr>sys_tick := Suc (Suc (sys_tick s))\<rparr>"
  obtain xs where xs: "ListIncidents ops (call_at env (sys_tick s)) (sys_store s) = Inr xs"
      "bare ` set xs = ran (db_incidents (abs (sys_store s)))"
    using list_incidents [of "sys_store s" "call_at env (sys_tick s)"] assms by (auto simp: ready_def)
  have "get (foldl index_incident [] xs) (i, r) \<noteq> None \<longleftrightarrow> open_for (abs (sys_store ?s)) i r" for i r
    unfolding get_index using xs(2) by (simp add: open_for_bare)
  from open_pairs_spec [OF assms(1,3) _ this]
  have "wp (open_pairs env ops pub now (foldl index_incident [] xs) [] ps)
    (\<lambda>(out, err) s'. err = None \<and> after env ?s s' \<and>
      opens (pair_of ` set ps) (abs (sys_store ?s)) (abs (sys_store s'))) ?s" for now
    using assms(2) by (simp add: ready_tick)
  then have "wp (open_pairs env ops pub now (foldl index_incident [] xs) [] ps)
    (\<lambda>(out, err) s'. err = None \<and> after env s s' \<and>
      opens (pair_of ` set ps) (abs (sys_store s)) (abs (sys_store s'))) ?s" for now
    by (rule wp_mono) (auto simp: after_def)
  then show ?thesis using False xs(1) by (simp add: open_with_def)
qed

text \<open>The set of components an IoC hits: the specification of both forward matchers.\<close>

definition hit_refs :: "('c, 'v) semver \<Rightarrow> 's sys \<Rightarrow> ioc \<Rightarrow> string set" where
  "hit_refs sv s i = {sbom_ComponentRef b | b. b \<in> ran (db_sboms (abs (sys_store s))) \<and>
     Matched (Evaluate sv i b)}"

lemma retroactive_spec:
  assumes "quiet env" and "ready env s"
  shows "wp (retroactiveMatch sv env ops b)
    (\<lambda>r s'. \<exists>ps ids. r = Inr (ps, ids) \<and> only_ticks s s' \<and>
      pair_of ` set ps = {(ioc_ID i, sbom_ComponentRef b) | i.
        i \<in> ran (db_iocs (abs (sys_store s))) \<and> Matched (Evaluate sv i b)} \<and>
      set ids = mp_IoCID ` set ps) s"
proof -
  obtain xs where xs: "ListIoCs ops (call_at env (sys_tick s)) (sys_store s) = Inr xs"
      "set xs = ran (db_iocs (abs (sys_store s)))"
    using list_iocs [of "sys_store s" "call_at env (sys_tick s)"] assms by (auto simp: ready_def)
  then show ?thesis
    using assms(1) by (simp add: retroactiveMatch_def retro_pairs_set Let_def)
qed

lemma bulk_match_set:
  assumes "set xs = {\<lparr>spr_ComponentRef = sbom_ComponentRef b, spr_Package = p\<rparr> | b p.
      b \<in> ran (db_sboms (abs (sys_store s))) \<and> sbom_Ecosystem b = eco \<and> p \<in> set (sbom_Packages b) \<and>
      pv_Name p = name}"
    and "\<And>b. b \<in> ran (db_sboms (abs (sys_store s))) \<Longrightarrow> bulk_safe i b"
    and "iocLookupKey i = Some (eco, name)"
  shows "set (matchPackagesAgainstIoC sv i eco xs) = hit_refs sv s i"
proof -
  have "set (matchPackagesAgainstIoC sv i eco xs) = {spr_ComponentRef q | q. q \<in> set xs \<and>
      Matched (Evaluate sv i (synthetic_sbom eco (spr_Package q)))}"
    by (simp add: matchPackagesAgainstIoC_def match_rows_set)
  also have "\<dots> = {sbom_ComponentRef b | b p. (b \<in> ran (db_sboms (abs (sys_store s))) \<and>
      sbom_Ecosystem b = eco \<and> p \<in> set (sbom_Packages b) \<and> pv_Name p = name) \<and>
      Matched (Evaluate sv i (synthetic_sbom eco p))}"
    unfolding assms(1) mem_Collect_eq by (rule row_refs)
  also have "\<dots> = hit_refs sv s i"
    using bulk_refs [of "ran (db_sboms (abs (sys_store s)))" i eco name sv] assms(2,3)
    by (simp add: hit_refs_def conj_assoc)
  finally show ?thesis .
qed

text \<open>
  The bulk lookup finds what the walk over all SBOMs finds, as long as every SBOM names its
  ecosystem and only lists packages of that ecosystem, and the IoC names its ecosystem too.
\<close>

lemma forward_spec:
  assumes "quiet env" and "ready env s"
    and "\<And>b. b \<in> ran (db_sboms (abs (sys_store s))) \<Longrightarrow> bulk_safe i b"
  shows "wp (forwardMatch sv env ops i)
    (\<lambda>r s'. \<exists>refs. r = Inr (map (\<lambda>ref. \<lparr>mp_IoCID = ioc_ID i, mp_ComponentRef = ref\<rparr>) refs, refs) \<and>
      only_ticks s s' \<and> distinct refs \<and> set refs = hit_refs sv s i) s"
proof (cases "iocLookupKey i")
  case None
  then have "hit_refs sv s i = {}"
    using assms(3) by (auto simp: hit_refs_def bulk_exact)
  then show ?thesis using None by (simp add: forwardMatch_def)
next
  case (Some q)
  obtain eco name where q: "q = (eco, name)" by (cases q)
  have "uniform b" if "b \<in> ran (db_sboms (abs (sys_store s)))" for b
    using assms(3) [OF that] by (simp add: bulk_safe_def)
  then obtain xs where xs:
      "ListSBOMPackages ops (call_at env (sys_tick s)) eco name (sys_store s) = Inr xs"
      "set xs = {\<lparr>spr_ComponentRef = sbom_ComponentRef b, spr_Package = p\<rparr> | b p.
          b \<in> ran (db_sboms (abs (sys_store s))) \<and> sbom_Ecosystem b = eco \<and> p \<in> set (sbom_Packages b) \<and>
          pv_Name p = name}"
    using list_packages [of "sys_store s" "call_at env (sys_tick s)" eco name] assms
    by (auto simp: ready_def)
  have "set (matchPackagesAgainstIoC sv i eco xs) = hit_refs sv s i"
    by (rule bulk_match_set [OF xs(2)]) (use assms(3) Some q in auto)
  moreover have "distinct (matchPackagesAgainstIoC sv i eco xs)"
    by (simp add: matchPackagesAgainstIoC_def distinct_match_rows)
  ultimately show ?thesis using Some q xs(1) by (simp add: forwardMatch_def Let_def)
qed

lemma walk_spec:
  assumes "quiet env" and "ready env s" and "distinct seen"
  shows "wp (walk_components sv env ops i seen xs)
    (\<lambda>r s'. \<exists>refs. r = Inr refs \<and> only_ticks s s' \<and> distinct refs \<and>
      set refs = set seen \<union> {r \<in> comp_Ref ` set xs. r \<in> hit_refs sv s i}) s"
  using assms(2,3)
proof (induction xs arbitrary: s seen)
  case (Cons x xs)
  let ?s = "s\<lparr>sys_tick := Suc (sys_tick s)\<rparr>"
  obtain bs where bs: "ListSBOMsByComponent ops (call_at env (sys_tick s)) (comp_Ref x) (sys_store s) = Inr bs"
      "set bs = {b \<in> ran (db_sboms (abs (sys_store s))). sbom_ComponentRef b = comp_Ref x}"
    using list_sboms [of "sys_store s" "call_at env (sys_tick s)"] assms(1) Cons.prems(1)
    by (auto simp: ready_def)
  let ?seen = "if component_hit sv i seen (comp_Ref x) bs then seen @ [comp_Ref x] else seen"
  have hit: "component_hit sv i seen (comp_Ref x) bs \<longleftrightarrow>
      comp_Ref x \<in> hit_refs sv s i \<and> comp_Ref x \<notin> set seen"
    unfolding hit_refs_def component_hit_def list_ex_iff bs(2) by force
  have "hit_refs sv ?s i = hit_refs sv s i" by (simp add: hit_refs_def)
  then have "wp (walk_components sv env ops i ?seen xs)
    (\<lambda>r s'. \<exists>refs. r = Inr refs \<and> only_ticks s s' \<and> distinct refs \<and>
      set refs = set seen \<union> {r \<in> comp_Ref ` set (x # xs). r \<in> hit_refs sv s i}) ?s"
    using Cons.prems hit
    by (intro wp_mono [OF Cons.IH [of ?s ?seen]])
      (auto simp: ready_tick intro: only_ticks_Suc)
  then show ?case using bs(1) by simp
qed simp

lemma fwd_forward_spec:
  assumes "quiet env" and "ready env s"
    and "hit_refs sv s i \<subseteq> dom (db_components (abs (sys_store s)))"
  shows "wp (fwd_forwardMatch sv env ops i)
    (\<lambda>r s'. \<exists>refs. r = Inr (map (\<lambda>ref. \<lparr>mp_IoCID = ioc_ID i, mp_ComponentRef = ref\<rparr>) refs, refs) \<and>
      only_ticks s s' \<and> distinct refs \<and> set refs = hit_refs sv s i) s"
proof -
  let ?s = "s\<lparr>sys_tick := Suc (sys_tick s)\<rparr>"
  obtain xs where xs: "ListComponents ops (call_at env (sys_tick s)) (sys_store s) = Inr xs"
      "set xs = ran (db_components (abs (sys_store s)))"
    using list_components [of "sys_store s" "call_at env (sys_tick s)"] assms(1,2)
    by (auto simp: ready_def)
  have "comp_Ref x = k" if "db_components (abs (sys_store s)) k = Some x" for k x
    using keys [of "sys_store s"] assms(2) that by (simp add: ready_def keyed_def)
  then have "comp_Ref ` set xs = dom (db_components (abs (sys_store s)))"
    unfolding xs(2) by (force simp: ran_def dom_def image_iff)
  then have e: "{r \<in> comp_Ref ` set xs. r \<in> hit_refs sv s i} = hit_refs sv s i"
    using assms(3) by blast
  have h: "hit_refs sv ?s i = hit_refs sv s i" by (simp add: hit_refs_def)
  have "wp (walk_components sv env ops i [] xs)
      (\<lambda>r s'. \<exists>refs. r = Inr refs \<and> only_ticks s s' \<and> distinct refs \<and> set refs = hit_refs sv s i) ?s"
    using walk_spec [OF assms(1) ready_tick(2) [OF assms(2), of "Suc (sys_tick s)"], of "[]" sv i xs]
    by (simp add: e h) (erule wp_mono, auto intro: only_ticks_Suc)
  then have "wp (walk_components sv env ops i [] xs) (\<lambda>r. wp (case r of Inl e \<Rightarrow> ret (Inl e)
      | Inr matched \<Rightarrow> ret (Inr (map (\<lambda>ref. \<lparr>mp_IoCID = ioc_ID i, mp_ComponentRef = ref\<rparr>) matched, matched)))
      (\<lambda>r s'. \<exists>refs. r = Inr (map (\<lambda>ref. \<lparr>mp_IoCID = ioc_ID i, mp_ComponentRef = ref\<rparr>) refs, refs) \<and>
        only_ticks s s' \<and> distinct refs \<and> set refs = hit_refs sv s i)) ?s"
    by (rule wp_mono) auto
  then show ?thesis using xs(1) by (simp add: fwd_forwardMatch_def)
qed

lemma ready_upsert_ioc:
  assumes "quiet env" and "ready env s" and "sys_tick s \<le> t"
  shows "ready env (s\<lparr>sys_store := snd (UpsertIoC ops (call_at env n) i (sys_store s)), sys_tick := t\<rparr>)"
    and "abs (snd (UpsertIoC ops (call_at env n) i (sys_store s))) =
      (abs (sys_store s))\<lparr>db_iocs := (db_iocs (abs (sys_store s)))(ioc_ID i \<mapsto> stored_ioc gran i)\<rparr>"
    and "fst (UpsertIoC ops (call_at env n) i (sys_store s)) = None"
  using assms upsert_ioc [of "sys_store s" "call_at env n" i] upsert_ioc_err [of "call_at env n" i]
  by (auto simp: ready_def ids_fresh_def)

lemma ready_only_ticks: "ready env s \<Longrightarrow> only_ticks s s' \<Longrightarrow> ready env s'"
  using only_ticks_store [of s s'] by (auto simp: ready_def intro: ids_fresh_mono)

lemma submit_spec:
  assumes "quiet env" and "ready env s"
    and "hit_refs sv s i \<subseteq> dom (db_components (abs (sys_store s)))"
  shows "wp (Submit sv env ops has_bus i)
    (\<lambda>(res, err) s'. err = None \<and> after env s s' \<and> set (MatchedComponents res) = hit_refs sv s i \<and>
      opens ((\<lambda>r. (ioc_ID i, r)) ` hit_refs sv s i)
        ((abs (sys_store s))\<lparr>db_iocs := (db_iocs (abs (sys_store s)))(ioc_ID i \<mapsto> stored_ioc gran i)\<rparr>)
        (abs (sys_store s'))) s"
proof -
  let ?n = "sys_tick s"
  let ?s = "s\<lparr>sys_store := snd (UpsertIoC ops (call_at env ?n) i (sys_store s)), sys_tick := Suc ?n\<rparr>"
  note u = ready_upsert_ioc [OF assms(1,2), of "Suc ?n" ?n i, simplified]
  have h: "hit_refs sv ?s i = hit_refs sv s i" by (simp add: hit_refs_def u(2))
  have fwd: "wp (fwd_forwardMatch sv env ops i)
    (\<lambda>r s'. \<exists>refs. r = Inr (map (\<lambda>ref. \<lparr>mp_IoCID = ioc_ID i, mp_ComponentRef = ref\<rparr>) refs, refs) \<and>
      only_ticks ?s s' \<and> distinct refs \<and> set refs = hit_refs sv s i) ?s"
    using fwd_forward_spec [OF assms(1) u(1), of sv i] assms(3) u(2) by (simp add: h)
  have opn: "wp (fwd_openIncidentsForMatches env ops has_bus
        (map (\<lambda>ref. \<lparr>mp_IoCID = ioc_ID i, mp_ComponentRef = ref\<rparr>) refs))
      (\<lambda>(out, err) s''. err = None \<and> after env s s'' \<and>
        opens ((\<lambda>r. (ioc_ID i, r)) ` set refs) (abs (sys_store ?s)) (abs (sys_store s''))) s'"
    if "only_ticks ?s s'" for refs s'
  proof -
    have "ready env s'" using ready_only_ticks u(1) that by blast
    from open_with_spec [OF assms(1) this harmless_fwd_publish]
    show ?thesis
      unfolding fwd_openIncidentsForMatches_def
      by (rule wp_mono) (use only_ticks_store [OF that] in \<open>auto simp: after_def image_image\<close>)
  qed
  show ?thesis
    unfolding Submit_def
    apply (simp add: u(3))
    apply (rule wp_mono [OF fwd])
    apply clarsimp
    apply (rule wp_mono [OF opn], assumption)
    apply (auto simp: u(2) Let_def after_def ready_tick split: if_splits)
    done
qed

end

section \<open>Properties\<close>

lemma opens_idem:
  assumes "opens P d d'" and "\<And>i r. (i, r) \<in> P \<Longrightarrow> open_for d i r"
  shows "d' = d"
proof -
  have "db_incidents d' k = db_incidents d k" for k
  proof (cases "db_incidents d k")
    case None
    have "db_incidents d' k \<noteq> Some x" for x
      using assms None unfolding opens_def by blast
    then show ?thesis using None by (metis not_Some_eq)
  next
    case (Some x)
    then show ?thesis using assms(1) by (simp add: opens_def map_le_def dom_def)
  qed
  then show ?thesis using assms(1) unfolding opens_def by (cases d, cases d') auto
qed

text \<open>
  C9. Incidents are opened once: for every (IoC, component) pair handed to the function there is an
  open incident afterwards; the new incidents are pending, name exactly one requested pair that had
  none, and never touch existing rows; at most one open incident per pair is kept; and a second call
  with the same pairs changes nothing, whatever clock, identifiers and map order it meets.
\<close>

theorem incidents_opened_once:
  assumes "quiet env" and "store_ok (sys_store s)" and "ids_fresh env (sys_tick s) (mem_abs (sys_store s))"
  shows "wp (openIncidentsForMatches env memory ps)
    (\<lambda>(out, err) s'. err = None \<and> store_ok (sys_store s') \<and>
      opens (pair_of ` set ps) (mem_abs (sys_store s)) (mem_abs (sys_store s')) \<and>
      wp (openIncidentsForMatches env memory ps)
        (\<lambda>(out, err) s''. err = None \<and> mem_abs (sys_store s'') = mem_abs (sys_store s')) s') s"
proof -
  have r: "mem.ready env s" using assms by (simp add: mem.ready_def)
  show ?thesis
    unfolding openIncidentsForMatches_def
  proof (rule wp_mono [OF mem.open_with_spec [OF assms(1) r harmless_publish]], clarify)
    fix out s'
    assume a: "mem.after env s s'" "opens (pair_of ` set ps) (mem_abs (sys_store s)) (mem_abs (sys_store s'))"
    have all: "open_for (mem_abs (sys_store s')) i r" if "(i, r) \<in> pair_of ` set ps" for i r
      using a(2) that unfolding opens_def by blast
    have "mem.ready env s'" using a(1) by (simp add: mem.after_def)
    from mem.open_with_spec [OF assms(1) this harmless_publish]
    have "wp (open_with env memory (publish env) ps)
        (\<lambda>(out, err) s''. err = None \<and> mem_abs (sys_store s'') = mem_abs (sys_store s')) s'"
      by (rule wp_mono) (use opens_idem [OF _ all] in auto)
    with a show "None = None \<and> store_ok (sys_store s') \<and>
        opens (pair_of ` set ps) (mem_abs (sys_store s)) (mem_abs (sys_store s')) \<and>
        wp (open_with env memory (publish env) ps)
          (\<lambda>(out, err) s''. err = None \<and> mem_abs (sys_store s'') = mem_abs (sys_store s')) s'"
      by (simp add: mem.after_def mem.ready_def)
  qed
qed

definition sample_sys :: "store sys" where
  "sample_sys = \<lparr>sys_store = mem_New, sys_bus = NewBus 8, sys_tick = 0\<rparr>"

lemma sample_sys_fresh:
  "store_ok (sys_store sample_sys)"
  "ids_fresh sample_env (sys_tick sample_sys) (mem_abs (sys_store sample_sys))"
  by (simp_all add: sample_sys_def ids_fresh_def) (simp add: mem_New_def)

theorem incidents_opened_once_witness:
  "wp (openIncidentsForMatches sample_env memory [\<lparr>mp_IoCID = ''i'', mp_ComponentRef = ''c''\<rparr>])
    (\<lambda>(out, err) s'. err = None \<and> open_for (mem_abs (sys_store s')) ''i'' ''c'') sample_sys"
  by (rule wp_mono [OF incidents_opened_once [OF quiet_sample sample_sys_fresh]])
    (auto simp: opens_def)


definition sample_semver :: "(string, string) semver" where
  "sample_semver = \<lparr>NewConstraint = Some, NewVersion = Some, Check = (=), Major = (\<lambda>_. 0),
     Minor = (\<lambda>_. 0), Prerelease = (\<lambda>_. []), VersionEqual = (=), Original = (\<lambda>v. v)\<rparr>"

definition sample_package :: package_version where
  "sample_package = \<lparr>pv_Ecosystem = ''npm'', pv_Name = ''axios'', pv_Version = ''1.11.0'',
     pv_PURL = ''pkg:npm/axios@1.11.0'', pv_Scope = [], pv_Integrity = []\<rparr>"

definition sample_sbom :: sbom where
  "sample_sbom = \<lparr>sbom_ID = ''s1'', sbom_ComponentRef = ''kind:Component/default/web'',
     sbom_CommitSHA = [], sbom_Ecosystem = ''npm'', sbom_GeneratedAt = 1,
     sbom_Packages = [sample_package], sbom_SourceFormat = ''npm-package-lock-v3'', sbom_SourceBytes = 9\<rparr>"

definition sample_component :: component where
  "sample_component = \<lparr>comp_Ref = ''kind:Component/default/web'', comp_Kind = ''Component'',
     comp_Namespace = ''default'', comp_Name = ''web'', comp_Owner = ''team'', comp_System = [],
     comp_Lifecycle = [], comp_Tags = [], comp_Annotations = []\<rparr>"

definition sample_ioc :: ioc where
  "sample_ioc = \<lparr>ioc_ID = ''ioc1'', ioc_Kind = IoCKindPackageVersion, ioc_Severity = SeverityCritical,
     ioc_Ecosystem = ''npm'', ioc_Source = [], ioc_PublishedAt = 2, ioc_Description = [],
     ioc_PackageVersion = Some \<lparr>ipv_Name = ''axios'', ipv_Version = ''1.11.0'', ipv_PURL = []\<rparr>,
     ioc_PackageRange = None, ioc_PublisherAnomaly = None, ioc_AnomalyBody = None\<rparr>"

definition loaded_sys :: "store sys" where
  "loaded_sys = sample_sys\<lparr>sys_store := snd (mem_UpsertSBOM plain_call sample_sbom
     (snd (mem_UpsertComponent plain_call sample_component mem_New)))\<rparr>"

lemma loaded_sys_fresh:
  "store_ok (sys_store loaded_sys)"
  "ids_fresh sample_env (sys_tick loaded_sys) (mem_abs (sys_store loaded_sys))"
proof -
  show "store_ok (sys_store loaded_sys)" by (simp add: loaded_sys_def store_ok_ops)
  have "replicate n CHR ''I'' \<noteq> ''s1''" for n by (cases n) simp_all
  then show "ids_fresh sample_env (sys_tick loaded_sys) (mem_abs (sys_store loaded_sys))"
    by (simp add: loaded_sys_def ids_fresh_def mem_upsert_defs mem_New_def sample_env_def sample_sbom_def)
qed


end
