(* ===== verification/Api.thy ===== *)
theory Api
  imports Matching Lockfiles
begin

text \<open>
  The wire types of the HTTP API as \<^verbatim>\<open>engine/api/gen\<close> declares them (an optional JSON field is an
  option), the conversions between them and the domain types in \<^verbatim>\<open>engine/internal/api\<close>, and the
  responses the handlers write. A handler receives its request body as the JSON decoder left it:
  the decoder's error message, or the decoded value.
\<close>

section \<open>Wire types\<close>

record gen_component =
  gc_Ref :: string
  gc_Kind :: string
  gc_Namespace :: string
  gc_Name :: string
  gc_Owner :: "string option"
  gc_System :: "string option"
  gc_Lifecycle :: "string option"
  gc_Tags :: "string list option"
  gc_Annotations :: "(string, string) gomap option"

record gen_package_version =
  gp_Ecosystem :: string
  gp_Name :: string
  gp_Version :: string
  gp_Purl :: string
  gp_Integrity :: "string option"
  gp_Scope :: "string list option"

record gen_sbom =
  gs_Id :: string
  gs_ComponentRef :: string
  gs_Ecosystem :: string
  gs_GeneratedAt :: time
  gs_SourceFormat :: string
  gs_CommitSha :: "string option"
  gs_SourceBytes :: "int option"
  gs_Packages :: "gen_package_version list option"

record gen_sbom_submission =
  gss_CommitSha :: "string option"
  gss_Content :: string
  gss_Ecosystem :: string
  gss_SourceFormat :: string

record gen_publisher_anomaly =
  gpa_PublisherName :: string
  gpa_Signals :: "publisher_signal list option"

record gen_body_anomaly =
  gba_Kind :: string
  gba_Confidence :: string
  gba_Explanation :: "string option"
  gba_PackageRef :: string
  gba_Evidence :: "anymap option"

record gen_ioc =
  gi_Id :: string
  gi_Kind :: string
  gi_Severity :: string
  gi_Ecosystem :: string
  gi_PublishedAt :: time
  gi_Source :: "string option"
  gi_Description :: "string option"
  gi_PackageVersion :: "ioc_package_version option"
  gi_PackageRange :: "ioc_package_range option"
  gi_PublisherAnomaly :: "gen_publisher_anomaly option"
  gi_AnomalyBody :: "gen_body_anomaly option"

record gen_remediation =
  gr_Id :: string
  gr_IncidentId :: string
  gr_Kind :: string
  gr_ExecutedAt :: time
  gr_ActorRef :: "string option"
  gr_Details :: "anymap option"

record gen_incident =
  gn_Id :: string
  gn_IocId :: string
  gn_State :: string
  gn_OpenedAt :: time
  gn_LastTransitionedAt :: time
  gn_AffectedComponentsSnapshot :: "string list option"
  gn_Remediations :: "gen_remediation list option"

record gen_incident_detail =
  gd_Incident :: gen_incident
  gd_Ioc :: "gen_ioc option"
  gd_AffectedComponents :: "gen_component list option"

record gen_anomaly =
  ga_Id :: int
  ga_Kind :: string
  ga_PackageRef :: string
  ga_DetectedAt :: time
  ga_Confidence :: string
  ga_Explanation :: string
  ga_Evidence :: "anymap option"

record gen_maintainer =
  gm_Email :: "string option"
  gm_Name :: "string option"
  gm_Username :: "string option"

record gen_snapshot =
  gx_Id :: int
  gx_PackageRef :: string
  gx_SnapshotAt :: time
  gx_Maintainers :: "gen_maintainer list option"
  gx_LatestVersion :: "string option"
  gx_LatestVersionPublishedAt :: "time option"
  gx_PublishMethod :: "string option"
  gx_SourceRepoURL :: "string option"

record list_incidents_params =
  lip_State :: "string list option"
  lip_Ecosystem :: "string list option"
  lip_From :: "time option"
  lip_Since :: "time option"
  lip_To :: "time option"
  lip_Search :: "string option"
  lip_Owner :: "string option"
  lip_Limit :: "int option"

record list_anomalies_params =
  lap_PackageRef :: "string option"
  lap_Kind :: "string option"
  lap_From :: "time option"
  lap_To :: "time option"
  lap_Limit :: "int option"

section \<open>Conversions\<close>

text \<open>A pointer to a value that is only set when the value is not empty.\<close>

definition nonempty :: "'a list \<Rightarrow> 'a list option" where
  "nonempty xs = (if xs = [] then None else Some xs)"

definition deref :: "'a list option \<Rightarrow> 'a list" where
  "deref p = (case p of None \<Rightarrow> [] | Some xs \<Rightarrow> xs)"

definition toGenComponent :: "component \<Rightarrow> gen_component" where
  "toGenComponent c = \<lparr>gc_Ref = comp_Ref c, gc_Kind = comp_Kind c, gc_Namespace = comp_Namespace c,
     gc_Name = comp_Name c, gc_Owner = nonempty (comp_Owner c), gc_System = nonempty (comp_System c),
     gc_Lifecycle = nonempty (comp_Lifecycle c), gc_Tags = nonempty (comp_Tags c),
     gc_Annotations = nonempty (comp_Annotations c)\<rparr>"

definition fromGenComponent :: "gen_component \<Rightarrow> component" where
  "fromGenComponent g = \<lparr>comp_Ref = gc_Ref g, comp_Kind = gc_Kind g, comp_Namespace = gc_Namespace g,
     comp_Name = gc_Name g, comp_Owner = deref (gc_Owner g), comp_System = deref (gc_System g),
     comp_Lifecycle = deref (gc_Lifecycle g), comp_Tags = deref (gc_Tags g),
     comp_Annotations = deref (gc_Annotations g)\<rparr>"

definition toGenPackageVersion :: "package_version \<Rightarrow> gen_package_version" where
  "toGenPackageVersion p = \<lparr>gp_Ecosystem = pv_Ecosystem p, gp_Name = pv_Name p,
     gp_Version = pv_Version p, gp_Purl = pv_PURL p, gp_Integrity = nonempty (pv_Integrity p),
     gp_Scope = nonempty (pv_Scope p)\<rparr>"

definition toGenSBOM :: "sbom \<Rightarrow> gen_sbom" where
  "toGenSBOM b = \<lparr>gs_Id = sbom_ID b, gs_ComponentRef = sbom_ComponentRef b,
     gs_Ecosystem = sbom_Ecosystem b, gs_GeneratedAt = sbom_GeneratedAt b,
     gs_SourceFormat = sbom_SourceFormat b, gs_CommitSha = nonempty (sbom_CommitSHA b),
     gs_SourceBytes = (if sbom_SourceBytes b > 0 then Some (sbom_SourceBytes b) else None),
     gs_Packages = nonempty (map toGenPackageVersion (sbom_Packages b))\<rparr>"

definition fromGenIoC :: "gen_ioc \<Rightarrow> ioc" where
  "fromGenIoC g = \<lparr>ioc_ID = gi_Id g, ioc_Kind = gi_Kind g, ioc_Severity = gi_Severity g,
     ioc_Ecosystem = gi_Ecosystem g, ioc_Source = deref (gi_Source g),
     ioc_PublishedAt = gi_PublishedAt g, ioc_Description = deref (gi_Description g),
     ioc_PackageVersion = gi_PackageVersion g, ioc_PackageRange = gi_PackageRange g,
     ioc_PublisherAnomaly = map_option (\<lambda>p. \<lparr>ipa_PublisherName = gpa_PublisherName p, ipa_Signals = []\<rparr>)
       (gi_PublisherAnomaly g),
     ioc_AnomalyBody = None\<rparr>"

definition toGenIoC :: "ioc \<Rightarrow> gen_ioc" where
  "toGenIoC i = \<lparr>gi_Id = ioc_ID i, gi_Kind = ioc_Kind i, gi_Severity = ioc_Severity i,
     gi_Ecosystem = ioc_Ecosystem i, gi_PublishedAt = ioc_PublishedAt i,
     gi_Source = nonempty (ioc_Source i), gi_Description = nonempty (ioc_Description i),
     gi_PackageVersion = ioc_PackageVersion i, gi_PackageRange = ioc_PackageRange i,
     gi_PublisherAnomaly = map_option (\<lambda>p. \<lparr>gpa_PublisherName = ipa_PublisherName p, gpa_Signals = None\<rparr>)
       (ioc_PublisherAnomaly i),
     gi_AnomalyBody = None\<rparr>"

definition toGenRemediation :: "remediation \<Rightarrow> gen_remediation" where
  "toGenRemediation r = \<lparr>gr_Id = rem_ID r, gr_IncidentId = rem_IncidentID r, gr_Kind = rem_Kind r,
     gr_ExecutedAt = rem_ExecutedAt r, gr_ActorRef = nonempty (rem_ActorRef r),
     gr_Details = nonempty (rem_Details r)\<rparr>"

definition toGenIncident :: "incident \<Rightarrow> gen_incident" where
  "toGenIncident i = \<lparr>gn_Id = inc_ID i, gn_IocId = inc_IoCID i, gn_State = inc_State i,
     gn_OpenedAt = inc_OpenedAt i, gn_LastTransitionedAt = inc_LastTransitionedAt i,
     gn_AffectedComponentsSnapshot = nonempty (inc_AffectedComponentsSnapshot i),
     gn_Remediations = nonempty (map toGenRemediation (inc_Remediations i))\<rparr>"

definition anomalyToWire :: "anomaly \<Rightarrow> gen_anomaly" where
  "anomalyToWire a = \<lparr>ga_Id = anom_ID a, ga_Kind = anom_Kind a, ga_PackageRef = anom_PackageRef a,
     ga_DetectedAt = anom_DetectedAt a, ga_Confidence = anom_Confidence a,
     ga_Explanation = anom_Explanation a, ga_Evidence = nonempty (anom_Evidence a)\<rparr>"

definition optionalNonEmpty :: "string \<Rightarrow> string option" where
  "optionalNonEmpty s = (if s = [] then None else Some s)"

definition snapshotToWire :: "publisher_snapshot \<Rightarrow> gen_snapshot" where
  "snapshotToWire snap = \<lparr>gx_Id = snap_ID snap, gx_PackageRef = snap_PackageRef snap,
     gx_SnapshotAt = snap_SnapshotAt snap,
     gx_Maintainers = nonempty (map (\<lambda>m. \<lparr>gm_Email = optionalNonEmpty (mt_Email m),
       gm_Name = optionalNonEmpty (mt_Name m), gm_Username = optionalNonEmpty (mt_Username m)\<rparr>)
       (snap_Maintainers snap)),
     gx_LatestVersion = nonempty (snap_LatestVersion snap),
     gx_LatestVersionPublishedAt = snap_LatestVersionPublishedAt snap,
     gx_PublishMethod = nonempty (snap_PublishMethod snap),
     gx_SourceRepoURL = (case snap_SourceRepoURL snap of
        None \<Rightarrow> None
      | Some u \<Rightarrow> if u \<noteq> [] then Some u else None)\<rparr>"

section \<open>Responses\<close>

text \<open>
  The text of an error response: a literal, a decoder or parser message, an engine error, or the
  message of an error that a third-party library returned.
\<close>

datatype message = Text string | Err error | ParseErr parse_error | Foreign

datatype payload =
    Health string
  | Comp gen_component
  | Comps "gen_component list"
  | Sbom gen_sbom
  | Sboms "gen_sbom list"
  | IoCBody gen_ioc
  | IoCs "gen_ioc list"
  | Incident gen_incident
  | Incidents "gen_incident list"
  | Detail gen_incident_detail
  | Rem gen_remediation
  | Radius "string list" time
  | Anom gen_anomaly
  | Anoms "gen_anomaly list"
  | History "gen_snapshot list"
  | Token string time

datatype response = JSON nat payload | Failed nat string message

definition StatusOK :: nat where "StatusOK = 200"
definition StatusCreated :: nat where "StatusCreated = 201"
definition StatusBadRequest :: nat where "StatusBadRequest = 400"
definition StatusUnauthorized :: nat where "StatusUnauthorized = 401"
definition StatusNotFound :: nat where "StatusNotFound = 404"
definition StatusConflict :: nat where "StatusConflict = 409"
definition StatusInternalServerError :: nat where "StatusInternalServerError = 500"
definition StatusServiceUnavailable :: nat where "StatusServiceUnavailable = 503"

lemmas status_defs = StatusOK_def StatusCreated_def StatusBadRequest_def StatusUnauthorized_def
  StatusNotFound_def StatusConflict_def StatusInternalServerError_def StatusServiceUnavailable_def

definition writeError :: "nat \<Rightarrow> string \<Rightarrow> message \<Rightarrow> response" where
  "writeError status code msg = Failed status code msg"

definition writeJSON :: "nat \<Rightarrow> payload \<Rightarrow> response" where
  "writeJSON status v = JSON status v"

section \<open>Properties of the conversions\<close>

lemma deref_nonempty [simp]: "deref (nonempty xs) = xs"
  by (simp add: deref_def nonempty_def)

lemma nonempty_deref: "p \<noteq> Some [] \<Longrightarrow> nonempty (deref p) = p"
  by (auto simp: deref_def nonempty_def split: option.splits)

text \<open>
  Components survive the wire: converting a component to its wire form and back gives the same
  component, so an update that sends back what the API returned changes nothing.
\<close>

theorem component_wire_roundtrip: "fromGenComponent (toGenComponent c) = c"
  by (simp add: fromGenComponent_def toGenComponent_def)

text \<open>
  C21. IoCs do not all survive the wire. A valid IoC whose body is a package version or a package
  range comes back unchanged, and is valid again; a valid IoC with an anomaly body loses it and is
  rejected when it comes back.
\<close>

theorem ioc_wire_roundtrip:
  assumes "ioc_Validate i = None"
  shows "(ioc_PublisherAnomaly i = None \<and> ioc_AnomalyBody i = None \<longrightarrow> fromGenIoC (toGenIoC i) = i) \<and>
    (ioc_AnomalyBody i \<noteq> None \<longrightarrow>
       ioc_Validate (fromGenIoC (toGenIoC i)) = Some (ErrInvalidIoC (BodyCount 0)))"
  using assms
  by (cases i) (auto simp: fromGenIoC_def toGenIoC_def ioc_Validate_def one_if_def Let_def
      split: option.splits if_splits)

definition anomaly_ioc :: ioc where
  "anomaly_ioc = sample_ioc\<lparr>ioc_Kind := IoCKindPublisherAnomaly, ioc_PackageVersion := None,
     ioc_AnomalyBody := Some \<lparr>iba_Kind = AnomalyKindVersionJump, iba_Confidence = ConfidenceHigh,
       iba_Explanation = [], iba_PackageRef = ''npm:axios'', iba_Evidence = []\<rparr>\<rparr>"

theorem ioc_wire_roundtrip_witness:
  "fromGenIoC (toGenIoC sample_ioc) = sample_ioc \<and>
   ioc_Validate (fromGenIoC (toGenIoC anomaly_ioc)) = Some (ErrInvalidIoC (BodyCount 0))"
proof -
  have "ioc_Validate sample_ioc = None" "ioc_Validate anomaly_ioc = None"
    by (simp_all add: ioc_Validate_def anomaly_ioc_def sample_ioc_def one_if_def)
  then show ?thesis
    using ioc_wire_roundtrip [of sample_ioc] ioc_wire_roundtrip [of anomaly_ioc]
    by (simp add: sample_ioc_def anomaly_ioc_def)
qed

end
