(* ===== verification/Access.thy ===== *)
theory Access
  imports Api
begin

text \<open>
  \<^verbatim>\<open>engine/internal/api/middleware\<close> and \<^verbatim>\<open>handlers_auth.go\<close>: JWT authentication, the token endpoint, CORS, and the
  order \<^verbatim>\<open>Server.Handler\<close> puts them in.

  The JWT library, PEM decoding and X.509 parsing are not part of the repository: they are the fields
  of \<open>jwt_lib\<close>, and \<open>jwt_sound\<close> and \<open>jwt_round_trip\<close> state what the code relies on.
\<close>

section \<open>The JWT library as a parameter\<close>

datatype signing_key = HMACSecret string | RSAPublicKey string

record claims =
  cl_Scope :: string
  cl_Subject :: string
  cl_Audience :: "string list"
  cl_IssuedAt :: time
  cl_NotBefore :: time
  cl_ExpiresAt :: time

text \<open>
  \<open>ParseWithClaims\<close> takes the valid methods, the time, the expected audience (empty for none) and what
  the key function answers.
\<close>

record jwt_lib =
  ParseWithClaims :: "string list \<Rightarrow> time \<Rightarrow> string \<Rightarrow> string + signing_key \<Rightarrow> string \<Rightarrow> string + claims"
  SignedString :: "string \<Rightarrow> claims \<Rightarrow> string + string"
  pem_Decode :: "string \<Rightarrow> string option"
  ParsePKIXPublicKey :: "string \<Rightarrow> string + signing_key"

text \<open>\<^verbatim>\<open>jwt.NewNumericDate\<close> truncates to seconds.\<close>

definition NewNumericDate :: "time \<Rightarrow> time" where
  "NewNumericDate t = t div Second * Second"

section \<open>Authentication\<close>

record auth_options =
  Enabled :: bool
  SigningKey :: string
  Algorithm :: string
  Audience :: string
  ExemptPaths :: "string list"

definition DefaultExemptPaths :: "string list" where
  "DefaultExemptPaths = [''/healthz'', ''/readyz'', ''/v1/auth/token'', ''/v1/stream'']"

definition ScopeRead :: string where "ScopeRead = ''read''"
definition ScopeWrite :: string where "ScopeWrite = ''write''"
definition ScopeAdmin :: string where "ScopeAdmin = ''admin''"

record principal =
  Subject :: string
  Scope :: string

definition isExempt :: "string \<Rightarrow> string list \<Rightarrow> bool" where
  "isExempt path exemptions = list_ex (\<lambda>p. path = p \<or> HasPrefix path (p @ ''/'')) exemptions"

definition bearerToken :: "string \<Rightarrow> string" where
  "bearerToken header = (if \<not> HasPrefix header ''Bearer '' then [] else TrimSpace (drop (length ''Bearer '') header))"

definition allowedMethods :: "string \<Rightarrow> string list" where
  "allowedMethods alg = (if ToUpper alg = ''RS256'' then [''RS256''] else [''HS256''])"

definition keyFunc :: "jwt_lib \<Rightarrow> auth_options \<Rightarrow> string + signing_key" where
  "keyFunc lib opts =
     (if SigningKey opts = [] then Inl ''signing key not configured''
      else if ToUpper (Algorithm opts) = ''RS256'' then
        (case pem_Decode lib (SigningKey opts) of
           None \<Rightarrow> Inl ''RS256 signing key is not PEM-encoded''
         | Some der \<Rightarrow>
             (case ParsePKIXPublicKey lib der of
                Inl e \<Rightarrow> Inl (''parse RSA public key: '' @ e)
              | Inr (RSAPublicKey k) \<Rightarrow> Inr (RSAPublicKey k)
              | Inr (HMACSecret _) \<Rightarrow> Inl ''RS256 key is not an RSA public key''))
      else Inr (HMACSecret (SigningKey opts)))"

definition normaliseScope :: "string \<Rightarrow> string" where
  "normaliseScope s =
     (let t = ToLower (TrimSpace s) in
      if t = ''write'' then ScopeWrite else if t = ''admin'' then ScopeAdmin else ScopeRead)"

definition validate :: "jwt_lib \<Rightarrow> time \<Rightarrow> string \<Rightarrow> auth_options \<Rightarrow> string + principal" where
  "validate lib now raw opts =
     (case ParseWithClaims lib (allowedMethods (Algorithm opts)) now (Audience opts) (keyFunc lib opts) raw of
        Inl e \<Rightarrow> Inl e
      | Inr cl \<Rightarrow>
          if cl_Subject cl = [] then Inl ''sub claim missing''
          else Inr \<lparr>Subject = cl_Subject cl, Scope = normaliseScope (cl_Scope cl)\<rparr>)"

record http_request =
  rq_Method :: string
  rq_Path :: string
  rq_Authorization :: string
  rq_Origin :: string

text \<open>
  A middleware passes the request on, with the principal it attached if any, or answers itself.
\<close>

datatype verdict = Next "principal option" | Answer nat string string

definition Auth :: "jwt_lib \<Rightarrow> time \<Rightarrow> auth_options \<Rightarrow> http_request \<Rightarrow> verdict" where
  "Auth lib now opts r =
     (if \<not> Enabled opts \<or> isExempt (rq_Path r) (ExemptPaths opts) then Next None
      else (let token = bearerToken (rq_Authorization r) in
            if token = [] then Answer StatusUnauthorized ''AUTH_MISSING'' ''Authorization: Bearer <token> required''
            else (case validate lib now token opts of
                    Inl e \<Rightarrow> Answer StatusUnauthorized ''AUTH_INVALID'' e
                  | Inr p \<Rightarrow> Next (Some p))))"

definition SetAuth :: "auth_options \<Rightarrow> auth_options" where
  "SetAuth opts = (if ExemptPaths opts = [] then opts\<lparr>ExemptPaths := DefaultExemptPaths\<rparr> else opts)"

section \<open>Issuing tokens\<close>

definition IssueHS256 :: "jwt_lib \<Rightarrow> string \<Rightarrow> string \<Rightarrow> string \<Rightarrow> string \<Rightarrow> duration \<Rightarrow> time \<Rightarrow> string + string \<times> time" where
  "IssueHS256 lib secret subject audience scope ttl now =
     (if secret = [] then Inl ''signing key not configured''
      else (let life = (if ttl \<le> 0 then Hour else ttl);
                exp = now + life;
                cl = \<lparr>cl_Scope = scope, cl_Subject = subject,
                  cl_Audience = (if audience \<noteq> [] then [audience] else []),
                  cl_IssuedAt = NewNumericDate now, cl_NotBefore = NewNumericDate now,
                  cl_ExpiresAt = NewNumericDate exp\<rparr>
            in case SignedString lib secret cl of
                 Inl e \<Rightarrow> Inl e
               | Inr jws \<Rightarrow> Inr (jws, exp)))"

definition minTTL :: duration where "minTTL = 60 * Second"
definition maxTTL :: duration where "maxTTL = 24 * Hour"

definition clampTTL :: "duration \<Rightarrow> duration" where
  "clampTTL d = (if d < minTTL then minTTL else if d > maxTTL then maxTTL else d)"

record gen_auth_token_request =
  atr_Subject :: string
  atr_Scope :: "string option"
  atr_TtlSeconds :: "int64 option"

text \<open>The requested number of seconds is multiplied in 64 bits.\<close>

definition requested_ttl :: "int64 option \<Rightarrow> duration" where
  "requested_ttl t = (case t of None \<Rightarrow> 3600 * Second | Some n \<Rightarrow> clampTTL (sint (n * 1000000000)))"

definition IssueAuthToken :: "jwt_lib \<Rightarrow> time \<Rightarrow> auth_options \<Rightarrow> string + gen_auth_token_request \<Rightarrow> response" where
  "IssueAuthToken lib now auth req =
     (if SigningKey auth = [] then writeError StatusServiceUnavailable ''AUTH_DISABLED''
        (Text (''token issuance disabled '' @ [CHR 0xE2, CHR 0x80, CHR 0x94] @ '' RAMPART_AUTH_SIGNING_KEY not set''))
      else (case req of
              Inl msg \<Rightarrow> writeError StatusBadRequest ''INVALID_BODY'' (Text msg)
            | Inr body \<Rightarrow>
                if atr_Subject body = [] then writeError StatusBadRequest ''INVALID_BODY'' (Text ''subject is required'')
                else (case IssueHS256 lib (SigningKey auth) (atr_Subject body) (Audience auth)
                         (case atr_Scope body of None \<Rightarrow> ScopeWrite | Some s \<Rightarrow> s)
                         (requested_ttl (atr_TtlSeconds body)) now of
                        Inl e \<Rightarrow> writeError StatusInternalServerError ''AUTH_SIGN_FAILED'' (Text e)
                      | Inr (jws, exp) \<Rightarrow> writeJSON StatusOK (Token jws exp))))"

section \<open>CORS\<close>

record cors_options =
  AllowAll :: bool
  Origins :: "string list"
  AllowedMethods :: "string list"
  AllowedHeaders :: "string list"
  ExposedHeaders :: "string list"

definition DefaultCORSOptions :: cors_options where
  "DefaultCORSOptions = \<lparr>AllowAll = True, Origins = [],
     AllowedMethods = [''GET'', ''POST'', ''PUT'', ''DELETE'', ''OPTIONS''],
     AllowedHeaders = [''Authorization'', ''Content-Type'', ''Last-Event-ID''],
     ExposedHeaders = [''Content-Type'']\<rparr>"

definition defaultedSlice :: "string list \<Rightarrow> string list \<Rightarrow> string list" where
  "defaultedSlice s fallback = (if length s = 0 then fallback else s)"

definition allowOrigin :: "string \<Rightarrow> bool \<Rightarrow> string list \<Rightarrow> bool" where
  "allowOrigin origin allowAll allowed =
     (if allowAll then True else if origin = [] then False else origin \<in> set allowed)"

definition echoOrWildcard :: "string \<Rightarrow> bool \<Rightarrow> string" where
  "echoOrWildcard origin allowAll = (if allowAll \<and> origin = [] then ''*'' else origin)"

definition cors_allowed :: "cors_options \<Rightarrow> string list" where
  "cors_allowed opts = uniq [] (filter (\<lambda>x. x \<noteq> []) (map TrimSpace (Origins opts)))"

text \<open>The headers the middleware sets, and whether it passes the request on.\<close>

definition CORS :: "cors_options \<Rightarrow> http_request \<Rightarrow> (string, string) gomap \<times> bool" where
  "CORS opts r =
     (let methods = Join (defaultedSlice (AllowedMethods opts) [''GET'', ''POST'', ''PUT'', ''DELETE'', ''OPTIONS'']) '', '';
          headers = Join (defaultedSlice (AllowedHeaders opts) [''Authorization'', ''Content-Type'', ''Last-Event-ID'']) '', '';
          exposed = Join (defaultedSlice (ExposedHeaders opts) [''Content-Type'']) '', ''
      in ((if allowOrigin (rq_Origin r) (AllowAll opts) (cors_allowed opts)
           then [(''Access-Control-Allow-Origin'', echoOrWildcard (rq_Origin r) (AllowAll opts)),
                 (''Vary'', ''Origin''), (''Access-Control-Allow-Methods'', methods),
                 (''Access-Control-Allow-Headers'', headers), (''Access-Control-Expose-Headers'', exposed)]
           else []),
          rq_Method r \<noteq> ''OPTIONS''))"

text \<open>\<^verbatim>\<open>Server.Handler\<close>: CORS outermost, then authentication, then the routes. \<^verbatim>\<open>204\<close> answers a preflight.\<close>

definition Handler :: "jwt_lib \<Rightarrow> time \<Rightarrow> cors_options \<Rightarrow> auth_options \<Rightarrow> http_request \<Rightarrow> (string, string) gomap \<times> verdict" where
  "Handler lib now cors auth r =
     (case CORS cors r of (hdrs, forward) \<Rightarrow>
        (hdrs, if forward then Auth lib now auth r else Answer 204 [] []))"

section \<open>What the library promises\<close>

text \<open>
  \<open>genuine alg key raw cl\<close> stands for: the token \<open>raw\<close> carries the claims \<open>cl\<close> and a valid signature by \<open>key\<close> under
  the algorithm \<open>alg\<close>. Documented behaviour of the library: an error of the key function is an error of the
  parser; what the parser accepts is genuine under one of the valid methods, unexpired and for the
  audience; and claims signed with a secret are accepted under it by HS256 while they are current.
\<close>

definition current :: "time \<Rightarrow> string \<Rightarrow> claims \<Rightarrow> bool" where
  "current now aud cl \<longleftrightarrow> cl_NotBefore cl \<le> now \<and> now < cl_ExpiresAt cl \<and> (aud = [] \<or> aud \<in> set (cl_Audience cl))"

definition jwt_sound :: "(string \<Rightarrow> signing_key \<Rightarrow> string \<Rightarrow> claims \<Rightarrow> bool) \<Rightarrow> jwt_lib \<Rightarrow> bool" where
  "jwt_sound genuine lib \<longleftrightarrow>
     (\<forall>ms now aud e raw cl. ParseWithClaims lib ms now aud (Inl e) raw \<noteq> Inr cl) \<and>
     (\<forall>ms now aud key raw cl. ParseWithClaims lib ms now aud (Inr key) raw = Inr cl \<longrightarrow>
        (\<exists>alg\<in>set ms. genuine alg key raw cl) \<and> current now aud cl)"

definition jwt_round_trip :: "jwt_lib \<Rightarrow> string \<Rightarrow> claims \<Rightarrow> bool" where
  "jwt_round_trip lib secret cl \<longleftrightarrow> (\<exists>raw. SignedString lib secret cl = Inr raw \<and> raw \<noteq> [] \<and> TrimSpace raw = raw \<and>
     (\<forall>ms now aud. ''HS256'' \<in> set ms \<and> current now aud cl \<longrightarrow>
        ParseWithClaims lib ms now aud (Inr (HMACSecret secret)) raw = Inr cl))"

section \<open>Properties\<close>

text \<open>
  C32. The gate. When authentication is on, a request to a path that is not exempt is passed on only with
  a principal, and only if it carries a bearer token that the library vouches for under the one configured
  algorithm and key, unexpired, for the configured audience and with a subject; in particular nothing
  passes when no signing key is configured. Any other request to such a path is answered 401.
\<close>

theorem auth_gate:
  assumes "jwt_sound genuine lib" and "Enabled opts" and "\<not> isExempt (rq_Path r) (ExemptPaths opts)"
  shows "case Auth lib now opts r of
     Answer status _ _ \<Rightarrow> status = StatusUnauthorized
   | Next who \<Rightarrow> \<exists>p key cl. who = Some p \<and> keyFunc lib opts = Inr key \<and> SigningKey opts \<noteq> [] \<and>
       bearerToken (rq_Authorization r) \<noteq> [] \<and>
       genuine (if ToUpper (Algorithm opts) = ''RS256'' then ''RS256'' else ''HS256'') key
         (bearerToken (rq_Authorization r)) cl \<and>
       current now (Audience opts) cl \<and> cl_Subject cl \<noteq> [] \<and>
       p = \<lparr>Subject = cl_Subject cl, Scope = normaliseScope (cl_Scope cl)\<rparr>"
proof -
  let ?t = "bearerToken (rq_Authorization r)"
  let ?parse = "ParseWithClaims lib (allowedMethods (Algorithm opts)) now (Audience opts)"
  consider "?t = []" | e where "?t \<noteq> []" "validate lib now ?t opts = Inl e"
    | p where "?t \<noteq> []" "validate lib now ?t opts = Inr p" by (cases "validate lib now ?t opts") auto
  then show ?thesis
  proof cases
    case (3 p)
    then obtain cl where cl: "?parse (keyFunc lib opts) ?t = Inr cl" "cl_Subject cl \<noteq> []"
        "p = \<lparr>Subject = cl_Subject cl, Scope = normaliseScope (cl_Scope cl)\<rparr>"
      by (auto simp: validate_def split: sum.splits if_splits)
    obtain key where key: "keyFunc lib opts = Inr key"
      using cl(1) assms(1) by (cases "keyFunc lib opts") (auto simp: jwt_sound_def)
    have "SigningKey opts \<noteq> []" using key by (auto simp: keyFunc_def)
    moreover have "(\<exists>alg\<in>set (allowedMethods (Algorithm opts)). genuine alg key ?t cl) \<and> current now (Audience opts) cl"
      using assms(1) cl(1) unfolding key jwt_sound_def by blast
    ultimately show ?thesis
      using 3 cl key assms(2,3) by (auto simp: Auth_def allowedMethods_def split: if_splits)
  qed (use assms(2,3) in \<open>simp_all add: Auth_def\<close>)
qed

text \<open>A library that knows one token, for the samples.\<close>

definition issued_claims :: "string \<Rightarrow> string \<Rightarrow> string \<Rightarrow> duration \<Rightarrow> time \<Rightarrow> claims" where
  "issued_claims subject audience scope ttl now = \<lparr>cl_Scope = scope, cl_Subject = subject,
     cl_Audience = (if audience \<noteq> [] then [audience] else []),
     cl_IssuedAt = NewNumericDate now, cl_NotBefore = NewNumericDate now,
     cl_ExpiresAt = NewNumericDate (now + (if ttl \<le> 0 then Hour else ttl))\<rparr>"

definition one_token :: "string \<Rightarrow> claims \<Rightarrow> jwt_lib" where
  "one_token secret known = \<lparr>
     ParseWithClaims = (\<lambda>ms now aud key raw.
       if key = Inr (HMACSecret secret) \<and> raw = ''jws'' \<and> ''HS256'' \<in> set ms \<and> current now aud known
       then Inr known else Inl ''token is invalid''),
     SignedString = (\<lambda>s cl. Inr ''jws''),
     pem_Decode = (\<lambda>_. None), ParsePKIXPublicKey = (\<lambda>_. Inl ''no key'')\<rparr>"

lemma one_token_sound: "jwt_sound (\<lambda>alg key raw cl. alg = ''HS256'' \<and> cl = known) (one_token secret known)"
  by (auto simp: jwt_sound_def one_token_def split: if_splits)

lemma one_token_round_trip: "jwt_round_trip (one_token secret known) secret known"
proof -
  have "TrimSpace ''jws'' = ''jws''" by code_simp
  then show ?thesis by (simp add: jwt_round_trip_def one_token_def)
qed

definition sample_auth :: auth_options where
  "sample_auth = \<lparr>Enabled = True, SigningKey = ''k'', Algorithm = ''HS256'', Audience = [], ExemptPaths = DefaultExemptPaths\<rparr>"

definition sample_request :: http_request where
  "sample_request = \<lparr>rq_Method = ''POST'', rq_Path = ''/v1/iocs'', rq_Authorization = ''Bearer jws'', rq_Origin = []\<rparr>"

theorem auth_gate_witness:
  "Auth (one_token ''k'' (issued_claims [] [] ''admin'' Hour 0)) 5 sample_auth sample_request =
     Answer StatusUnauthorized ''AUTH_INVALID'' ''sub claim missing'' \<and>
   (case Auth (one_token ''k'' (issued_claims [] [] ''admin'' Hour 0)) 5 sample_auth sample_request of
      Answer status _ _ \<Rightarrow> status = StatusUnauthorized | Next _ \<Rightarrow> False)"
proof -
  let ?lib = "one_token ''k'' (issued_claims [] [] ''admin'' Hour 0)"
  have "Auth ?lib 5 sample_auth sample_request = Answer StatusUnauthorized ''AUTH_INVALID'' ''sub claim missing''"
    by code_simp
  moreover have "Enabled sample_auth" "\<not> isExempt (rq_Path sample_request) (ExemptPaths sample_auth)"
    by (code_simp, code_simp)
  ultimately show ?thesis using auth_gate [OF one_token_sound, of sample_auth sample_request _ _ 5] by force
qed

text \<open>
  C33. Issued tokens work, for everyone. With HS256 and a signing key, the token endpoint is reached without
  credentials even though authentication is on, and a request for any subject and scope gets a token; shown
  to the middleware within its lifetime the token passes every path with that subject and scope, \<^verbatim>\<open>admin\<close>
  included. The lifetime is between a minute and a day whatever was asked for.
\<close>

theorem token_endpoint_open:
  assumes "Enabled opts" and "ExemptPaths opts = DefaultExemptPaths" and "SigningKey opts \<noteq> []"
    and "ToUpper (Algorithm opts) \<noteq> ''RS256''" and "atr_Subject body \<noteq> []" and "atr_Scope body = Some ''admin''"
    and "jwt_round_trip lib (SigningKey opts)
      (issued_claims (atr_Subject body) (Audience opts) ''admin'' (requested_ttl (atr_TtlSeconds body)) now)"
    and "rq_Path mint = ''/v1/auth/token''"
  shows "Auth lib now opts mint = Next None \<and>
    (\<exists>tok exp. IssueAuthToken lib now opts (Inr body) = JSON StatusOK (Token tok exp) \<and>
      now + minTTL \<le> exp \<and> exp \<le> now + maxTTL \<and>
      (\<forall>r later. rq_Authorization r = ''Bearer '' @ tok \<and> \<not> isExempt (rq_Path r) (ExemptPaths opts) \<and>
         now \<le> later \<and> later < NewNumericDate exp \<longrightarrow>
         Auth lib later opts r = Next (Some \<lparr>Subject = atr_Subject body, Scope = ScopeAdmin\<rparr>)))"
proof -
  let ?ttl = "requested_ttl (atr_TtlSeconds body)"
  let ?cl = "issued_claims (atr_Subject body) (Audience opts) ''admin'' ?ttl now"
  have ttl: "minTTL \<le> ?ttl" "?ttl \<le> maxTTL" "0 < ?ttl"
    by (simp_all add: requested_ttl_def clampTTL_def minTTL_def maxTTL_def Hour_def Second_def split: option.split)
  obtain raw where raw: "SignedString lib (SigningKey opts) ?cl = Inr raw" "raw \<noteq> []" "TrimSpace raw = raw"
    and acc: "\<And>ms t aud. ''HS256'' \<in> set ms \<Longrightarrow> current t aud ?cl \<Longrightarrow>
      ParseWithClaims lib ms t aud (Inr (HMACSecret (SigningKey opts))) raw = Inr ?cl"
    using assms(7) unfolding jwt_round_trip_def by blast
  have issue: "IssueAuthToken lib now opts (Inr body) = JSON StatusOK (Token raw (now + ?ttl))"
    using assms(3,5,6) raw(1) ttl(3)
    by (simp add: IssueAuthToken_def IssueHS256_def issued_claims_def Let_def writeJSON_def)
  have accept: "Auth lib later opts r = Next (Some \<lparr>Subject = atr_Subject body, Scope = ScopeAdmin\<rparr>)"
    if "rq_Authorization r = ''Bearer '' @ raw" "\<not> isExempt (rq_Path r) (ExemptPaths opts)"
      "now \<le> later" "later < NewNumericDate (now + ?ttl)" for r later
  proof -
    have "NewNumericDate now \<le> now" by (simp add: NewNumericDate_def Second_def)
    then have "current later (Audience opts) ?cl"
      using that(3,4) ttl(3) by (simp add: current_def issued_claims_def)
    moreover have "''HS256'' \<in> set (allowedMethods (Algorithm opts))" using assms(4) by (simp add: allowedMethods_def)
    moreover have "normaliseScope ''admin'' = ScopeAdmin" by code_simp
    moreover have "bearerToken (''Bearer '' @ raw) = raw" using raw(3) by (simp add: bearerToken_def HasPrefix_def)
    ultimately show ?thesis
      using that(1,2) raw(2) assms(1,3,4,5) acc
      by (simp add: Auth_def validate_def keyFunc_def) (simp add: issued_claims_def)
  qed
  have "isExempt ''/v1/auth/token'' DefaultExemptPaths" by code_simp
  then have "Auth lib now opts mint = Next None" using assms(2,8) by (simp add: Auth_def)
  then show ?thesis using issue accept ttl(1,2) by auto
qed

theorem token_endpoint_open_witness:
  "\<exists>tok. (\<forall>r. rq_Authorization r = ''Bearer '' @ tok \<and> rq_Path r = ''/v1/iocs'' \<longrightarrow>
     Auth (one_token ''k'' (issued_claims ''eve'' [] ''admin'' (3600 * Second) 0)) 5 sample_auth r =
       Next (Some \<lparr>Subject = ''eve'', Scope = ScopeAdmin\<rparr>))"
proof -
  let ?lib = "one_token ''k'' (issued_claims ''eve'' [] ''admin'' (3600 * Second) 0)"
  let ?body = "\<lparr>atr_Subject = ''eve'', atr_Scope = Some ''admin'', atr_TtlSeconds = None\<rparr>"
  have auth: "Enabled sample_auth" "ExemptPaths sample_auth = DefaultExemptPaths" "SigningKey sample_auth = ''k''"
      "Audience sample_auth = []" by (simp_all add: sample_auth_def)
  have rs: "ToUpper (Algorithm sample_auth) \<noteq> ''RS256''" by code_simp
  have rt: "jwt_round_trip ?lib (SigningKey sample_auth)
      (issued_claims (atr_Subject ?body) (Audience sample_auth) ''admin'' (requested_ttl (atr_TtlSeconds ?body)) 0)"
    using one_token_round_trip by (simp add: auth requested_ttl_def)
  obtain tok exp where t: "0 + minTTL \<le> exp" "\<And>r later. rq_Authorization r = ''Bearer '' @ tok \<Longrightarrow>
      \<not> isExempt (rq_Path r) (ExemptPaths sample_auth) \<Longrightarrow> 0 \<le> later \<Longrightarrow> later < NewNumericDate exp \<Longrightarrow>
      Auth ?lib later sample_auth r = Next (Some \<lparr>Subject = ''eve'', Scope = ScopeAdmin\<rparr>)"
    using token_endpoint_open [OF auth(1,2) _ rs _ _ rt, of "\<lparr>rq_Method = ''POST'', rq_Path = ''/v1/auth/token'',
        rq_Authorization = [], rq_Origin = []\<rparr>"] by (auto simp: auth(3))
  have "60 \<le> exp div Second"
    using zdiv_mono1 [of "60 * Second" exp Second] t(1) by (simp add: minTTL_def Second_def)
  then have "60000000000 \<le> NewNumericDate exp" by (simp add: NewNumericDate_def Second_def)
  moreover have "\<not> isExempt ''/v1/iocs'' (ExemptPaths sample_auth)" by code_simp
  ultimately show ?thesis using t(2) [where later = 5] by force
qed

text \<open>
  The scope is attached but never looked at: a token that is valid passes with every method on every
  path, whatever its scope.
\<close>

lemma scope_ignored:
  assumes "bearerToken (rq_Authorization r) \<noteq> []"
    and "validate lib now (bearerToken (rq_Authorization r)) opts = Inr \<lparr>Subject = sub, Scope = ScopeRead\<rparr>"
  shows "\<exists>who. Auth lib now opts (r\<lparr>rq_Method := m, rq_Path := p\<rparr>) = Next who"
  using assms by (simp add: Auth_def)

text \<open>
  CORS and its place. A response names an allowed origin exactly when every origin is allowed or the request's
  origin is one of the configured ones after trimming; it then echoes the origin, or a star when all are
  allowed and none is named. A preflight is answered before authentication and never reaches it; every other
  request is forwarded whether or not its origin is allowed.
\<close>

theorem cors_exact:
  "(get (fst (Handler lib now cors auth r)) ''Access-Control-Allow-Origin'' =
      (if AllowAll cors then Some (if rq_Origin r = [] then ''*'' else rq_Origin r)
       else if rq_Origin r \<noteq> [] \<and> rq_Origin r \<in> TrimSpace ` set (Origins cors) then Some (rq_Origin r)
       else None)) \<and>
   snd (Handler lib now cors auth r) = (if rq_Method r = ''OPTIONS'' then Answer 204 [] [] else Auth lib now auth r)"
proof -
  have a: "set (cors_allowed cors) = TrimSpace ` set (Origins cors) - {[]}"
    by (auto simp: cors_allowed_def)
  have o: "allowOrigin (rq_Origin r) (AllowAll cors) (cors_allowed cors) \<longleftrightarrow>
      AllowAll cors \<or> rq_Origin r \<noteq> [] \<and> rq_Origin r \<in> TrimSpace ` set (Origins cors)"
    by (simp add: allowOrigin_def a)
  have "get (fst (CORS cors r)) ''Access-Control-Allow-Origin'' =
      (if allowOrigin (rq_Origin r) (AllowAll cors) (cors_allowed cors)
       then Some (echoOrWildcard (rq_Origin r) (AllowAll cors)) else None)"
    by (simp add: CORS_def Let_def get_def)
  then show ?thesis
    unfolding Handler_def o by (simp add: case_prod_beta echoOrWildcard_def) (simp add: CORS_def Let_def)
qed

text \<open>
  Lifetimes are clamped. Whatever number of seconds is asked for, 64-bit overflow of the product included, a
  token lives at least a minute and at most a day; within that range and without overflow it lives exactly
  as long as asked.
\<close>

theorem ttl_clamped:
  "minTTL \<le> requested_ttl t \<and> requested_ttl t \<le> maxTTL \<and>
   (\<forall>n. t = Some n \<and> 60 \<le> sint n \<and> sint n \<le> 86400 \<longrightarrow> requested_ttl t = sint n * Second)"
proof (intro conjI allI impI)
  show "minTTL \<le> requested_ttl t" "requested_ttl t \<le> maxTTL"
    by (simp_all add: requested_ttl_def clampTTL_def minTTL_def maxTTL_def Hour_def Second_def split: option.split)
next
  fix n
  assume n: "t = Some n \<and> 60 \<le> sint n \<and> sint n \<le> 86400"
  have g: "sint (1000000000 :: int64) = 1000000000" by code_simp
  have "sint (n * 1000000000) = signed_take_bit 63 (sint n * 1000000000)"
    using sint_word_ariths(3) [of n 1000000000] by (simp add: g)
  also have "\<dots> = sint n * 1000000000"
    using n by (intro signed_take_bit_int_eq_self) simp_all
  finally show "requested_ttl t = sint n * Second"
    using n by (simp add: requested_ttl_def clampTTL_def minTTL_def maxTTL_def Hour_def Second_def)
qed

theorem ttl_clamped_witness: "requested_ttl (Some 90) = 90 * Second"
proof -
  have "sint (90 :: int64) = 90" by code_simp
  with ttl_clamped [of "Some 90"] show ?thesis by auto
qed

end
