(* ===== verification/Handlers.thy ===== *)
theory Handlers
  imports Api
begin

text \<open>
  The HTTP handlers of \<^verbatim>\<open>engine/internal/api\<close>, each as an action on the engine's state that returns
  the response. The lockfile parser is the one the server was given (\<^verbatim>\<open>SBOMParser\<close>).
\<close>

section \<open>Components and SBOMs\<close>

definition h_Healthz :: response where
  "h_Healthz = writeJSON StatusOK (Health ''ok'')"

definition h_Readyz :: response where
  "h_Readyz = writeJSON StatusOK (Health ''ready'')"

definition h_ListComponents :: "env \<Rightarrow> 's storage \<Rightarrow> ('s, response) act" where
  "h_ListComponents env ops = do {
     r \<leftarrow> read_call env (ListComponents ops);
     case r of
       Inl e \<Rightarrow> ret (writeError StatusInternalServerError ''INTERNAL'' (Err e))
     | Inr comps \<Rightarrow> ret (writeJSON StatusOK (Comps (map toGenComponent comps)))
   }"

definition h_UpsertComponent :: "env \<Rightarrow> 's storage \<Rightarrow> string + gen_component \<Rightarrow> ('s, response) act" where
  "h_UpsertComponent env ops req =
     (case req of
        Inl msg \<Rightarrow> ret (writeError StatusBadRequest ''INVALID_PAYLOAD'' (Text msg))
      | Inr body \<Rightarrow>
          if gc_Ref body = [] then ret (writeError StatusBadRequest ''INVALID_PAYLOAD'' (Text ''ref is required''))
          else (case ParseComponentRef (gc_Ref body) of
                  Inl e \<Rightarrow> ret (writeError StatusBadRequest ''INVALID_REF'' (Err e))
                | Inr (kind, ns, name) \<Rightarrow> do {
                    let c = (fromGenComponent body)\<lparr>comp_Kind := kind, comp_Namespace := ns, comp_Name := name\<rparr>;
                    r \<leftarrow> read_call env (\<lambda>cl. GetComponent ops cl (comp_Ref c));
                    let status = (case r of Inr _ \<Rightarrow> StatusOK | Inl _ \<Rightarrow> StatusCreated);
                    case r of
                      Inl e \<Rightarrow>
                        if e \<noteq> ErrNotFound then ret (writeError StatusInternalServerError ''STORAGE_ERROR'' (Err e))
                        else do {
                          u \<leftarrow> write_call env (\<lambda>cl. UpsertComponent ops cl c);
                          case u of
                            Some e \<Rightarrow> ret (writeError StatusInternalServerError ''STORAGE_ERROR'' (Err e))
                          | None \<Rightarrow> ret (writeJSON status (Comp (toGenComponent c)))
                        }
                    | Inr _ \<Rightarrow> do {
                        u \<leftarrow> write_call env (\<lambda>cl. UpsertComponent ops cl c);
                        case u of
                          Some e \<Rightarrow> ret (writeError StatusInternalServerError ''STORAGE_ERROR'' (Err e))
                        | None \<Rightarrow> ret (writeJSON status (Comp (toGenComponent c)))
                      }
                  }))"

text \<open>\<^verbatim>\<open>engine/ingestion\<close>: a parsed lockfile becomes an SBOM with an identity.\<close>

definition Ingest :: "env \<Rightarrow> parsed_sbom \<Rightarrow> string \<Rightarrow> string \<Rightarrow> ('s, sbom) act" where
  "Ingest env parsed componentRef commitSHA = do {
     k \<leftarrow> ulid_Make env;
     now \<leftarrow> time_Now env;
     ret \<lparr>sbom_ID = k, sbom_ComponentRef = componentRef, sbom_CommitSHA = commitSHA,
       sbom_Ecosystem = ps_Ecosystem parsed, sbom_GeneratedAt = now,
       sbom_Packages = ps_Packages parsed, sbom_SourceFormat = ps_SourceFormat parsed,
       sbom_SourceBytes = ps_SourceBytes parsed\<rparr>
   }"

type_synonym sbom_parser = "call \<Rightarrow> string \<Rightarrow> parse_error + parsed_sbom"

fun publish_matches :: "env \<Rightarrow> string \<Rightarrow> string list \<Rightarrow> ('s, unit) act" where
  "publish_matches env ref [] = ret ()"
| "publish_matches env ref (k # ks) = do {
     now \<leftarrow> time_Now env;
     publish env (IoCMatched k [ref] now);
     publish_matches env ref ks
   }"

definition store_sbom :: "('c, 'v) semver \<Rightarrow> env \<Rightarrow> 's storage \<Rightarrow> sbom \<Rightarrow> ('s, response) act" where
  "store_sbom sv env ops b = do {
     u \<leftarrow> write_call env (\<lambda>cl. UpsertSBOM ops cl b);
     case u of
       Some e \<Rightarrow> ret (writeError StatusInternalServerError ''STORAGE_ERROR'' (Err e))
     | None \<Rightarrow> do {
         publish env (SBOMIngested (sbom_ID b) (sbom_ComponentRef b) (sbom_GeneratedAt b));
         m \<leftarrow> retroactiveMatch sv env ops b;
         case m of
           Inl e \<Rightarrow> ret (writeError StatusInternalServerError ''MATCH_FAILED'' (Err e))
         | Inr (pairs, matchedIoCs) \<Rightarrow> do {
             (opened, err) \<leftarrow> openIncidentsForMatches env ops pairs;
             case err of
               Some e \<Rightarrow> ret (writeError StatusInternalServerError ''INCIDENT_OPEN_FAILED'' (Err e))
             | None \<Rightarrow> do {
                 publish_matches env (sbom_ComponentRef b) matchedIoCs;
                 ret (writeJSON StatusCreated (Sbom (toGenSBOM b)))
               }
           }
       }
   }"

definition h_SubmitSBOM :: "('c, 'v) semver \<Rightarrow> sbom_parser \<Rightarrow> env \<Rightarrow> 's storage \<Rightarrow> string \<Rightarrow>
    string + gen_sbom_submission \<Rightarrow> ('s, response) act" where
  "h_SubmitSBOM sv parse env ops componentRef req = do {
     g \<leftarrow> read_call env (\<lambda>cl. GetComponent ops cl componentRef);
     case g of
       Inl e \<Rightarrow>
         if e = ErrNotFound
         then ret (writeError StatusNotFound ''COMPONENT_NOT_FOUND''
                (Text (''component '' @ componentRef @ '' is not registered'')))
         else ret (writeError StatusInternalServerError ''STORAGE_ERROR'' (Err e))
     | Inr _ \<Rightarrow>
         (case req of
            Inl msg \<Rightarrow> ret (writeError StatusBadRequest ''INVALID_PAYLOAD'' (Text msg))
          | Inr body \<Rightarrow>
              if gss_Ecosystem body \<noteq> ''npm''
              then ret (writeError StatusBadRequest ''UNSUPPORTED_ECOSYSTEM''
                     (Text (''HTTP submission currently supports npm lockfiles only; got '' @ gss_Ecosystem body
                        @ '' (the rampart CLI scan command supports npm, gomod, cargo, pypi, maven)'')))
              else if gss_SourceFormat body \<noteq> ''npm-package-lock-v3''
              then ret (writeError StatusBadRequest ''UNSUPPORTED_SOURCE_FORMAT''
                     (Text ''HTTP submission currently supports npm-package-lock-v3 only''))
              else do {
                p \<leftarrow> read_call env (\<lambda>cl _. parse cl (gss_Content body));
                case p of
                  Inl e \<Rightarrow> ret (writeError StatusBadRequest ''PARSE_FAILED'' (ParseErr e))
                | Inr parsed \<Rightarrow> do {
                    b \<leftarrow> Ingest env parsed componentRef (deref (gss_CommitSha body));
                    store_sbom sv env ops b
                  }
              })
   }"

definition h_ListSBOMsByComponent :: "env \<Rightarrow> 's storage \<Rightarrow> string \<Rightarrow> ('s, response) act" where
  "h_ListSBOMsByComponent env ops componentRef = do {
     r \<leftarrow> read_call env (\<lambda>cl. ListSBOMsByComponent ops cl componentRef);
     case r of
       Inl e \<Rightarrow> ret (writeError StatusInternalServerError ''STORAGE_ERROR'' (Err e))
     | Inr bs \<Rightarrow> ret (writeJSON StatusOK (Sboms (map toGenSBOM bs)))
   }"

definition h_GetSBOM :: "env \<Rightarrow> 's storage \<Rightarrow> string \<Rightarrow> ('s, response) act" where
  "h_GetSBOM env ops k = do {
     r \<leftarrow> read_call env (\<lambda>cl. GetSBOM ops cl k);
     case r of
       Inl e \<Rightarrow>
         if e = ErrNotFound
         then ret (writeError StatusNotFound ''SBOM_NOT_FOUND'' (Text (''sbom '' @ k @ '' not found'')))
         else ret (writeError StatusInternalServerError ''STORAGE_ERROR'' (Err e))
     | Inr b \<Rightarrow> ret (writeJSON StatusOK (Sbom (toGenSBOM b)))
   }"

section \<open>IoCs\<close>

definition store_ioc :: "('c, 'v) semver \<Rightarrow> env \<Rightarrow> 's storage \<Rightarrow> ioc \<Rightarrow> ('s, response) act" where
  "store_ioc sv env ops i = do {
     u \<leftarrow> write_call env (\<lambda>cl. UpsertIoC ops cl i);
     case u of
       Some e \<Rightarrow> ret (writeError StatusInternalServerError ''STORAGE_ERROR'' (Err e))
     | None \<Rightarrow> do {
         m \<leftarrow> forwardMatch sv env ops i;
         case m of
           Inl e \<Rightarrow> ret (writeError StatusInternalServerError ''MATCH_FAILED'' (Err e))
         | Inr (pairs, matched) \<Rightarrow> do {
             (opened, err) \<leftarrow> openIncidentsForMatches env ops pairs;
             case err of
               Some e \<Rightarrow> ret (writeError StatusInternalServerError ''INCIDENT_OPEN_FAILED'' (Err e))
             | None \<Rightarrow>
                 if matched \<noteq> [] then do {
                   now \<leftarrow> time_Now env;
                   publish env (IoCMatched (ioc_ID i) matched now);
                   ret (writeJSON StatusCreated (IoCBody (toGenIoC i)))
                 }
                 else ret (writeJSON StatusCreated (IoCBody (toGenIoC i)))
           }
       }
   }"

definition h_SubmitIoC ::
    "('c, 'v) semver \<Rightarrow> env \<Rightarrow> 's storage \<Rightarrow> string + gen_ioc \<Rightarrow> ('s, response) act" where
  "h_SubmitIoC sv env ops req =
     (case req of
        Inl msg \<Rightarrow> ret (writeError StatusBadRequest ''INVALID_PAYLOAD'' (Text msg))
      | Inr body \<Rightarrow>
          (let i = fromGenIoC body in
           case ioc_Validate i of
             Some e \<Rightarrow> ret (writeError StatusBadRequest ''INVALID_IOC'' (Err e))
           | None \<Rightarrow>
               if ioc_Kind i = IoCKindPackageRange \<and>
                  (case ioc_PackageRange i of
                     None \<Rightarrow> False
                   | Some rg \<Rightarrow> NewConstraint sv (ipr_Constraint rg) = None)
               then ret (writeError StatusBadRequest ''INVALID_CONSTRAINT'' Foreign)
               else store_ioc sv env ops i))"

definition ioc_listed :: "string option \<Rightarrow> string option \<Rightarrow> ioc \<Rightarrow> bool" where
  "ioc_listed eco sev i =
     (if (case eco of None \<Rightarrow> False | Some e \<Rightarrow> e \<noteq> [] \<and> ioc_Ecosystem i \<noteq> e) then False
      else if (case sev of None \<Rightarrow> False | Some v \<Rightarrow> v \<noteq> ioc_Severity i) then False
      else True)"

definition h_ListIoCs ::
    "env \<Rightarrow> 's storage \<Rightarrow> string option \<Rightarrow> string option \<Rightarrow> ('s, response) act" where
  "h_ListIoCs env ops eco sev = do {
     r \<leftarrow> read_call env (ListIoCs ops);
     case r of
       Inl e \<Rightarrow> ret (writeError StatusInternalServerError ''STORAGE_ERROR'' (Err e))
     | Inr stored \<Rightarrow> ret (writeJSON StatusOK (IoCs (map toGenIoC (filter (ioc_listed eco sev) stored))))
   }"

section \<open>Incidents\<close>

definition incidentFilter :: "list_incidents_params \<Rightarrow> incident_filter" where
  "incidentFilter p = \<lparr>if_States = deref (lip_State p),
     if_Ecosystems = filter (\<lambda>eco. eco \<noteq> []) (deref (lip_Ecosystem p)),
     if_From = (case lip_From p of Some t \<Rightarrow> Some t | None \<Rightarrow> lip_Since p),
     if_To = lip_To p, if_Search = deref (lip_Search p), if_Owner = deref (lip_Owner p),
     if_Limit = (case lip_Limit p of None \<Rightarrow> 0 | Some n \<Rightarrow> n)\<rparr>"

definition h_ListIncidents :: "env \<Rightarrow> 's storage \<Rightarrow> list_incidents_params \<Rightarrow> ('s, response) act" where
  "h_ListIncidents env ops params = do {
     r \<leftarrow> read_call env (\<lambda>cl. ListIncidentsFiltered ops cl (incidentFilter params));
     case r of
       Inl e \<Rightarrow> ret (writeError StatusInternalServerError ''STORAGE_ERROR'' (Err e))
     | Inr incs \<Rightarrow> ret (writeJSON StatusOK (Incidents (map toGenIncident incs)))
   }"

definition incident_missing :: "string \<Rightarrow> error \<Rightarrow> response" where
  "incident_missing k e =
     (if e = ErrNotFound
      then writeError StatusNotFound ''INCIDENT_NOT_FOUND'' (Text (''incident '' @ k @ '' not found''))
      else writeError StatusInternalServerError ''STORAGE_ERROR'' (Err e))"

definition h_GetIncident :: "env \<Rightarrow> 's storage \<Rightarrow> string \<Rightarrow> ('s, response) act" where
  "h_GetIncident env ops k = do {
     r \<leftarrow> read_call env (\<lambda>cl. GetIncident ops cl k);
     case r of
       Inl e \<Rightarrow> ret (incident_missing k e)
     | Inr inc \<Rightarrow> ret (writeJSON StatusOK (Incident (toGenIncident inc)))
   }"

fun hydrate :: "env \<Rightarrow> 's storage \<Rightarrow> string list \<Rightarrow> ('s, gen_component list) act" where
  "hydrate env ops [] = ret []"
| "hydrate env ops (ref # refs) = do {
     r \<leftarrow> read_call env (\<lambda>cl. GetComponent ops cl ref);
     rest \<leftarrow> hydrate env ops refs;
     ret (case r of Inl _ \<Rightarrow> rest | Inr c \<Rightarrow> toGenComponent c # rest)
   }"

definition h_GetIncidentDetail :: "env \<Rightarrow> 's storage \<Rightarrow> string \<Rightarrow> ('s, response) act" where
  "h_GetIncidentDetail env ops k = do {
     r \<leftarrow> read_call env (\<lambda>cl. GetIncident ops cl k);
     case r of
       Inl e \<Rightarrow> ret (incident_missing k e)
     | Inr inc \<Rightarrow> do {
         gioc \<leftarrow> (if inc_IoCID inc \<noteq> [] then do {
                    i \<leftarrow> read_call env (\<lambda>cl. GetIoC ops cl (inc_IoCID inc));
                    ret (case i of Inl _ \<Rightarrow> None | Inr x \<Rightarrow> Some (toGenIoC x))
                  }
                  else ret None);
         comps \<leftarrow> hydrate env ops (inc_AffectedComponentsSnapshot inc);
         ret (writeJSON StatusOK (Detail \<lparr>gd_Incident = toGenIncident inc, gd_Ioc = gioc,
           gd_AffectedComponents = Some comps\<rparr>))
       }
   }"

definition h_TransitionIncident ::
    "env \<Rightarrow> 's storage \<Rightarrow> string \<Rightarrow> string + string \<Rightarrow> ('s, response) act" where
  "h_TransitionIncident env ops k req =
     (case req of
        Inl msg \<Rightarrow> ret (writeError StatusBadRequest ''INVALID_PAYLOAD'' (Text msg))
      | Inr target \<Rightarrow> do {
          r \<leftarrow> read_call env (\<lambda>cl. GetIncident ops cl k);
          case r of
            Inl e \<Rightarrow> ret (incident_missing k e)
          | Inr inc \<Rightarrow> do {
              now \<leftarrow> time_Now env;
              case Transition inc target now of
                Inl e \<Rightarrow>
                  (case e of
                     ErrInvalidTransition _ _ \<Rightarrow> ret (writeError StatusConflict ''INVALID_TRANSITION'' (Err e))
                   | _ \<Rightarrow> ret (writeError StatusBadRequest ''INVALID_STATE'' (Err e)))
              | Inr inc' \<Rightarrow> do {
                  u \<leftarrow> write_call env (\<lambda>cl. UpsertIncident ops cl inc');
                  case u of
                    Some e \<Rightarrow> ret (writeError StatusInternalServerError ''STORAGE_ERROR'' (Err e))
                  | None \<Rightarrow>
                      if inc_State inc \<noteq> inc_State inc' then do {
                        publish env (IncidentTransitioned (inc_ID inc') (inc_State inc) (inc_State inc') now);
                        ret (writeJSON StatusOK (Incident (toGenIncident inc')))
                      }
                      else ret (writeJSON StatusOK (Incident (toGenIncident inc')))
                }
            }
        })"

definition h_AddRemediation ::
    "env \<Rightarrow> 's storage \<Rightarrow> string \<Rightarrow> string + gen_remediation \<Rightarrow> ('s, response) act" where
  "h_AddRemediation env ops k req = do {
     g \<leftarrow> read_call env (\<lambda>cl. GetIncident ops cl k);
     case g of
       Inl e \<Rightarrow> ret (incident_missing k e)
     | Inr _ \<Rightarrow>
         (case req of
            Inl msg \<Rightarrow> ret (writeError StatusBadRequest ''INVALID_PAYLOAD'' (Text msg))
          | Inr body \<Rightarrow> do {
              now \<leftarrow> time_Now env;
              rid \<leftarrow> ulid_Make env;
              let rm = \<lparr>rem_ID = rid, rem_IncidentID = k, rem_Kind = gr_Kind body,
                rem_ExecutedAt = (if IsZero (gr_ExecutedAt body) then now else gr_ExecutedAt body),
                rem_ActorRef = deref (gr_ActorRef body), rem_Details = deref (gr_Details body)\<rparr>;
              case rem_Validate rm of
                Some e \<Rightarrow> ret (writeError StatusBadRequest ''INVALID_REMEDIATION_KIND'' (Err e))
              | None \<Rightarrow> do {
                  u \<leftarrow> write_call env (\<lambda>cl. AppendRemediation ops cl k rm);
                  case u of
                    Some e \<Rightarrow> ret (writeError StatusInternalServerError ''STORAGE_ERROR'' (Err e))
                  | None \<Rightarrow> do {
                      publish env (RemediationAdded k rid (rem_Kind rm) now);
                      ret (writeJSON StatusCreated (Rem (toGenRemediation rm)))
                    }
                }
            })
   }"

section \<open>Blast radius\<close>

text \<open>
  The loop over the IoCs of the request; \<open>affected\<close> is the set under construction, as its elements
  in the order of insertion.
\<close>

fun radius_loop :: "('c, 'v) semver \<Rightarrow> env \<Rightarrow> 's storage \<Rightarrow> string list \<Rightarrow> gen_ioc list \<Rightarrow>
    ('s, response + string list) act" where
  "radius_loop sv env ops affected [] = ret (Inr affected)"
| "radius_loop sv env ops affected (g # gs) =
     (let i = fromGenIoC g in
      case ioc_Validate i of
        Some e \<Rightarrow> ret (Inl (writeError StatusBadRequest ''INVALID_IOC'' (Err e)))
      | None \<Rightarrow> do {
          r \<leftarrow> read_call env (\<lambda>cl. GetIoC ops cl (ioc_ID i));
          case r of
            Inr _ \<Rightarrow> do {
              m \<leftarrow> read_call env (\<lambda>cl. MatchedComponentRefsByIoC ops cl (ioc_ID i));
              case m of
                Inl e \<Rightarrow> ret (Inl (writeError StatusInternalServerError ''STORAGE_ERROR'' (Err e)))
              | Inr refs \<Rightarrow> radius_loop sv env ops (affected @ uniq affected refs) gs
            }
          | Inl e \<Rightarrow>
              if e \<noteq> ErrNotFound
              then ret (Inl (writeError StatusInternalServerError ''STORAGE_ERROR'' (Err e)))
              else (case iocLookupKey i of
                      None \<Rightarrow> radius_loop sv env ops affected gs
                    | Some (eco, name) \<Rightarrow> do {
                        p \<leftarrow> read_call env (\<lambda>cl. ListSBOMPackages ops cl eco name);
                        case p of
                          Inl e \<Rightarrow> ret (Inl (writeError StatusInternalServerError ''STORAGE_ERROR'' (Err e)))
                        | Inr pkgs \<Rightarrow>
                            radius_loop sv env ops
                              (affected @ uniq affected (matchPackagesAgainstIoC sv i eco pkgs)) gs
                      })
        })"

definition h_BlastRadius ::
    "('c, 'v) semver \<Rightarrow> env \<Rightarrow> 's storage \<Rightarrow> string + gen_ioc list \<Rightarrow> ('s, response) act" where
  "h_BlastRadius sv env ops req =
     (case req of
        Inl msg \<Rightarrow> ret (writeError StatusBadRequest ''INVALID_PAYLOAD'' (Text msg))
      | Inr body \<Rightarrow>
          if body = []
          then ret (writeError StatusBadRequest ''INVALID_PAYLOAD'' (Text ''iocs is required and must be non-empty''))
          else do {
            r \<leftarrow> radius_loop sv env ops [] body;
            case r of
              Inl resp \<Rightarrow> ret resp
            | Inr affected \<Rightarrow> do {
                walked \<leftarrow> range_over env affected;
                now \<leftarrow> time_Now env;
                ret (writeJSON StatusOK (Radius (sort_slice (\<lambda>a b. a < b) walked) now))
              }
          })"

section \<open>Anomalies and publisher history\<close>

definition defaultAnomalyLimit :: int where
  "defaultAnomalyLimit = 100"

definition anomalyFilter :: "list_anomalies_params \<Rightarrow> anomaly_filter" where
  "anomalyFilter p = \<lparr>af_PackageRef = deref (lap_PackageRef p), af_Kind = deref (lap_Kind p),
     af_From = lap_From p, af_To = lap_To p,
     af_Limit = (case lap_Limit p of None \<Rightarrow> defaultAnomalyLimit | Some n \<Rightarrow> n)\<rparr>"

definition h_ListAnomalies :: "env \<Rightarrow> 's storage \<Rightarrow> list_anomalies_params \<Rightarrow> ('s, response) act" where
  "h_ListAnomalies env ops params = do {
     r \<leftarrow> read_call env (\<lambda>cl. ListAnomalies ops cl (anomalyFilter params));
     case r of
       Inl e \<Rightarrow> ret (writeError StatusInternalServerError ''STORAGE_ERROR'' (Err e))
     | Inr rows \<Rightarrow> ret (writeJSON StatusOK (Anoms (map anomalyToWire rows)))
   }"

definition h_GetAnomaly :: "env \<Rightarrow> 's storage \<Rightarrow> int \<Rightarrow> ('s, response) act" where
  "h_GetAnomaly env ops k = do {
     r \<leftarrow> read_call env (\<lambda>cl. GetAnomaly ops cl k);
     case r of
       Inl e \<Rightarrow>
         if e = ErrNotFound
         then ret (writeError StatusNotFound ''ANOMALY_NOT_FOUND'' (Text ''no anomaly with that id''))
         else ret (writeError StatusInternalServerError ''STORAGE_ERROR'' (Err e))
     | Inr a \<Rightarrow> ret (writeJSON StatusOK (Anom (anomalyToWire a)))
   }"

definition defaultHistoryLimit :: int where
  "defaultHistoryLimit = 100"

definition h_GetPublisherHistory :: "env \<Rightarrow> 's storage \<Rightarrow> string \<Rightarrow> int option \<Rightarrow> ('s, response) act" where
  "h_GetPublisherHistory env ops packageRef limit =
     (if packageRef = []
      then ret (writeError StatusBadRequest ''INVALID_PACKAGE_REF''
             (Text ''packageRef path parameter must be non-empty''))
      else do {
        r \<leftarrow> read_call env (\<lambda>cl. GetPublisherHistory ops cl packageRef
               (case limit of None \<Rightarrow> defaultHistoryLimit | Some n \<Rightarrow> n));
        case r of
          Inl e \<Rightarrow> ret (writeError StatusInternalServerError ''STORAGE_ERROR'' (Err e))
        | Inr rows \<Rightarrow> ret (writeJSON StatusOK (History (map snapshotToWire rows)))
      })"

section \<open>Detection completeness\<close>

text \<open>
  The promise of the engine: whenever a stored IoC matches a stored SBOM, there is an incident for
  the IoC and the component of the SBOM; and no two open incidents are about the same pair.
\<close>

definition detected :: "('c, 'v) semver \<Rightarrow> db \<Rightarrow> bool" where
  "detected sv d \<longleftrightarrow> (\<forall>i \<in> ran (db_iocs d). \<forall>b \<in> ran (db_sboms d).
     Matched (Evaluate sv i b) \<longrightarrow> covered d (ioc_ID i) (sbom_ComponentRef b))"

definition sboms_ok :: "db \<Rightarrow> bool" where
  "sboms_ok d \<longleftrightarrow> (\<forall>b \<in> ran (db_sboms d). uniform b \<and> sbom_Ecosystem b \<noteq> [] \<and>
     sbom_ComponentRef b \<in> dom (db_components d))"

definition engine_ok :: "('c, 'v) semver \<Rightarrow> db \<Rightarrow> bool" where
  "engine_ok sv d \<longleftrightarrow> detected sv d \<and> single_open d \<and> sboms_ok d"

definition parser_ok :: "sbom_parser \<Rightarrow> bool" where
  "parser_ok parse \<longleftrightarrow> (\<forall>cl content p. parse cl content = Inr p \<longrightarrow> ps_Ecosystem p \<noteq> [] \<and>
     (\<forall>q \<in> set (ps_Packages p). pv_Ecosystem q = ps_Ecosystem p))"

lemma ran_upd_subset: "ran (m(k \<mapsto> x)) \<subseteq> insert x (ran m)"
  by (auto simp: ran_def)

lemma detected_new_ioc:
  assumes "engine_ok sv d"
    and "opens ((\<lambda>r. (ioc_ID i, r)) ` {sbom_ComponentRef b | b. b \<in> ran (db_sboms d) \<and>
      Matched (Evaluate sv i b)}) (d\<lparr>db_iocs := (db_iocs d)(ioc_ID i \<mapsto> stored_ioc gran i)\<rparr>) d'"
  shows "engine_ok sv d'"
proof -
  have same: "db_sboms d' = db_sboms d" "db_iocs d' = (db_iocs d)(ioc_ID i \<mapsto> stored_ioc gran i)"
      "db_components d' = db_components d"
    using opens_same [OF assms(2)] by simp_all
  have le: "db_incidents d \<subseteq>\<^sub>m db_incidents d'" using assms(2) by (simp add: opens_def)
  have "single_open d \<Longrightarrow> single_open (d\<lparr>db_iocs := (db_iocs d)(ioc_ID i \<mapsto> stored_ioc gran i)\<rparr>)"
    by (simp add: single_open_def)
  then have so: "single_open d'" using assms unfolding engine_ok_def opens_def by blast
  have "covered d' (ioc_ID j) (sbom_ComponentRef b)"
    if "j \<in> ran (db_iocs d')" "b \<in> ran (db_sboms d)" "Matched (Evaluate sv j b)" for j b
  proof (cases "j = stored_ioc gran i")
    case True
    with that(3) have "Matched (Evaluate sv i b)" by simp
    then have "open_for d' (ioc_ID i) (sbom_ComponentRef b)"
      using assms(2) that(2) unfolding opens_def by blast
    then show ?thesis using True open_for_covered by simp
  next
    case False
    then have "j \<in> ran (db_iocs d)"
      using that(1) ran_upd_subset [of "db_iocs d" "ioc_ID i" "stored_ioc gran i"] unfolding same by blast
    then show ?thesis
      using assms(1) that covered_mono [OF le] unfolding engine_ok_def detected_def by blast
  qed
  then show ?thesis using assms(1) so by (simp add: engine_ok_def detected_def sboms_ok_def same)
qed

lemma detected_new_sbom:
  assumes "engine_ok sv d" and "uniform b" "sbom_Ecosystem b \<noteq> []"
    and "sbom_ComponentRef b \<in> dom (db_components d)"
    and "opens {(ioc_ID i, sbom_ComponentRef b) | i. i \<in> ran (db_iocs d) \<and> Matched (Evaluate sv i b)}
      (d\<lparr>db_sboms := (db_sboms d)(sbom_ID b \<mapsto> stored_sbom gran b)\<rparr>) d'"
  shows "engine_ok sv d'"
proof -
  have same: "db_sboms d' = (db_sboms d)(sbom_ID b \<mapsto> stored_sbom gran b)" "db_iocs d' = db_iocs d"
      "db_components d' = db_components d"
    using opens_same [OF assms(5)] by simp_all
  have le: "db_incidents d \<subseteq>\<^sub>m db_incidents d'" using assms(5) by (simp add: opens_def)
  have "single_open d \<Longrightarrow> single_open (d\<lparr>db_sboms := (db_sboms d)(sbom_ID b \<mapsto> stored_sbom gran b)\<rparr>)"
    by (simp add: single_open_def)
  then have so: "single_open d'" using assms(1,5) unfolding engine_ok_def opens_def by blast
  have old: "b' = stored_sbom gran b \<or> b' \<in> ran (db_sboms d)" if "b' \<in> ran (db_sboms d')" for b'
    using that ran_upd_subset [of "db_sboms d" "sbom_ID b" "stored_sbom gran b"] unfolding same by blast
  have "covered d' (ioc_ID i) (sbom_ComponentRef b')"
    if "i \<in> ran (db_iocs d)" "b' \<in> ran (db_sboms d')" "Matched (Evaluate sv i b')" for i b'
    using old [OF that(2)]
  proof
    assume "b' = stored_sbom gran b"
    with that(3) have "Matched (Evaluate sv i b)" by simp
    then have "open_for d' (ioc_ID i) (sbom_ComponentRef b)"
      using assms(5) that(1) unfolding opens_def by blast
    then show ?thesis using \<open>b' = stored_sbom gran b\<close> open_for_covered by simp
  next
    assume "b' \<in> ran (db_sboms d)"
    then show ?thesis
      using assms(1) that covered_mono [OF le] unfolding engine_ok_def detected_def by blast
  qed
  moreover have "sboms_ok d'"
    using assms(1-4) old unfolding engine_ok_def sboms_ok_def same(3) by (metis stored_simps(2,3,5))
  ultimately show ?thesis using so by (simp add: engine_ok_def detected_def same)
qed

lemma engine_ok_component:
  "engine_ok sv d \<Longrightarrow> engine_ok sv (d\<lparr>db_components := (db_components d)(k \<mapsto> x)\<rparr>)"
  by (simp add: engine_ok_def detected_def single_open_def sboms_ok_def covered_def)

text \<open>A transition keeps the identity of the incident and never reopens it.\<close>

lemma engine_ok_transition:
  assumes "engine_ok sv d" and "db_incidents d k = Some x" and "inc_IoCID y = inc_IoCID x"
    and "inc_AffectedComponentsSnapshot y = inc_AffectedComponentsSnapshot x"
    and "isNonTerminal (inc_State y) \<Longrightarrow> isNonTerminal (inc_State x)"
  shows "engine_ok sv (d\<lparr>db_incidents := (db_incidents d)(k \<mapsto> y)\<rparr>)"
proof -
  let ?d = "d\<lparr>db_incidents := (db_incidents d)(k \<mapsto> y)\<rparr>"
  have "covered ?d i r" if cov: "covered d i r" for i r
  proof -
    from cov obtain k' z where z: "db_incidents d k' = Some z" "inc_IoCID z = i"
        "r \<in> set (inc_AffectedComponentsSnapshot z)"
      by (auto simp: covered_def ran_def)
    have "\<exists>k' w. db_incidents ?d k' = Some w \<and> inc_IoCID w = i \<and> r \<in> set (inc_AffectedComponentsSnapshot w)"
    proof (cases "k' = k")
      case True
      then show ?thesis using z assms(2-4) by (intro exI [of _ k] exI [of _ y]) auto
    next
      case False
      then show ?thesis using z by (intro exI [of _ k'] exI [of _ z]) simp
    qed
    then show ?thesis unfolding covered_def ran_def by blast
  qed
  moreover have "single_open ?d"
    using assms unfolding engine_ok_def single_open_def by (auto split: if_splits) blast+
  ultimately show ?thesis
    using assms(1) by (simp add: engine_ok_def detected_def sboms_ok_def)
qed

lemma Transition_keeps:
  assumes "Transition x t now = Inr y"
  shows "inc_ID y = inc_ID x" "inc_IoCID y = inc_IoCID x"
    "inc_AffectedComponentsSnapshot y = inc_AffectedComponentsSnapshot x"
    "isNonTerminal (inc_State y) \<Longrightarrow> isNonTerminal (inc_State x)"
proof -
  show "inc_ID y = inc_ID x" "inc_IoCID y = inc_IoCID x"
    "inc_AffectedComponentsSnapshot y = inc_AffectedComponentsSnapshot x"
    using assms by (auto simp: Transition_def split: if_splits)
  show "isNonTerminal (inc_State x)" if "isNonTerminal (inc_State y)"
    using assms that
    by (auto simp: Transition_def CanTransitionTo_def isNonTerminal_def allowedTransitions_def get_def
        split: if_splits)
qed

section \<open>The handlers keep the promise\<close>

context storage_contract
begin

definition good :: "('c, 'v) semver \<Rightarrow> env \<Rightarrow> 's sys \<Rightarrow> bool" where
  "good sv env s \<longleftrightarrow> ready env s \<and> engine_ok sv (abs (sys_store s))"

lemma good_only_ticks: "good sv env s \<Longrightarrow> only_ticks s s' \<Longrightarrow> good sv env s'"
  using only_ticks_store [of s s'] ready_only_ticks [of env s s'] by (auto simp: good_def)

lemma good_tick [simp]: "good sv env s \<Longrightarrow> sys_tick s \<le> t \<Longrightarrow> good sv env (s\<lparr>sys_tick := t\<rparr>)"
  by (erule good_only_ticks) simp

lemma good_bus [simp]:
  "good sv env s \<Longrightarrow> sys_tick s \<le> t \<Longrightarrow> good sv env (s\<lparr>sys_bus := b, sys_tick := t\<rparr>)"
  by (simp add: good_def ready_tick)

lemma good_component:
  assumes "quiet env" and "good sv env s" and "sys_tick s \<le> t"
  shows "good sv env (s\<lparr>sys_store := snd (UpsertComponent ops (call_at env n) x (sys_store s)), sys_tick := t\<rparr>)"
  using assms upsert_component [of "sys_store s" "call_at env n" x]
  by (auto simp: good_def ready_def ids_fresh_def engine_ok_component)

lemma upsert_component_good:
  assumes "quiet env" and "good sv env s"
  shows "wp (h_UpsertComponent env ops req) (\<lambda>_. good sv env) s"
proof (cases req)
  case (Inr body)
  have r: "wp (h_UpsertComponent env ops (Inr body)) (\<lambda>_. good sv env) s"
    if "ParseComponentRef (gc_Ref body) = Inr (kind, ns, name)" "gc_Ref body \<noteq> []" for kind ns name
    using assms that good_component [OF assms(1), of sv "s\<lparr>sys_tick := Suc (sys_tick s)\<rparr>"]
      upsert_component_err [of "call_at env (Suc (sys_tick s))"]
      get_component [of "sys_store s" "call_at env (sys_tick s)"]
    by (auto simp: h_UpsertComponent_def good_def [of sv env s] ready_def Let_def split: option.splits)
  show ?thesis
  proof (cases "gc_Ref body = []")
    case False
    with r show ?thesis
      using Inr assms by (cases "ParseComponentRef (gc_Ref body)") (auto simp: h_UpsertComponent_def)
  qed (simp add: Inr assms h_UpsertComponent_def)
qed (simp add: assms h_UpsertComponent_def)

lemma matched_incidents:
  assumes "quiet env" and "ready env s" and "\<And>d'. opens (pair_of ` set ps) (abs (sys_store s)) d' \<Longrightarrow> engine_ok sv d'"
  shows "wp (openIncidentsForMatches env ops ps) (\<lambda>(out, err) s'. err = None \<and> good sv env s') s"
  unfolding openIncidentsForMatches_def
  by (rule wp_mono [OF open_with_spec [OF assms(1,2) harmless_publish]])
    (use assms(3) in \<open>auto simp: good_def after_def\<close>)

lemma store_ioc_good:
  assumes "quiet env" and "good sv env s" and "ioc_Ecosystem i \<noteq> []" and "ioc_AnomalyBody i = None"
  shows "wp (store_ioc sv env ops i) (\<lambda>r s'. good sv env s' \<and> r = JSON StatusCreated (IoCBody (toGenIoC i))) s"
proof -
  let ?n = "sys_tick s"
  let ?s = "s\<lparr>sys_store := snd (UpsertIoC ops (call_at env ?n) i (sys_store s)), sys_tick := Suc ?n\<rparr>"
  have rs: "ready env s" "engine_ok sv (abs (sys_store s))" using assms(2) by (simp_all add: good_def)
  note u = ready_upsert_ioc [OF assms(1) rs(1), of "Suc ?n" ?n i, simplified]
  have "bulk_safe i b" if "b \<in> ran (db_sboms (abs (sys_store ?s)))" for b
    using rs(2) that assms(3,4) by (simp add: u(2) engine_ok_def sboms_ok_def bulk_safe_def)
  note fwd = forward_spec [OF assms(1) u(1) this, of sv]
  have h: "hit_refs sv ?s i = {sbom_ComponentRef b | b. b \<in> ran (db_sboms (abs (sys_store s))) \<and>
      Matched (Evaluate sv i b)}"
    by (simp add: hit_refs_def u(2))
  have opn: "wp (openIncidentsForMatches env ops (map (\<lambda>ref. \<lparr>mp_IoCID = ioc_ID i, mp_ComponentRef = ref\<rparr>) refs))
      (\<lambda>(out, err) s''. err = None \<and> good sv env s'') s'"
    if "only_ticks ?s s'" "set refs = hit_refs sv ?s i" for refs s'
  proof (rule matched_incidents [OF assms(1) ready_only_ticks [OF u(1) that(1)]])
    fix d'
    assume o: "opens (pair_of ` set (map (\<lambda>ref. \<lparr>mp_IoCID = ioc_ID i, mp_ComponentRef = ref\<rparr>) refs))
        (abs (sys_store s')) d'"
    have "abs (sys_store s') = (abs (sys_store s))\<lparr>db_iocs := (db_iocs (abs (sys_store s)))(ioc_ID i \<mapsto> stored_ioc gran i)\<rparr>"
      using only_ticks_store [OF that(1)] by (simp add: u(2))
    with o that(2) show "engine_ok sv d'"
      by (intro detected_new_ioc [OF rs(2), of i]) (simp add: image_image h)
  qed
  show ?thesis
    unfolding store_ioc_def
    apply (simp add: u(3))
    apply (rule wp_mono [OF fwd], assumption)
    apply (elim exE conjE)
    apply (simp only: sum.case prod.case wp_bind)
    apply (rule wp_mono [OF opn], assumption, assumption)
    apply (auto simp: writeJSON_def)
    done
qed

lemma submit_ioc_good:
  assumes "quiet env" and "good sv env s" and "\<And>g. req = Inr g \<Longrightarrow> gi_Ecosystem g \<noteq> []"
  shows "wp (h_SubmitIoC sv env ops req) (\<lambda>_. good sv env) s"
proof (cases req)
  case (Inr g)
  have "ioc_Ecosystem (fromGenIoC g) \<noteq> []" "ioc_AnomalyBody (fromGenIoC g) = None"
    using assms(3) [OF Inr] by (simp_all add: fromGenIoC_def)
  from store_ioc_good [OF assms(1,2) this]
  have "wp (store_ioc sv env ops (fromGenIoC g)) (\<lambda>_. good sv env) s" by (rule wp_mono) simp
  then show ?thesis
    using assms(2) Inr by (simp add: h_SubmitIoC_def Let_def split: option.split)
qed (simp add: assms h_SubmitIoC_def)

lemma publish_matches_good:
  "good sv env s \<Longrightarrow> wp (publish_matches env ref ks) (\<lambda>_. good sv env) s"
proof (induction ks arbitrary: s)
  case (Cons k ks)
  then show ?case
    using Cons.IH [of "s\<lparr>sys_bus := b, sys_tick := Suc (Suc (sys_tick s))\<rparr>" for b] by simp
qed simp

lemma store_sbom_good:
  assumes "quiet env" and "good sv env s" and "uniform b" "sbom_Ecosystem b \<noteq> []"
    and "sbom_ComponentRef b \<in> dom (db_components (abs (sys_store s)))"
    and "\<And>n. sys_tick s \<le> n \<Longrightarrow> e_ulid env n \<noteq> sbom_ID b"
  shows "wp (store_sbom sv env ops b) (\<lambda>r s'. good sv env s' \<and> r = JSON StatusCreated (Sbom (toGenSBOM b))) s"
proof -
  let ?n = "sys_tick s" and ?d = "abs (sys_store s)"
  let ?st = "snd (UpsertSBOM ops (call_at env ?n) b (sys_store s))"
  have rs: "ready env s" "engine_ok sv ?d" using assms(2) by (simp_all add: good_def)
  have u: "invar ?st" "abs ?st = ?d\<lparr>db_sboms := (db_sboms ?d)(sbom_ID b \<mapsto> stored_sbom gran b)\<rparr>"
      "fst (UpsertSBOM ops (call_at env ?n) b (sys_store s)) = None"
    using upsert_sbom [of "sys_store s" "call_at env ?n" b] upsert_sbom_err [of "call_at env ?n" b] assms(1) rs(1)
    by (simp_all add: ready_def)
  have r: "ready env (s\<lparr>sys_store := ?st, sys_bus := bus, sys_tick := t\<rparr>)" if "?n \<le> t" for bus t
    using rs(1) u(1,2) assms(6) that by (auto simp: ready_def ids_fresh_def)
  have opn: "wp (openIncidentsForMatches env ops ps) (\<lambda>(out, err) s''. err = None \<and> good sv env s'') s'"
    if "ready env s'" "abs (sys_store s') = abs ?st" "pair_of ` set ps =
      {(ioc_ID i, sbom_ComponentRef b) | i. i \<in> ran (db_iocs (abs ?st)) \<and> Matched (Evaluate sv i b)}" for ps s'
    by (rule matched_incidents [OF assms(1) that(1)], rule detected_new_sbom [OF rs(2) assms(3-5)])
      (use that in \<open>simp add: u(2)\<close>)
  show ?thesis
    unfolding store_sbom_def
    apply (simp add: u(3))
    apply (rule wp_mono [OF retroactive_spec [OF assms(1) r]], simp)
    apply (elim exE conjE)
    apply (simp only: sum.case prod.case wp_bind)
    apply (rule wp_mono [OF opn])
       apply (erule ready_only_ticks [rotated], rule r, simp)
      apply (drule only_ticks_store, simp)
     apply simp
    apply (clarsimp simp: writeJSON_def)
    apply (rule wp_mono [OF publish_matches_good], assumption, simp)
    done
qed

lemma submit_sbom_good:
  assumes "quiet env" and "good sv env s" and "parser_ok parse"
  shows "wp (h_SubmitSBOM sv parse env ops ref req) (\<lambda>_. good sv env) s"
proof -
  let ?n = "sys_tick s"
  have rs: "ready env s" using assms(2) by (simp add: good_def)
  have g: "GetComponent ops (call_at env ?n) ref (sys_store s) =
      (case db_components (abs (sys_store s)) ref of None \<Rightarrow> Inl ErrNotFound | Some x \<Rightarrow> Inr x)"
    using get_component [of "sys_store s" "call_at env ?n" ref] rs assms(1) by (simp add: ready_def)
  have "wp (store_sbom sv env ops \<lparr>sbom_ID = e_ulid env (Suc (Suc ?n)), sbom_ComponentRef = ref,
        sbom_CommitSHA = sha, sbom_Ecosystem = ps_Ecosystem p, sbom_GeneratedAt = t,
        sbom_Packages = ps_Packages p, sbom_SourceFormat = fmt, sbom_SourceBytes = n\<rparr>)
      (\<lambda>_. good sv env) (s\<lparr>sys_tick := Suc (Suc (Suc (Suc ?n)))\<rparr>)"
    if "db_components (abs (sys_store s)) ref = Some x" "parse cl c = Inr p" for x sha p t fmt n c cl
    by (rule wp_mono [OF store_sbom_good [OF assms(1)]])
      (use that assms in \<open>auto simp: parser_ok_def uniform_def\<close>)
  then show ?thesis
    using assms(2) by (auto simp: h_SubmitSBOM_def g Ingest_def split: option.split sum.split)
qed

lemma good_incident:
  assumes "quiet env" and "good sv env s" and "sys_tick s \<le> t"
    and "engine_ok sv ((abs (sys_store s))\<lparr>db_incidents := (db_incidents (abs (sys_store s)))(inc_ID x \<mapsto> stored_incident gran x)\<rparr>)"
    and "db_incidents (abs (sys_store s)) (inc_ID x) \<noteq> None"
  shows "good sv env (s\<lparr>sys_store := snd (UpsertIncident ops (call_at env n) x (sys_store s)), sys_tick := t\<rparr>)"
proof -
  have "e_ulid env m \<noteq> inc_ID x" if "sys_tick s \<le> m" for m
    using assms(2,5) that by (auto simp: good_def ready_def ids_fresh_def)
  then show ?thesis
    using assms upsert_incident [of "sys_store s" "call_at env n" x]
    by (auto simp: good_def ready_def ids_fresh_def)
qed

lemma transition_good:
  assumes "quiet env" and "good sv env s"
  shows "wp (h_TransitionIncident env ops k req) (\<lambda>_. good sv env) s"
proof (cases req)
  case (Inr target)
  let ?n = "sys_tick s" and ?d = "abs (sys_store s)"
  show ?thesis
  proof (cases "GetIncident ops (call_at env ?n) k (sys_store s)")
    case (Inl e)
    then show ?thesis using Inr assms by (simp add: h_TransitionIncident_def)
  next
    case g: (Inr x)
    have bx: "db_incidents ?d k = Some (bare x)"
      using get_incident [of "sys_store s" "call_at env ?n" k] assms g
      by (auto simp: good_def ready_def split: option.splits)
    then have "inc_ID (bare x) = k"
      using keys [of "sys_store s"] assms(2) unfolding good_def ready_def keyed_def by blast
    then have key: "inc_ID x = k" by simp
    let ?s = "s\<lparr>sys_tick := Suc (Suc ?n)\<rparr>"
    have up: "good sv env (?s\<lparr>sys_store := snd (UpsertIncident ops (call_at env (Suc (Suc ?n))) y (sys_store ?s)),
        sys_tick := Suc (Suc (Suc ?n))\<rparr>)"
      if t: "Transition x target now = Inr y" for y now
    proof (rule good_incident [OF assms(1)])
      note tr = Transition_keeps [OF t]
      show "good sv env ?s" using assms(2) by simp
      show "engine_ok sv ((abs (sys_store ?s))\<lparr>db_incidents := (db_incidents (abs (sys_store ?s)))(inc_ID y \<mapsto> stored_incident gran y)\<rparr>)"
        using engine_ok_transition [of sv ?d k "bare x" "stored_incident gran y"] assms(2) bx tr key
        by (simp add: good_def)
      show "db_incidents (abs (sys_store ?s)) (inc_ID y) \<noteq> None" using bx tr(1) key by simp
    qed simp
    have "wp (h_TransitionIncident env ops k (Inr target)) (\<lambda>_. good sv env) s"
    proof (cases "Transition x target (e_now env (Suc ?n))")
      case (Inl e)
      then show ?thesis using assms g by (cases e) (simp_all add: h_TransitionIncident_def)
    next
      case (Inr y)
      then show ?thesis
        using assms g up [OF Inr] upsert_incident_err [of "call_at env (Suc (Suc ?n))" y]
          good_bus [OF up [OF Inr]]
        by (simp add: h_TransitionIncident_def)
    qed
    then show ?thesis using Inr by simp
  qed
qed (simp add: assms h_TransitionIncident_def)

lemma good_remediation:
  assumes "quiet env" and "good sv env s" and "sys_tick s \<le> t"
  shows "good sv env (s\<lparr>sys_store := snd (AppendRemediation ops (call_at env n) k r (sys_store s)), sys_tick := t\<rparr>)"
    and "good sv env (s\<lparr>sys_store := snd (AppendRemediation ops (call_at env n) k r (sys_store s)),
      sys_bus := b, sys_tick := t\<rparr>)"
  using assms append_remediation [of "sys_store s" "call_at env n" k r]
  by (auto simp: good_def ready_def intro: ids_fresh_mono)

lemma remediation_good:
  assumes "quiet env" and "good sv env s"
  shows "wp (h_AddRemediation env ops k req) (\<lambda>_. good sv env) s"
  using assms
  by (auto simp: h_AddRemediation_def Let_def good_remediation split: sum.split option.split)

lemma orchestrator_submit_good:
  assumes "quiet env" and "good sv env s"
  shows "wp (Submit sv env ops has_bus i) (\<lambda>(res, err) s'. err = None \<and> good sv env s') s"
proof (rule wp_mono [OF submit_spec [OF assms(1)]])
  show "ready env s" using assms(2) by (simp add: good_def)
  show "hit_refs sv s i \<subseteq> dom (db_components (abs (sys_store s)))"
    using assms(2) by (auto simp: good_def engine_ok_def sboms_ok_def hit_refs_def)
  show "\<And>r s'. (case r of (res, err) \<Rightarrow> \<lambda>s'. err = None \<and> after env s s' \<and>
      set (MatchedComponents res) = hit_refs sv s i \<and>
      opens ((\<lambda>r. (ioc_ID i, r)) ` hit_refs sv s i)
        ((abs (sys_store s))\<lparr>db_iocs := (db_iocs (abs (sys_store s)))(ioc_ID i \<mapsto> stored_ioc gran i)\<rparr>)
        (abs (sys_store s'))) s' \<Longrightarrow>
    (case r of (res, err) \<Rightarrow> \<lambda>s'. err = None \<and> good sv env s') s'"
    using assms(2) detected_new_ioc [of sv "abs (sys_store s)" i]
    by (auto simp: good_def after_def hit_refs_def)
qed

end

section \<open>Blast radius meets its specification\<close>

context storage_contract
begin

definition radius_of :: "('c, 'v) semver \<Rightarrow> 's sys \<Rightarrow> gen_ioc \<Rightarrow> string set" where
  "radius_of sv s g =
     (if db_iocs (abs (sys_store s)) (gi_Id g) \<noteq> None
      then {r. covered (abs (sys_store s)) (gi_Id g) r}
      else hit_refs sv s (fromGenIoC g))"

lemma covered_refs:
  "(\<Union>i \<in> {i \<in> ran (db_incidents d). inc_IoCID i = k}. set (inc_AffectedComponentsSnapshot i)) = {r. covered d k r}"
  by (auto simp: covered_def)

lemma radius_of_ticks: "only_ticks s s' \<Longrightarrow> radius_of sv s' g = radius_of sv s g"
  using only_ticks_store [of s s'] by (simp add: radius_of_def hit_refs_def)

lemma radius_step_live:
  assumes "quiet env" and "ready env s" and "\<And>b. b \<in> ran (db_sboms (abs (sys_store s))) \<Longrightarrow> bulk_safe i b"
  shows "case iocLookupKey i of
      None \<Rightarrow> hit_refs sv s i = {}
    | Some (eco, name) \<Rightarrow> \<exists>pkgs. ListSBOMPackages ops (call_at env n) eco name (sys_store s) = Inr pkgs \<and>
        set (matchPackagesAgainstIoC sv i eco pkgs) = hit_refs sv s i"
proof -
  show ?thesis
  proof (cases "iocLookupKey i")
    case None
    then show ?thesis using assms(3) by (auto simp: hit_refs_def bulk_exact)
  next
    case (Some q)
    obtain eco name where q: "q = (eco, name)" by (cases q)
    have "uniform b" if "b \<in> ran (db_sboms (abs (sys_store s)))" for b
      using assms(3) [OF that] by (simp add: bulk_safe_def)
    then obtain xs where xs: "ListSBOMPackages ops (call_at env n) eco name (sys_store s) = Inr xs"
        "set xs = {\<lparr>spr_ComponentRef = sbom_ComponentRef b, spr_Package = p\<rparr> | b p.
            b \<in> ran (db_sboms (abs (sys_store s))) \<and> sbom_Ecosystem b = eco \<and> p \<in> set (sbom_Packages b) \<and>
            pv_Name p = name}"
      using list_packages [of "sys_store s" "call_at env n" eco name] assms(1,2) by (auto simp: ready_def)
    have "set (matchPackagesAgainstIoC sv i eco xs) = hit_refs sv s i"
      by (rule bulk_match_set [OF xs(2)]) (use assms(3) Some q in auto)
    with Some q xs(1) show ?thesis by auto
  qed
qed

lemma radius_loop_spec:
  assumes "quiet env"
  shows "ready env s \<Longrightarrow> (\<And>g. g \<in> set gs \<Longrightarrow> ioc_Validate (fromGenIoC g) = None) \<Longrightarrow>
    (\<And>g b. g \<in> set gs \<Longrightarrow> b \<in> ran (db_sboms (abs (sys_store s))) \<Longrightarrow> bulk_safe (fromGenIoC g) b) \<Longrightarrow>
    distinct affected \<Longrightarrow>
    wp (radius_loop sv env ops affected gs)
      (\<lambda>r s'. \<exists>out. r = Inr out \<and> only_ticks s s' \<and> distinct out \<and>
        set out = set affected \<union> (\<Union>g \<in> set gs. radius_of sv s g)) s"
proof (induction gs arbitrary: s affected)
  case (Cons g gs)
  let ?n = "sys_tick s" and ?d = "abs (sys_store s)" and ?i = "fromGenIoC g"
  have gid: "ioc_ID ?i = gi_Id g" by (simp add: fromGenIoC_def)
  have inv: "invar (sys_store s)" using Cons.prems(1) by (simp add: ready_def)
  have gi: "GetIoC ops (call_at env ?n) (gi_Id g) (sys_store s) =
      (case db_iocs ?d (gi_Id g) of None \<Rightarrow> Inl ErrNotFound | Some x \<Rightarrow> Inr x)"
    using get_ioc [OF inv, of "call_at env ?n"] assms by simp
  have rest: "wp (radius_loop sv env ops (affected @ uniq affected refs) gs)
      (\<lambda>r s'. \<exists>out. r = Inr out \<and> only_ticks s s' \<and> distinct out \<and>
        set out = set affected \<union> (\<Union>g \<in> set (g # gs). radius_of sv s g)) (s\<lparr>sys_tick := t\<rparr>)"
    if "set refs = radius_of sv s g" "?n \<le> t" for refs t
  proof (rule wp_mono [OF Cons.IH])
    show "ready env (s\<lparr>sys_tick := t\<rparr>)" using Cons.prems(1) that(2) by (rule ready_tick)
    show "distinct (affected @ uniq affected refs)" using Cons.prems(4) by auto
    fix r s'
    assume "\<exists>out. r = Inr out \<and> only_ticks (s\<lparr>sys_tick := t\<rparr>) s' \<and> distinct out \<and>
        set out = set (affected @ uniq affected refs) \<union> (\<Union>g \<in> set gs. radius_of sv (s\<lparr>sys_tick := t\<rparr>) g)"
    moreover have "only_ticks s (s\<lparr>sys_tick := t\<rparr>)" using that(2) by simp
    moreover have "radius_of sv (s\<lparr>sys_tick := t\<rparr>) g' = radius_of sv s g'" for g'
      using that(2) by (intro radius_of_ticks) simp
    ultimately show "\<exists>out. r = Inr out \<and> only_ticks s s' \<and> distinct out \<and>
        set out = set affected \<union> (\<Union>g \<in> set (g # gs). radius_of sv s g)"
      using that by (auto intro: only_ticks_tick)
  qed (use Cons.prems(2,3) in auto)
  note rest0 = rest [of "[]", simplified]
  show ?case
  proof (cases "db_iocs ?d (gi_Id g)")
    case (Some x)
    obtain refs where refs: "MatchedComponentRefsByIoC ops (call_at env (Suc ?n)) (gi_Id g) (sys_store s) = Inr refs"
        "set refs = {r. covered ?d (gi_Id g) r}"
      using matched_refs [OF inv, of "call_at env (Suc ?n)" "gi_Id g"] assms unfolding covered_refs by auto
    then have "set refs = radius_of sv s g" using Some by (simp add: radius_of_def)
    from rest [OF this, of "Suc (Suc ?n)"] show ?thesis
      using Cons.prems(2) Some refs(1) gi by (simp add: gid Let_def)
  next
    case None
    then have rad: "radius_of sv s g = hit_refs sv s ?i" by (simp add: radius_of_def)
    have live: "case iocLookupKey ?i of
      None \<Rightarrow> hit_refs sv s ?i = {}
    | Some (eco, name) \<Rightarrow> \<exists>pkgs. ListSBOMPackages ops (call_at env (Suc ?n)) eco name (sys_store s) = Inr pkgs \<and>
        set (matchPackagesAgainstIoC sv ?i eco pkgs) = hit_refs sv s ?i"
      using Cons.prems(3) by (intro radius_step_live [OF assms Cons.prems(1)]) simp
    show ?thesis
    proof (cases "iocLookupKey ?i")
      case key: None
      then have e: "radius_of sv s g = {}" using live rad by simp
      from rest0 [OF e [symmetric], of "Suc ?n"] show ?thesis
        using Cons.prems(2) None gi key by (simp add: gid Let_def e)
    next
      case key: (Some q)
      then obtain eco name pkgs where k: "q = (eco, name)"
          "ListSBOMPackages ops (call_at env (Suc ?n)) eco name (sys_store s) = Inr pkgs"
          "set (matchPackagesAgainstIoC sv ?i eco pkgs) = radius_of sv s g"
        using live rad by (cases q) auto
      from rest [OF k(3), of "Suc (Suc ?n)"] show ?thesis
        using Cons.prems(2) None gi key k(1,2) by (simp add: gid Let_def)
    qed
  qed
qed simp

end

lemma radius_tail:
  assumes "quiet env" and "distinct out"
  shows "wp (State_Monad.bind (range_over env out) (\<lambda>walked. State_Monad.bind (time_Now env)
      (\<lambda>now. ret (writeJSON StatusOK (Radius (sort_slice (\<lambda>a b. a < b) walked) now)))))
    (\<lambda>r s'. only_ticks s s' \<and> (\<exists>refs t. r = JSON StatusOK (Radius refs t) \<and> sorted refs \<and>
      distinct refs \<and> set refs = set out)) s"
proof -
  let ?w = "in_order (e_order env (sys_tick s)) out"
  have "distinct (sort_slice (\<lambda>a b. a < b) ?w)"
    using assms distinct_in_order [of "e_order env (sys_tick s)" "\<lambda>x. x" out]
      distinct_sort_slice [of "\<lambda>x. x" "\<lambda>a b. a < b" ?w] by simp
  moreover have "sorted (sort_slice (\<lambda>a b. a < b) ?w)" using by_string.sorted_slice [of ?w] by simp
  moreover have "set (sort_slice (\<lambda>a b. a < b) ?w) = set out" using assms(1) by simp
  ultimately show ?thesis by (simp add: writeJSON_def)
qed

lemma only_ticks_same: "only_ticks s s' \<Longrightarrow> sys_store s' = sys_store s \<and> sys_bus s' = sys_bus s"
  unfolding only_ticks_def by (cases s, cases s') simp

section \<open>Properties\<close>


lemma loaded_sboms: "ran (get (sboms (sys_store loaded_sys))) = {sample_sbom}"
  by (auto simp: loaded_sys_def mem_upsert_defs mem_New_def ran_def)

lemma sample_match: "Matched (Evaluate sample_semver sample_ioc sample_sbom)"
  by (simp add: Matched_iff compatible_def fires_def sample_ioc_def sample_sbom_def sample_package_def)

lemma sample_bulk_safe: "bulk_safe sample_ioc sample_sbom"
  by (simp add: bulk_safe_def uniform_def sample_ioc_def sample_sbom_def sample_package_def)

lemma sample_wire: "fromGenIoC (toGenIoC sample_ioc) = sample_ioc" "gi_Id (toGenIoC sample_ioc) = ''ioc1''"
  by (simp_all add: fromGenIoC_def toGenIoC_def sample_ioc_def)


text \<open>
  An IoC that names no ecosystem is missed by the bulk lookup: the evaluator treats the empty
  ecosystem as compatible with every SBOM, so a later SBOM would be matched against the IoC, but the
  lookup made when the IoC is published reports no component at all.
\<close>

theorem empty_ecosystem_missed:
  "\<exists>(sv :: (string, string) semver) env s i b. quiet env \<and> store_ok (sys_store s) \<and>
     b \<in> ran (get (sboms (sys_store s))) \<and> uniform b \<and> Matched (Evaluate sv i b) \<and>
     fst (run_state (forwardMatch sv env memory i) s) = Inr ([], [])"
proof (intro exI conjI)
  let ?i = "sample_ioc\<lparr>ioc_Ecosystem := []\<rparr>"
  show "quiet sample_env" by (rule quiet_sample)
  show "store_ok (sys_store loaded_sys)" by (rule loaded_sys_fresh)
  show "sample_sbom \<in> ran (get (sboms (sys_store loaded_sys)))" by (simp add: loaded_sboms)
  show "uniform sample_sbom" using sample_bulk_safe by (simp add: bulk_safe_def)
  show "Matched (Evaluate sample_semver ?i sample_sbom)"
    by (simp add: Matched_iff compatible_def fires_def sample_ioc_def sample_sbom_def sample_package_def)
  have k: "iocLookupKey ?i = Some ([], ''axios'')" by (simp add: iocLookupKey_def sample_ioc_def)
  have "mem_ListSBOMPackages (call_at sample_env 0) [] ''axios'' (sys_store loaded_sys) = Inr []"
    by (simp add: mem_ListSBOMPackages_def loaded_sys_def mem_upsert_defs mem_New_def values_in_def
        call_at_def sample_env_def sbom_rows_def sample_sbom_def sort_slice_def with_err_def put_def)
  moreover have "sys_tick loaded_sys = 0" by (simp add: loaded_sys_def sample_sys_def)
  ultimately show "fst (run_state (forwardMatch sample_semver sample_env memory ?i) loaded_sys) = Inr ([], [])"
    by (simp add: forwardMatch_def k read_call_def State_Monad.bind_def ret_def State_Monad.return_def
        matchPackagesAgainstIoC_def)
qed





end
