(* ===== verification/Frames.thy ===== *)
theory Frames
  imports Handlers
begin

text \<open>
  What the request handlers leave alone. A predicate of the store that the five writing calls of the
  request path keep is kept by every handler, whatever the environment answers, cancelled contexts
  and failing calls included.
\<close>

locale incident_frame =
  fixes ops :: "'s storage" and P :: "'s \<Rightarrow> bool"
  assumes incident_keeps: "P s \<Longrightarrow> P (snd (UpsertIncident ops c n s))"
begin

lemma keeps_open_pairs:
  "(\<And>e. keeps P (pub e)) \<Longrightarrow> keeps P (open_pairs env ops pub now idx opened ps)"
  by (induction ps arbitrary: idx opened) (auto intro!: keeps_intros keeps_write intro: incident_keeps)

lemma keeps_open_with: "(\<And>e. keeps P (pub e)) \<Longrightarrow> keeps P (open_with env ops pub ps)"
  unfolding open_with_def by (intro keeps_intros keeps_open_pairs)

lemma keeps_walk: "keeps P (walk_components sv env ops i seen xs)"
  by (induction xs arbitrary: seen) (auto intro!: keeps_intros)

lemma keeps_Submit_of:
  "(\<And>c s. P s \<Longrightarrow> P (snd (UpsertIoC ops c i s))) \<Longrightarrow> keeps P (Submit sv env ops bus i)"
  unfolding Submit_def fwd_forwardMatch_def fwd_openIncidentsForMatches_def fwd_publish_def
  by (intro keeps_intros keeps_walk keeps_open_with keeps_write)

lemma keeps_openIncidents: "keeps P (openIncidentsForMatches env ops ps)"
  unfolding openIncidentsForMatches_def by (intro keeps_open_with keeps_intros)

end

locale frame = incident_frame +
  assumes component_keeps: "P s \<Longrightarrow> P (snd (UpsertComponent ops c x s))"
    and sbom_keeps: "P s \<Longrightarrow> P (snd (UpsertSBOM ops c b s))"
    and ioc_keeps: "P s \<Longrightarrow> P (snd (UpsertIoC ops c i s))"
    and remediation_keeps: "P s \<Longrightarrow> P (snd (AppendRemediation ops c k r s))"
begin

lemmas writes = component_keeps sbom_keeps ioc_keeps incident_keeps remediation_keeps

lemma keeps_Submit: "keeps P (Submit sv env ops bus i)"
  by (intro keeps_Submit_of writes)

lemma keeps_publish_matches: "keeps P (publish_matches env ref ids)"
  by (induction ids) (auto intro!: keeps_intros)

lemma keeps_component_handler: "keeps P (h_UpsertComponent env ops req)"
  unfolding h_UpsertComponent_def by (intro keeps_intros keeps_write writes)

lemma keeps_sbom_handler: "keeps P (h_SubmitSBOM sv parse env ops ref req)"
  unfolding h_SubmitSBOM_def store_sbom_def Ingest_def retroactiveMatch_def
  by (intro keeps_intros keeps_publish_matches keeps_openIncidents keeps_write writes)

lemma keeps_ioc_handler: "keeps P (h_SubmitIoC sv env ops req)"
  unfolding h_SubmitIoC_def store_ioc_def forwardMatch_def
  by (intro keeps_intros keeps_openIncidents keeps_write writes)

lemma keeps_transition_handler: "keeps P (h_TransitionIncident env ops k req)"
proof -
  have e: "keeps P (case e of ErrInvalidTransition a b \<Rightarrow> ret x | _ \<Rightarrow> ret y)" for e and x y :: response
    by (cases e) (simp_all add: keeps_ret)
  show ?thesis
    unfolding h_TransitionIncident_def by (intro keeps_intros e keeps_write writes)
qed

lemma keeps_remediation_handler: "keeps P (h_AddRemediation env ops k req)"
  unfolding h_AddRemediation_def by (intro keeps_intros keeps_write writes)

end

text \<open>The request path of the in-memory backend touches neither publisher histories nor anomalies.\<close>

definition publisher_state :: "store \<Rightarrow> (string, publisher_snapshot list) gomap \<times> (int, anomaly) gomap \<times>
    (string \<times> string \<times> time, int) gomap" where
  "publisher_state s = (publisherHistory s, anomalies s, anomalyDedup s)"

interpretation requests: frame memory "\<lambda>s. publisher_state s = p" for p
  by unfold_locales
    (simp_all add: publisher_state_def mem_upsert_defs mem_AppendRemediation_def split: option.split)

end
