(* ===== verification/Publisher.thy ===== *)
theory Publisher
  imports Runtime
begin

text \<open>
  \<^verbatim>\<open>engine/publisher\<close>: the HTTP client of the ingestors with its retry policy, the npm and GitHub ingestors
  that turn registry answers into publisher snapshots, and the scheduler that refreshes stale packages.

  The network, the rate limiter and the context are parameters: \<open>hx_wait n\<close> is what the limiter
  answers before attempt \<open>n\<close>, \<open>hx_do n\<close> what the transport answers to it, and \<open>hx_ctx n d\<close> the error of
  the context if it ends during the sleep of \<open>d\<close> after attempt \<open>n\<close>. JSON decoding and the parsing of RFC 3339 times
  are parameters of the ingestors.
\<close>

section \<open>The retrying client\<close>

record http_response =
  rs_StatusCode :: int
  rs_RetryAfter :: string
  rs_Body :: string
  rs_ReadErr :: bool

record http_env =
  hx_wait :: "nat \<Rightarrow> error option"
  hx_badURL :: "string \<Rightarrow> bool"
  hx_do :: "nat \<Rightarrow> string \<Rightarrow> (string, string list) gomap \<Rightarrow> string + http_response"
  hx_ctx :: "nat \<Rightarrow> int64 \<Rightarrow> error option"

datatype http_error =
    HxNotFound string
  | HxRateLimited string
  | HxServerFailure
  | HxContext error
  | HxBuildRequest
  | HxReadBody
  | HxUnexpectedStatus int string string

record http_client =
  hc_Timeout :: int64
  hc_Header :: "(string, string list) gomap"
  hc_MaxRetries :: int
  hc_RetryBaseDelay :: int64
  hc_RetryMaxDelay :: int64

definition Second64 :: int64 where
  "Second64 = 1000000000"

definition httpx_New :: "int64 \<Rightarrow> http_client" where
  "httpx_New timeout = \<lparr>hc_Timeout = timeout, hc_Header = [], hc_MaxRetries = 3,
     hc_RetryBaseDelay = 500 * 1000000, hc_RetryMaxDelay = 30 * Second64\<rparr>"

definition backoff :: "nat \<Rightarrow> int64 \<Rightarrow> int64 \<Rightarrow> int64" where
  "backoff attempt baseDelay maxDelay =
     (let d = push_bit attempt baseDelay in
      if sint d \<le> 0 \<or> sint d > sint maxDelay then maxDelay else d)"

definition retryAfterOrBackoff :: "string \<Rightarrow> nat \<Rightarrow> int64 \<Rightarrow> int64 \<Rightarrow> int64" where
  "retryAfterOrBackoff header attempt baseDelay maxDelay =
     (let fallback = backoff attempt baseDelay maxDelay in
      if header \<noteq> [] then
        (case Atoi header of
           None \<Rightarrow> fallback
         | Some n \<Rightarrow>
             if n \<ge> 0 then
               (let d = word_of_int n * Second64 in if sint d > sint maxDelay then maxDelay else d)
             else fallback)
      else fallback)"

text \<open>\<^verbatim>\<open>snippet\<close> ends with an ellipsis, the UTF-8 bytes E2 80 A6.\<close>

definition snippet :: "string \<Rightarrow> string" where
  "snippet b = (if length b \<le> 200 then b else take 200 b @ [CHR 0xE2, CHR 0x80, CHR 0xA6])"

text \<open>
  The loop: \<open>left\<close> attempts remain, \<open>last\<close> is the error of the previous one, and \<open>naps\<close> records the
  durations slept. When attempts run out the last error is returned; no error and no body is the
  pair of nils.
\<close>

fun get_loop :: "http_env \<Rightarrow> (string, string list) gomap \<Rightarrow> string \<Rightarrow> int64 \<Rightarrow> int64 \<Rightarrow>
    nat \<Rightarrow> nat \<Rightarrow> http_error option \<Rightarrow> int64 list \<Rightarrow> (http_error + string) \<times> int64 list" where
  "get_loop w hdr url baseDelay maxDelay 0 attempt lastErr naps =
     ((case lastErr of None \<Rightarrow> Inr [] | Some e \<Rightarrow> Inl e), naps)"
| "get_loop w hdr url baseDelay maxDelay (Suc left) attempt lastErr naps =
     (case hx_wait w attempt of
        Some e \<Rightarrow> (Inl (HxContext e), naps)
      | None \<Rightarrow>
          if hx_badURL w url then (Inl HxBuildRequest, naps)
          else (case hx_do w attempt url hdr of
            Inl _ \<Rightarrow>
              (let d = backoff attempt baseDelay maxDelay in
               case hx_ctx w attempt d of
                 Some e \<Rightarrow> (Inl (HxContext e), naps @ [d])
               | None \<Rightarrow> get_loop w hdr url baseDelay maxDelay left (Suc attempt) (Some HxServerFailure) (naps @ [d]))
          | Inr resp \<Rightarrow>
              if rs_StatusCode resp = 200 then
                (if rs_ReadErr resp then (Inl HxReadBody, naps) else (Inr (rs_Body resp), naps))
              else if rs_StatusCode resp = 404 then (Inl (HxNotFound url), naps)
              else if rs_StatusCode resp = 429 then
                (let d = retryAfterOrBackoff (rs_RetryAfter resp) attempt baseDelay maxDelay in
                 case hx_ctx w attempt d of
                   Some e \<Rightarrow> (Inl (HxContext e), naps @ [d])
                 | None \<Rightarrow> get_loop w hdr url baseDelay maxDelay left (Suc attempt) (Some (HxRateLimited url)) (naps @ [d]))
              else if rs_StatusCode resp \<ge> 500 then
                (let d = backoff attempt baseDelay maxDelay in
                 case hx_ctx w attempt d of
                   Some e \<Rightarrow> (Inl (HxContext e), naps @ [d])
                 | None \<Rightarrow> get_loop w hdr url baseDelay maxDelay left (Suc attempt) (Some HxServerFailure) (naps @ [d]))
              else (Inl (HxUnexpectedStatus (rs_StatusCode resp) url (snippet (rs_Body resp))), naps)))"

definition effective_retries :: "http_client \<Rightarrow> nat" where
  "effective_retries c = (if hc_MaxRetries c \<le> 0 then 3 else nat (hc_MaxRetries c))"

definition effective_base :: "http_client \<Rightarrow> int64" where
  "effective_base c = (if sint (hc_RetryBaseDelay c) \<le> 0 then 500 * 1000000 else hc_RetryBaseDelay c)"

definition effective_max :: "http_client \<Rightarrow> int64" where
  "effective_max c = (if sint (hc_RetryMaxDelay c) \<le> 0 then 30 * Second64 else hc_RetryMaxDelay c)"

definition httpx_Get :: "http_env \<Rightarrow> http_client \<Rightarrow> string \<Rightarrow> (http_error + string) \<times> int64 list" where
  "httpx_Get w c url = get_loop w (hc_Header c) url (effective_base c) (effective_max c)
     (Suc (effective_retries c)) 0 None []"

section \<open>The npm ingestor\<close>

text \<open>
  \<^verbatim>\<open>url.PathEscape\<close>: every byte is percent-encoded except letters, digits and the marks that a path segment may
  hold.
\<close>

definition hex_digit :: "nat \<Rightarrow> char" where
  "hex_digit n = ''0123456789ABCDEF'' ! n"

definition path_plain :: "char \<Rightarrow> bool" where
  "path_plain c \<longleftrightarrow> is_digit c \<or> (65 \<le> (of_char c :: nat) \<and> (of_char c :: nat) \<le> 90) \<or>
     (97 \<le> (of_char c :: nat) \<and> (of_char c :: nat) \<le> 122) \<or> c \<in> set ''-_.~$&+:=@''"

definition PathEscape :: "string \<Rightarrow> string" where
  "PathEscape s = concat (map (\<lambda>c. if path_plain c then [c]
     else [CHR ''%'', hex_digit (of_char c div 16), hex_digit (of_char c mod 16)]) s)"

record npm_ingestor_config =
  nic_RegistryBase :: string
  nic_Timeout :: int64
  nic_UserAgent :: string

record ingestor =
  ing_base :: string
  ing_client :: http_client

definition DefaultRegistry :: string where
  "DefaultRegistry = ''https://registry.npmjs.org''"

definition npm_PackageRefPrefix :: string where
  "npm_PackageRefPrefix = ''npm:''"

definition npm_ingestor_New :: "npm_ingestor_config \<Rightarrow> ingestor" where
  "npm_ingestor_New cfg =
     (let base = (if nic_RegistryBase cfg = [] then DefaultRegistry else nic_RegistryBase cfg);
          timeout = (if nic_Timeout cfg = 0 then 10 * Second64 else nic_Timeout cfg);
          agent = (if nic_UserAgent cfg = [] then ''rampart-engine'' else nic_UserAgent cfg)
      in \<lparr>ing_base = TrimRight base CHR ''/'',
          ing_client = (httpx_New timeout)\<lparr>hc_Header :=
            [(''Accept'', [''application/vnd.npm.install-v1+json, application/json'']),
             (''User-Agent'', [agent])]\<rparr>\<rparr>)"

record api_maintainer =
  am_Email :: string
  am_Name :: string

record version_meta =
  vm_Signatures :: "string list"

record registry_response =
  rr_Name :: string
  rr_Maintainers :: "api_maintainer list"
  rr_DistTags :: "(string, string) gomap"
  rr_Time :: "(string, string) gomap"
  rr_Versions :: "(string, version_meta) gomap"
  rr_Repository :: "string option"

text \<open>The repository field is a string or an object; the two decoders are those of the JSON package.\<close>

definition repository_UnmarshalJSON ::
    "(string \<Rightarrow> string option) \<Rightarrow> (string \<Rightarrow> string option) \<Rightarrow> string \<Rightarrow> string option" where
  "repository_UnmarshalJSON as_string as_object b =
     (case as_string b of Some s \<Rightarrow> Some s | None \<Rightarrow> as_object b)"

datatype ingest_error =
    IngHttp http_error
  | IngWrongPrefix string
  | IngEmptyName string
  | IngDecode string
  | IngMalformedRef string
  | IngOwnerRepoRequired

definition npm_endpoint :: "string \<Rightarrow> string \<Rightarrow> string" where
  "npm_endpoint base pkgName = ReplaceAll (base @ ''/'' @ PathEscape pkgName) ''%2F'' ''/''"

definition npm_snapshot ::
    "(string \<Rightarrow> time option) \<Rightarrow> string \<Rightarrow> string \<Rightarrow> registry_response \<Rightarrow> publisher_snapshot" where
  "npm_snapshot parse_time packageRef body resp =
     (let ms = map (\<lambda>m. \<lparr>mt_Email = am_Email m, mt_Name = am_Name m, mt_Username = am_Name m\<rparr>) (rr_Maintainers resp);
          (version, published, pmethod) =
            (case get (rr_DistTags resp) ''latest'' of
               None \<Rightarrow> ([], None, ''unknown'')
             | Some latest \<Rightarrow>
                 if latest = [] then ([], None, ''unknown'')
                 else (latest,
                       (case get (rr_Time resp) latest of None \<Rightarrow> None | Some at \<Rightarrow> parse_time at),
                       (case get (rr_Versions resp) latest of
                          None \<Rightarrow> ''token''
                        | Some v \<Rightarrow> if length (vm_Signatures v) > 0 then ''oidc-trusted-publisher'' else ''token'')));
          repo = (case rr_Repository resp of
                    None \<Rightarrow> None
                  | Some u \<Rightarrow> if u = [] then None else Some (TrimPrefix u ''git+''))
      in \<lparr>snap_ID = 0, snap_PackageRef = packageRef, snap_SnapshotAt = zeroTime, snap_Maintainers = ms,
          snap_LatestVersion = version, snap_LatestVersionPublishedAt = published,
          snap_PublishMethod = pmethod, snap_SourceRepoURL = repo, snap_RawData = body\<rparr>)"

definition npm_Ingest :: "http_env \<Rightarrow> (string \<Rightarrow> registry_response option) \<Rightarrow> (string \<Rightarrow> time option) \<Rightarrow>
    ingestor \<Rightarrow> string \<Rightarrow> ingest_error + publisher_snapshot" where
  "npm_Ingest w unmarshal parse_time i packageRef =
     (case CutPrefix packageRef npm_PackageRefPrefix of
        None \<Rightarrow> Inl (IngWrongPrefix packageRef)
      | Some pkgName \<Rightarrow>
          if pkgName = [] then Inl (IngEmptyName packageRef)
          else (case fst (httpx_Get w (ing_client i) (npm_endpoint (ing_base i) pkgName)) of
                  Inl e \<Rightarrow> Inl (IngHttp e)
                | Inr body \<Rightarrow>
                    (case unmarshal body of
                       None \<Rightarrow> Inl (IngDecode packageRef)
                     | Some resp \<Rightarrow> Inr (npm_snapshot parse_time packageRef body resp))))"

section \<open>The GitHub ingestor\<close>

record github_ingestor_config =
  gic_APIBase :: string
  gic_Token :: string
  gic_Timeout :: int64
  gic_UserAgent :: string

definition DefaultAPIBase :: string where
  "DefaultAPIBase = ''https://api.github.com''"

definition github_ingestor_New :: "github_ingestor_config \<Rightarrow> ingestor" where
  "github_ingestor_New cfg =
     (let base = (if gic_APIBase cfg = [] then DefaultAPIBase else gic_APIBase cfg);
          timeout = (if gic_Timeout cfg = 0 then 10 * Second64 else gic_Timeout cfg);
          agent = (if gic_UserAgent cfg = [] then ''rampart-engine'' else gic_UserAgent cfg);
          auth = (if gic_Token cfg \<noteq> [] then [(''Authorization'', [''Bearer '' @ gic_Token cfg])] else [])
      in \<lparr>ing_base = TrimRight base CHR ''/'',
          ing_client = (httpx_New timeout)\<lparr>hc_Header :=
            [(''Accept'', [''application/vnd.github+json'']), (''X-GitHub-Api-Version'', [''2022-11-28'']),
             (''User-Agent'', [agent])] @ auth\<rparr>\<rparr>)"

record release =
  rel_TagName :: string
  rel_Name :: string
  rel_PublishedAt :: time
  rel_HTMLURL :: string
  rel_AuthorLogin :: string

definition LatestRelease :: "http_env \<Rightarrow> (string \<Rightarrow> release option) \<Rightarrow> ingestor \<Rightarrow> string \<Rightarrow> string \<Rightarrow>
    ingest_error + release \<times> string" where
  "LatestRelease w unmarshal i owner repo =
     (if owner = [] \<or> repo = [] then Inl IngOwnerRepoRequired
      else (case fst (httpx_Get w (ing_client i)
                  (ing_base i @ ''/repos/'' @ PathEscape owner @ ''/'' @ PathEscape repo @ ''/releases/latest'')) of
              Inl e \<Rightarrow> Inl (IngHttp e)
            | Inr body \<Rightarrow>
                (case unmarshal body of
                   None \<Rightarrow> Inl (IngDecode (owner @ ''/'' @ repo))
                 | Some resp \<Rightarrow> Inr (resp, body))))"

definition ParseGithubRef :: "string \<Rightarrow> ingest_error + string \<times> string" where
  "ParseGithubRef packageRef =
     (case CutPrefix packageRef ''github:'' of
        Some rest \<Rightarrow>
          (case Cut rest ''/'' of
             None \<Rightarrow> Inl (IngMalformedRef packageRef)
           | Some (owner, repo) \<Rightarrow>
               if owner = [] \<or> repo = [] then Inl (IngMalformedRef packageRef) else Inr (owner, repo))
      | None \<Rightarrow>
          (case CutPrefix packageRef ''gomod:github.com/'' of
             Some rest \<Rightarrow>
               (case SplitN 3 rest ''/'' of
                  owner # repo # _ \<Rightarrow>
                    if owner = [] \<or> repo = [] then Inl (IngMalformedRef packageRef) else Inr (owner, repo)
                | _ \<Rightarrow> Inl (IngMalformedRef packageRef))
           | None \<Rightarrow> Inl (IngWrongPrefix packageRef)))"

definition github_Ingest :: "http_env \<Rightarrow> (string \<Rightarrow> release option) \<Rightarrow> ingestor \<Rightarrow> string \<Rightarrow>
    ingest_error + publisher_snapshot" where
  "github_Ingest w unmarshal i packageRef =
     (case ParseGithubRef packageRef of
        Inl e \<Rightarrow> Inl e
      | Inr (owner, repo) \<Rightarrow>
          (case LatestRelease w unmarshal i owner repo of
             Inl e \<Rightarrow> Inl e
           | Inr (rel, raw) \<Rightarrow>
               Inr \<lparr>snap_ID = 0, snap_PackageRef = packageRef, snap_SnapshotAt = zeroTime,
                 snap_Maintainers = (if rel_AuthorLogin rel \<noteq> []
                   then [\<lparr>mt_Email = [], mt_Name = [], mt_Username = rel_AuthorLogin rel\<rparr>] else []),
                 snap_LatestVersion = rel_TagName rel, snap_LatestVersionPublishedAt = Some (rel_PublishedAt rel),
                 snap_PublishMethod = ''unknown'',
                 snap_SourceRepoURL = Some (''https://github.com/'' @ owner @ ''/'' @ repo), snap_RawData = raw\<rparr>))"

section \<open>The refresh scheduler\<close>

text \<open>An ingestor as the scheduler sees it: what it answers at a moment for a package.\<close>

type_synonym ingest = "nat \<Rightarrow> string \<Rightarrow> ingest_error + publisher_snapshot"

record scheduler_config =
  sc_Storage :: bool
  sc_Ingestors :: "(string, ingest) gomap"
  sc_RefreshInterval :: duration
  sc_BatchSize :: int

record scheduler =
  sch_ingestors :: "(string, ingest) gomap"
  sch_refreshInterval :: duration
  sch_batchSize :: int

definition NewScheduler :: "order \<Rightarrow> scheduler_config \<Rightarrow> string + scheduler" where
  "NewScheduler \<rho> cfg =
     (if \<not> sc_Storage cfg then Inl ''publisher scheduler: Storage is required''
      else if length (sc_Ingestors cfg) = 0 then Inl ''publisher scheduler: at least one ingestor required''
      else (case find (\<lambda>p. \<not> HasSuffix p '':'') (keys_in \<rho> (sc_Ingestors cfg)) of
              Some p \<Rightarrow> Inl (''publisher scheduler: ingestor key \"'' @ p @ ''\" must end with '' @ [CHR 0x27, CHR '':'', CHR 0x27])
            | None \<Rightarrow> Inr \<lparr>sch_ingestors = sc_Ingestors cfg,
                sch_refreshInterval = (if sc_RefreshInterval cfg \<le> 0 then Hour else sc_RefreshInterval cfg),
                sch_batchSize = (if sc_BatchSize cfg \<le> 0 then 50 else sc_BatchSize cfg)\<rparr>))"

definition dispatch :: "order \<Rightarrow> (string, ingest) gomap \<Rightarrow> string \<Rightarrow> ingest option" where
  "dispatch \<rho> ings packageRef =
     map_option snd (find (\<lambda>e. HasPrefix packageRef (fst e)) (in_order \<rho> ings))"

record refresh_counts =
  rc_ok :: nat
  rc_missing :: nat
  rc_throttled :: nat
  rc_failed :: nat

abbreviation no_refresh :: refresh_counts where
  "no_refresh \<equiv> \<lparr>rc_ok = 0, rc_missing = 0, rc_throttled = 0, rc_failed = 0\<rparr>"

definition count_ingest_error :: "ingest_error \<Rightarrow> refresh_counts \<Rightarrow> refresh_counts" where
  "count_ingest_error e n =
     (case e of
        IngHttp (HxNotFound _) \<Rightarrow> n\<lparr>rc_missing := Suc (rc_missing n)\<rparr>
      | IngHttp (HxRateLimited _) \<Rightarrow> n\<lparr>rc_throttled := Suc (rc_throttled n)\<rparr>
      | IngHttp HxServerFailure \<Rightarrow> n\<lparr>rc_failed := Suc (rc_failed n)\<rparr>
      | _ \<Rightarrow> n\<lparr>rc_failed := Suc (rc_failed n)\<rparr>)"

definition call_dispatch :: "env \<Rightarrow> scheduler \<Rightarrow> string \<Rightarrow> ('s, ingest option) act" where
  "call_dispatch env sch ref = State (\<lambda>s. (dispatch (e_order env (sys_tick s)) (sch_ingestors sch) ref,
     s\<lparr>sys_tick := Suc (sys_tick s)\<rparr>))"

definition call_ingest :: "ingest \<Rightarrow> string \<Rightarrow> ('s, ingest_error + publisher_snapshot) act" where
  "call_ingest ing ref = State (\<lambda>s. (ing (sys_tick s) ref, s\<lparr>sys_tick := Suc (sys_tick s)\<rparr>))"

fun refresh_refs :: "env \<Rightarrow> 's storage \<Rightarrow> scheduler \<Rightarrow> string list \<Rightarrow> refresh_counts \<Rightarrow>
    ('s, error option \<times> refresh_counts) act" where
  "refresh_refs env ops sch [] n = ret (None, n)"
| "refresh_refs env ops sch (ref # refs) n = do {
     stop \<leftarrow> ctx_Err env;
     case stop of
       Some e \<Rightarrow> ret (Some e, n)
     | None \<Rightarrow> do {
         d \<leftarrow> call_dispatch env sch ref;
         case d of
           None \<Rightarrow> refresh_refs env ops sch refs (n\<lparr>rc_failed := Suc (rc_failed n)\<rparr>)
         | Some ing \<Rightarrow> do {
             r \<leftarrow> call_ingest ing ref;
             case r of
               Inl e \<Rightarrow> refresh_refs env ops sch refs (count_ingest_error e n)
             | Inr snap \<Rightarrow> do {
                 u \<leftarrow> write_call env (\<lambda>c. SavePublisherSnapshot ops c snap);
                 case u of
                   Some e \<Rightarrow> refresh_refs env ops sch refs (n\<lparr>rc_failed := Suc (rc_failed n)\<rparr>)
                 | None \<Rightarrow> refresh_refs env ops sch refs (n\<lparr>rc_ok := Suc (rc_ok n)\<rparr>)
               }
           }
       }
   }"

definition scheduler_Tick :: "env \<Rightarrow> 's storage \<Rightarrow> scheduler \<Rightarrow> ('s, error option \<times> refresh_counts) act" where
  "scheduler_Tick env ops sch = do {
     now \<leftarrow> time_Now env;
     refs \<leftarrow> read_call env (\<lambda>c. ListPackagesNeedingRefresh ops c (now - sch_refreshInterval sch) (sch_batchSize sch));
     case refs of
       Inl e \<Rightarrow> ret (Some e, no_refresh)
     | Inr rs \<Rightarrow>
         if length rs = 0 then ret (None, no_refresh)
         else refresh_refs env ops sch rs no_refresh
   }"

section \<open>Delays stay bounded\<close>

lemma backoff_range:
  assumes "0 < sint maxDelay"
  shows "0 < sint (backoff n baseDelay maxDelay) \<and> sint (backoff n baseDelay maxDelay) \<le> sint maxDelay"
  using assms by (auto simp: backoff_def Let_def)

lemma retryAfter_le:
  assumes "0 < sint maxDelay"
  shows "sint (retryAfterOrBackoff h n baseDelay maxDelay) \<le> sint maxDelay"
  using backoff_range [OF assms, of n baseDelay]
  by (auto simp: retryAfterOrBackoff_def Let_def split: option.split)

lemma effective_max_pos: "0 < sint (effective_max c)"
proof -
  have "sint (30 * Second64) = 30000000000" by code_simp
  then show ?thesis by (simp add: effective_max_def)
qed

text \<open>One round of the loop either ends it, perhaps during a sleep, or sleeps and goes on.\<close>

lemma get_loop_round:
  assumes "0 < sint maxDelay"
  shows "\<exists>r d e. sint d \<le> sint maxDelay \<and>
    get_loop w hdr url baseDelay maxDelay (Suc left) attempt lastErr naps \<in>
      {(r, naps), (r, naps @ [d]), get_loop w hdr url baseDelay maxDelay left (Suc attempt) e (naps @ [d])}"
proof -
  note b = backoff_range [OF assms, of attempt baseDelay, THEN conjunct2]
  note r = retryAfter_le [OF assms, of _ attempt baseDelay]
  have stop: ?thesis if "hx_wait w attempt \<noteq> None \<or> hx_badURL w url"
    using that b by (cases "hx_wait w attempt") auto
  have lost: ?thesis
    if "hx_wait w attempt = None" "\<not> hx_badURL w url" "hx_do w attempt url hdr = Inl x" for x
    using that b by (cases "hx_ctx w attempt (backoff attempt baseDelay maxDelay)") (auto simp: Let_def)
  have answered: ?thesis
    if p: "hx_wait w attempt = None" "\<not> hx_badURL w url" "hx_do w attempt url hdr = Inr p" for p
  proof -
    consider "rs_StatusCode p = 429" | "rs_StatusCode p \<noteq> 429" "500 \<le> rs_StatusCode p"
      | "rs_StatusCode p \<noteq> 429" "\<not> 500 \<le> rs_StatusCode p" by linarith
    then show ?thesis
    proof cases
      case 1
      let ?d = "retryAfterOrBackoff (rs_RetryAfter p) attempt baseDelay maxDelay"
      show ?thesis using 1 p r [of "rs_RetryAfter p"] by (cases "hx_ctx w attempt ?d") (auto simp: Let_def)
    next
      case 2
      then show ?thesis
        using p b by (cases "hx_ctx w attempt (backoff attempt baseDelay maxDelay)") (auto simp: Let_def)
    next
      case 3
      then show ?thesis using p b by auto
    qed
  qed
  show ?thesis
    by (cases "hx_wait w attempt \<noteq> None \<or> hx_badURL w url"; cases "hx_do w attempt url hdr")
      (simp_all only: stop lost answered de_Morgan_disj not_not simp_thms)
qed

lemma get_loop_naps:
  assumes "0 < sint maxDelay"
  shows "\<forall>d\<in>set naps. sint d \<le> sint maxDelay \<Longrightarrow>
    (\<forall>d\<in>set (snd (get_loop w hdr url baseDelay maxDelay left attempt lastErr naps)). sint d \<le> sint maxDelay) \<and>
    length (snd (get_loop w hdr url baseDelay maxDelay left attempt lastErr naps)) \<le> length naps + left"
proof (induction left arbitrary: attempt lastErr naps)
  case (Suc left)
  obtain r d e where d: "sint d \<le> sint maxDelay"
      "get_loop w hdr url baseDelay maxDelay (Suc left) attempt lastErr naps \<in>
        {(r, naps), (r, naps @ [d]), get_loop w hdr url baseDelay maxDelay left (Suc attempt) e (naps @ [d])}"
    using get_loop_round [OF assms] by blast
  have "\<forall>x\<in>set (naps @ [d]). sint x \<le> sint maxDelay"
    using Suc.prems d(1) by simp
  from Suc.IH [OF this, of "Suc attempt" e] show ?case
    using d Suc.prems by (auto simp del: get_loop.simps)
qed simp

section \<open>What a fetch returns\<close>

definition retryable :: "string + http_response \<Rightarrow> bool" where
  "retryable r = (case r of Inl _ \<Rightarrow> True | Inr p \<Rightarrow> rs_StatusCode p = 429 \<or> rs_StatusCode p \<ge> 500)"

definition retry_error :: "string \<Rightarrow> string + http_response \<Rightarrow> http_error" where
  "retry_error url r =
     (case r of Inl _ \<Rightarrow> HxServerFailure
      | Inr p \<Rightarrow> if rs_StatusCode p = 429 then HxRateLimited url else HxServerFailure)"

definition final_answer :: "string \<Rightarrow> string + http_response \<Rightarrow> http_error + string" where
  "final_answer url r =
     (case r of
        Inl _ \<Rightarrow> Inl HxServerFailure
      | Inr p \<Rightarrow>
          if rs_StatusCode p = 200 then (if rs_ReadErr p then Inl HxReadBody else Inr (rs_Body p))
          else if rs_StatusCode p = 404 then Inl (HxNotFound url)
          else Inl (HxUnexpectedStatus (rs_StatusCode p) url (snippet (rs_Body p))))"

definition undisturbed :: "http_env \<Rightarrow> string \<Rightarrow> bool" where
  "undisturbed w url \<longleftrightarrow> (\<forall>n. hx_wait w n = None) \<and> \<not> hx_badURL w url \<and> (\<forall>n d. hx_ctx w n d = None)"

lemma get_loop_step:
  assumes "undisturbed w url"
  shows "\<exists>d. get_loop w hdr url b m (Suc left) n lastErr naps =
    (if retryable (hx_do w n url hdr)
     then get_loop w hdr url b m left (Suc n) (Some (retry_error url (hx_do w n url hdr))) (naps @ [d])
     else (final_answer url (hx_do w n url hdr), naps))"
proof (cases "hx_do w n url hdr")
  case (Inl e)
  then show ?thesis
    using assms by (auto simp: undisturbed_def retryable_def retry_error_def Let_def)
next
  case (Inr p)
  then show ?thesis
    using assms by (auto simp: undisturbed_def retryable_def retry_error_def final_answer_def Let_def)
qed

lemma get_loop_spec:
  assumes "undisturbed w url"
  shows "fst (get_loop w hdr url b m left n lastErr naps) =
    (case find (\<lambda>k. \<not> retryable (hx_do w k url hdr)) [n..<n + left] of
       Some k \<Rightarrow> final_answer url (hx_do w k url hdr)
     | None \<Rightarrow> if left = 0 then (case lastErr of None \<Rightarrow> Inr [] | Some e \<Rightarrow> Inl e)
               else Inl (retry_error url (hx_do w (n + left - 1) url hdr)))"
proof (induction left arbitrary: n lastErr naps)
  case (Suc left)
  have "[n..<n + Suc left] = n # [Suc n..<Suc n + left]"
    by (simp add: upt_conv_Cons)
  then show ?case
    using get_loop_step [OF assms, of hdr b m left n lastErr naps] Suc.IH
    by (cases "left = 0") (auto simp del: get_loop.simps upt_Suc split: option.split)
qed simp


definition flaky :: http_env where
  "flaky = \<lparr>hx_wait = (\<lambda>_. None), hx_badURL = (\<lambda>_. False),
     hx_do = (\<lambda>n _ _. if n = 0 then Inl ''reset''
       else Inr \<lparr>rs_StatusCode = 200, rs_RetryAfter = [], rs_Body = ''{}'', rs_ReadErr = False\<rparr>),
     hx_ctx = (\<lambda>_ _. None)\<rparr>"


text \<open>
  C31. Delays are bounded. Whatever the network answers, \<^verbatim>\<open>Get\<close> sleeps at most once per attempt and never
  longer than the configured maximum; the exponential back-off itself is positive even when the
  shift overflows.
\<close>

theorem httpx_sleep_bounds:
  "(\<forall>d\<in>set (snd (httpx_Get w c url)). sint d \<le> sint (effective_max c)) \<and>
   length (snd (httpx_Get w c url)) \<le> Suc (effective_retries c) \<and>
   0 < sint (backoff n (effective_base c) (effective_max c)) \<and>
   sint (backoff n (effective_base c) (effective_max c)) \<le> sint (effective_max c)"
  using get_loop_naps [OF effective_max_pos, of "[]" c w "hc_Header c" url "effective_base c"
      "Suc (effective_retries c)" 0 None] backoff_range [OF effective_max_pos, of n "effective_base c" c]
  by (simp add: httpx_Get_def del: get_loop.simps)

theorem httpx_sleep_bounds_witness:
  "length (snd (httpx_Get flaky (httpx_New 1) ''u'')) \<le> 4"
  using httpx_sleep_bounds [where w = flaky and c = "httpx_New 1" and url = "''u''"]
  by (simp add: effective_retries_def httpx_New_def)

text \<open>
  A large \<^verbatim>\<open>Retry-After\<close> is not honoured. The number of seconds is multiplied in 64 bits before it is compared
  with the maximum, so from 9223372037 seconds on the delay can wrap around to a negative one, and the
  client retries at once instead of waiting the maximum; below that it waits the smaller of the two.
\<close>

theorem retry_after_wraps:
  "sint (retryAfterOrBackoff ''9223372037'' 0 (effective_base (httpx_New 1)) (effective_max (httpx_New 1))) < 0 \<and>
   retryAfterOrBackoff ''9223372036'' 0 (effective_base (httpx_New 1)) (effective_max (httpx_New 1)) = effective_max (httpx_New 1) \<and>
   retryAfterOrBackoff ''7'' 0 (effective_base (httpx_New 1)) (effective_max (httpx_New 1)) = 7 * Second64"
  by code_simp

section \<open>The contract of an ingestor\<close>

locale ingestor_contract =
  fixes ing :: ingest
  assumes names_package: "ing n ref = Inr snap \<Longrightarrow> snap_PackageRef snap = ref"
    and left_to_storage: "ing n ref = Inr snap \<Longrightarrow> snap_ID snap = 0 \<and> IsZero (snap_SnapshotAt snap)"
begin

text \<open>A refresh appends to the history of the package it was asked for, and stamps it with the clock of the store.\<close>

lemma refresh_appends:
  assumes "ing n ref = Inr snap"
  shows "\<exists>x. snap_PackageRef x = ref \<and> snap_SnapshotAt x = c_now c \<and> snap_ID x = nextSnapshotID s + 1 \<and>
    get (publisherHistory (snd (mem_SavePublisherSnapshot c snap s))) =
      (get (publisherHistory s))(ref \<mapsto> (case get (publisherHistory s) ref of None \<Rightarrow> [] | Some h \<Rightarrow> h) @ [x])"
proof -
  let ?x = "snap\<lparr>snap_ID := nextSnapshotID s + 1, snap_SnapshotAt := c_now c\<rparr>"
  show ?thesis
    by (rule exI [of _ ?x])
      (use names_package [OF assms] left_to_storage [OF assms] in
        \<open>simp add: mem_SavePublisherSnapshot_def Let_def get_put_fun\<close>)
qed

end

interpretation npm_ing: ingestor_contract "\<lambda>n. npm_Ingest (net n) unmarshal parse_time i" for net unmarshal parse_time i
  by unfold_locales
    (auto simp: npm_Ingest_def npm_snapshot_def IsZero_def Let_def
      split: option.splits sum.splits if_splits prod.splits)

interpretation github_ing: ingestor_contract "\<lambda>n. github_Ingest (net n) unmarshal i" for net unmarshal i
  by unfold_locales
    (auto simp: github_Ingest_def IsZero_def split: sum.splits prod.splits if_splits)

section \<open>Dispatch\<close>

text \<open>A prefix is an ecosystem name and a colon.\<close>

definition eco_prefix :: "string \<Rightarrow> bool" where
  "eco_prefix p \<longleftrightarrow> (\<exists>eco. p = eco @ '':'' \<and> CHR '':'' \<notin> set eco)"

lemma takeWhile_colon: "CHR '':'' \<notin> set e \<Longrightarrow> takeWhile (\<lambda>c. c \<noteq> CHR '':'') (e @ CHR '':'' # r) = e"
  by (induction e) auto

lemma eco_prefix_unique:
  assumes "eco_prefix p" and "eco_prefix q" and "HasPrefix ref p" and "HasPrefix ref q"
  shows "p = q"
proof -
  obtain e f where e: "p = e @ '':''" "CHR '':'' \<notin> set e" and f: "q = f @ '':''" "CHR '':'' \<notin> set f"
    using assms(1,2) by (auto simp: eco_prefix_def)
  have "\<exists>r. ref = e @ CHR '':'' # r" "\<exists>r. ref = f @ CHR '':'' # r"
    using assms(3,4) by (auto simp: HasPrefix_iff e f)
  then have "takeWhile (\<lambda>c. c \<noteq> CHR '':'') ref = e" "takeWhile (\<lambda>c. c \<noteq> CHR '':'') ref = f"
    using takeWhile_colon [OF e(2)] takeWhile_colon [OF f(2)] by metis+
  then show ?thesis using e f by simp
qed

lemma find_unique:
  assumes "\<And>x y. x \<in> set xs \<Longrightarrow> y \<in> set xs \<Longrightarrow> P x \<Longrightarrow> P y \<Longrightarrow> x = y"
  shows "find P xs = Some x \<longleftrightarrow> x \<in> set xs \<and> P x"
  using assms by (induction xs) auto

text \<open>
  Dispatch does not depend on the map order. When every key of the ingestor map is an ecosystem name
  followed by its only colon, as in the engine, a package is dispatched to the ingestor of the key
  that prefixes its reference, and to none if there is no such key, in whatever order the map is walked.
\<close>

theorem dispatch_exact:
  assumes "is_order \<rho>" and "gmap_ok ings" and "\<forall>p\<in>set (map fst ings). eco_prefix p"
  shows "dispatch \<rho> ings ref = Some ing \<longleftrightarrow> (\<exists>p. get ings p = Some ing \<and> HasPrefix ref p)"
proof -
  have u: "x = y" if "x \<in> set ings" "y \<in> set ings" "HasPrefix ref (fst x)" "HasPrefix ref (fst y)" for x y
  proof -
    have "fst x = fst y" using assms(3) that by (intro eco_prefix_unique [of _ _ ref]) auto
    then show ?thesis using assms(2) that(1,2) unfolding gmap_ok_def
      by (metis eq_key_imp_eq_value prod.collapse)
  qed
  have "find (\<lambda>e. HasPrefix ref (fst e)) (in_order \<rho> ings) = Some (p, ing) \<longleftrightarrow>
      (p, ing) \<in> set ings \<and> HasPrefix ref p" for p
    using find_unique [of "in_order \<rho> ings" "\<lambda>e. HasPrefix ref (fst e)" "(p, ing)"] u assms(1) by auto
  then show ?thesis
    using assms(2) by (auto simp: dispatch_def get_def gmap_ok_def)
qed

definition engine_ingestors :: "ingest \<Rightarrow> ingest \<Rightarrow> ingest \<Rightarrow> (string, ingest) gomap" where
  "engine_ingestors npm_ing gomod_ing github_ing =
     [(''npm:'', npm_ing), (''gomod:'', gomod_ing), (''github:'', github_ing)]"

lemma engine_prefixes: "\<forall>p\<in>set (map fst (engine_ingestors a b c)). eco_prefix p"
proof -
  have "eco_prefix (eco @ '':'')" if "CHR '':'' \<notin> set eco" for eco
    using that unfolding eco_prefix_def by blast
  from this [of "''npm''"] this [of "''gomod''"] this [of "''github''"] show ?thesis
    by (simp add: engine_ingestors_def)
qed

theorem dispatch_exact_witness:
  "dispatch (\<lambda>n. rev [0..<n]) (engine_ingestors (\<lambda>_ _. Inl (IngWrongPrefix [])) (\<lambda>_ _. Inl IngOwnerRepoRequired)
     (\<lambda>_ _. Inl (IngDecode []))) ''gomod:github.com/a/b'' = Some (\<lambda>_ _. Inl IngOwnerRepoRequired)"
proof -
  let ?m = "engine_ingestors (\<lambda>_ _. Inl (IngWrongPrefix [])) (\<lambda>_ _. Inl IngOwnerRepoRequired)
     (\<lambda>_ _. Inl (IngDecode []))"
  have o: "is_order (\<lambda>n. rev [0..<n])" by (simp add: is_order_def)
  have d: "gmap_ok ?m" by (simp add: gmap_ok_def engine_ingestors_def)
  have "get ?m ''gomod:'' = Some (\<lambda>_ _. Inl IngOwnerRepoRequired) \<and> HasPrefix ''gomod:github.com/a/b'' ''gomod:''"
    by (simp add: get_def engine_ingestors_def HasPrefix_def)
  then show ?thesis
    unfolding dispatch_exact [OF o d engine_prefixes] by blast
qed

section \<open>Histories only grow\<close>

definition hist :: "store \<Rightarrow> string \<Rightarrow> publisher_snapshot list" where
  "hist s ref = (case get (publisherHistory s) ref of None \<Rightarrow> [] | Some h \<Rightarrow> h)"

lemma wp_dispatch [simp]:
  "wp (call_dispatch env sch ref) Q s \<longleftrightarrow>
     Q (dispatch (e_order env (sys_tick s)) (sch_ingestors sch) ref) (s\<lparr>sys_tick := Suc (sys_tick s)\<rparr>)"
  by (simp add: wp_def call_dispatch_def)

lemma wp_ingest [simp]:
  "wp (call_ingest ing ref) Q s \<longleftrightarrow> Q (ing (sys_tick s) ref) (s\<lparr>sys_tick := Suc (sys_tick s)\<rparr>)"
  by (simp add: wp_def call_ingest_def)

lemma keeps_dispatch [keeps_intros]: "keeps P (call_dispatch env sch ref)"
  by (simp add: keeps_def)

lemma keeps_ingest [keeps_intros]: "keeps P (call_ingest ing ref)"
  by (simp add: keeps_def)

text \<open>
  What a refresh of some packages may do to the histories, compared with the store \<open>s0\<close> it started
  from.
\<close>

definition appended :: "store \<Rightarrow> string set \<Rightarrow> store \<Rightarrow> bool" where
  "appended s0 refs s \<longleftrightarrow> (\<forall>ref. \<exists>xs. hist s ref = hist s0 ref @ xs \<and>
     (\<forall>x\<in>set xs. snap_PackageRef x = ref) \<and> (ref \<notin> refs \<longrightarrow> xs = []))"

lemma appended_save:
  assumes "ingestor_contract ing" and "ing n ref = Inr snap" and "ref \<in> refs" and "appended s0 refs s"
  shows "appended s0 refs (snd (mem_SavePublisherSnapshot c snap s))"
  unfolding appended_def
proof
  fix r
  obtain x where x: "snap_PackageRef x = ref" "get (publisherHistory (snd (mem_SavePublisherSnapshot c snap s))) =
      (get (publisherHistory s))(ref \<mapsto> hist s ref @ [x])"
    using ingestor_contract.refresh_appends [OF assms(1,2), of c s] unfolding hist_def by blast
  obtain xs where "hist s r = hist s0 r @ xs" "\<forall>x\<in>set xs. snap_PackageRef x = r" "r \<notin> refs \<longrightarrow> xs = []"
    using assms(4) unfolding appended_def by blast
  then show "\<exists>xs. hist (snd (mem_SavePublisherSnapshot c snap s)) r = hist s0 r @ xs \<and>
      (\<forall>x\<in>set xs. snap_PackageRef x = r) \<and> (r \<notin> refs \<longrightarrow> xs = [])"
    using x assms(3) by (cases "r = ref") (auto simp: hist_def [of "snd _"] hist_def [of s])
qed

lemma find_in: "find P xs = Some x \<Longrightarrow> x \<in> set xs"
  by (induction xs) (auto split: if_splits)

lemma dispatch_in: "is_order \<rho> \<Longrightarrow> dispatch \<rho> ings ref = Some ing \<Longrightarrow> ing \<in> snd ` set ings"
  using find_in [of "\<lambda>e. HasPrefix ref (fst e)" "in_order \<rho> ings"]
  by (auto simp: dispatch_def intro: rev_image_eqI)

lemma refresh_appended:
  assumes "\<forall>ing\<in>snd ` set (sch_ingestors sch). ingestor_contract ing"
    and "\<forall>n. is_order (e_order env n)" and "set todo \<subseteq> refs"
  shows "appended s0 refs (sys_store s) \<Longrightarrow>
    wp (refresh_refs env memory sch todo n) (\<lambda>_ s'. appended s0 refs (sys_store s')) s"
  using assms(3)
proof (induction todo arbitrary: n s)
  case (Cons ref todo)
  have loop: "wp (refresh_refs env memory sch todo n') (\<lambda>_ s'. appended s0 refs (sys_store s')) s'"
    if "appended s0 refs (sys_store s')" for n' s'
    using Cons.IH [OF that] Cons.prems(2) by simp
  let ?d = "dispatch (e_order env (Suc (sys_tick s))) (sch_ingestors sch) ref"
  have save: "appended s0 refs (snd (mem_SavePublisherSnapshot c snap (sys_store s)))"
    if "?d = Some ing" "ing n ref = Inr snap" for ing n snap c
  proof (rule appended_save [of ing n ref])
    show "ingestor_contract ing" using assms(1) dispatch_in [OF spec [OF assms(2)] that(1)] by blast
  qed (use that Cons.prems in auto)
  show ?case
  proof (cases ?d)
    case None
    then show ?thesis using loop Cons.prems by (auto split: option.split)
  next
    case (Some ing)
    then show ?thesis using loop save Cons.prems by (auto split: option.split sum.split)
  qed
qed simp

text \<open>
  Refreshing appends. When the ingestors keep their contract (the npm and the GitHub ingestor do),
  a tick of the scheduler only ever appends to publisher histories, only to those of the packages the store
  listed as stale, and only snapshots of the package whose history it is, whatever the network answers
  and whether or not the context is cancelled on the way.
\<close>

theorem refresh_only_appends:
  assumes "\<forall>ing\<in>snd ` set (sch_ingestors sch). ingestor_contract ing"
    and "\<forall>n. is_order (e_order env n)"
  shows "wp (scheduler_Tick env memory sch)
    (\<lambda>_ s'. appended (sys_store s)
      (case mem_ListPackagesNeedingRefresh (call_at env (Suc (sys_tick s)))
          (e_now env (sys_tick s) - sch_refreshInterval sch) (sch_batchSize sch) (sys_store s) of
         Inl _ \<Rightarrow> {} | Inr refs \<Rightarrow> set refs)
      (sys_store s')) s"
proof -
  have r: "appended st R st" for st R by (simp add: appended_def)
  let ?l = "mem_ListPackagesNeedingRefresh (call_at env (Suc (sys_tick s)))
      (e_now env (sys_tick s) - sch_refreshInterval sch) (sch_batchSize sch) (sys_store s)"
  show ?thesis
  proof (cases ?l)
    case (Inr refs)
    have "wp (refresh_refs env memory sch refs no_refresh) (\<lambda>_ s'. appended (sys_store s) (set refs) (sys_store s'))
        (s\<lparr>sys_tick := Suc (Suc (sys_tick s))\<rparr>)"
      by (rule refresh_appended [OF assms]) (simp_all add: r)
    then show ?thesis using Inr by (simp add: scheduler_Tick_def r)
  qed (simp add: scheduler_Tick_def r)
qed

theorem refresh_only_appends_witness:
  "wp (scheduler_Tick sample_env memory \<lparr>sch_ingestors = [(''npm:'', \<lambda>n. npm_Ingest flaky (\<lambda>_. None) (\<lambda>_. None)
        (npm_ingestor_New \<lparr>nic_RegistryBase = [], nic_Timeout = 0, nic_UserAgent = []\<rparr>))],
      sch_refreshInterval = Hour, sch_batchSize = 50\<rparr>)
    (\<lambda>_ s'. hist (sys_store s') ''npm:left-pad'' = []) \<lparr>sys_store = mem_New, sys_bus = NewBus 1, sys_tick = 0\<rparr>"
proof (rule wp_mono [OF refresh_only_appends])
  show "\<forall>n. is_order (e_order sample_env n)" by (simp add: sample_env_def is_order_upt)
qed (auto simp: npm_ing.ingestor_contract_axioms appended_def hist_def mem_New_def
    mem_ListPackagesNeedingRefresh_def in_order_def sample_env_def call_at_def sort_slice_def with_err_def)

text \<open>
  The publishing method an npm answer is classified as: unknown without a latest version, trusted publishing
  when the latest version carries signatures, token otherwise.
\<close>

lemma npm_publish_method:
  "snap_PublishMethod (npm_snapshot parse_time ref body resp) =
     (if get (rr_DistTags resp) ''latest'' \<in> {None, Some []} then ''unknown''
      else if \<exists>v. get (rr_Versions resp) (the (get (rr_DistTags resp) ''latest'')) = Some v \<and> vm_Signatures v \<noteq> []
      then ''oidc-trusted-publisher'' else ''token'')"
  by (auto simp: npm_snapshot_def Let_def split: option.split prod.split)

section \<open>Endpoints of scoped packages\<close>

definition percent :: "char \<Rightarrow> string" where
  "percent c = [CHR ''%'', hex_digit (of_char c div 16), hex_digit (of_char c mod 16)]"

lemma PathEscape_Cons: "PathEscape (c # s) = (if path_plain c then [c] else percent c) @ PathEscape s"
  by (simp add: PathEscape_def percent_def)

lemma ReplaceAll_skip:
  "CHR ''%'' \<notin> set p \<Longrightarrow> ReplaceAll (p @ s) ''%2F'' new = p @ ReplaceAll s ''%2F'' new"
proof (induction p)
  case (Cons c p)
  then show ?case by (subst ReplaceAll.simps) (auto simp: HasPrefix_def)
qed simp

lemma hex_digit_cases: "n < 16 \<Longrightarrow> hex_digit n \<noteq> CHR ''%'' \<and> (hex_digit n = CHR ''2'' \<longleftrightarrow> n = 2) \<and> (hex_digit n = CHR ''F'' \<longleftrightarrow> n = 15)"
proof -
  assume "n < 16"
  then have "n \<in> set [0..<16]" by simp
  then show ?thesis by (simp add: upt_conv_Cons hex_digit_def) (auto simp: eval_nat_numeral)
qed

lemma char_nibbles: "(of_char c :: nat) div 16 < 16" "(of_char c :: nat) mod 16 < 16"
  using nat_of_char_less_256 [of c] by (simp_all add: less_mult_imp_div_less)

lemma percent_slash: "percent c = ''%2F'' \<longleftrightarrow> c = CHR ''/''"
proof -
  note lt = char_nibbles [of c]
  have "percent c = ''%2F'' \<longleftrightarrow> (of_char c :: nat) div 16 = 2 \<and> (of_char c :: nat) mod 16 = 15"
    using hex_digit_cases [OF lt(1)] hex_digit_cases [OF lt(2)] by (simp add: percent_def)
  also have "\<dots> \<longleftrightarrow> (of_char c :: nat) = 47"
    by presburger
  also have "\<dots> \<longleftrightarrow> c = CHR ''/''"
    using of_char_eq_iff [of c "CHR ''/''", where ?'a = nat] by simp
  finally show ?thesis .
qed

lemma ReplaceAll_percent:
  "ReplaceAll (percent c @ s) ''%2F'' ''/'' = (if c = CHR ''/'' then ''/'' else percent c) @ ReplaceAll s ''%2F'' ''/''"
proof (cases "c = CHR ''/''")
  case True
  then have "percent c = ''%2F''" by (simp add: percent_slash)
  with True show ?thesis by (subst ReplaceAll.simps) (simp add: HasPrefix_def)
next
  case False
  note lt = char_nibbles [of c]
  let ?t = "[hex_digit (of_char c div 16), hex_digit (of_char c mod 16)]"
  have "CHR ''%'' \<notin> set ?t" using hex_digit_cases [OF lt(1)] hex_digit_cases [OF lt(2)] by auto
  from ReplaceAll_skip [OF this] False percent_slash [of c] show ?thesis
    by (subst ReplaceAll.simps) (auto simp: HasPrefix_def percent_def)
qed

text \<open>
  The endpoint of a package. For a registry base without percent signs, the URL is the base, a slash and the
  package name with every byte outside the unreserved set percent-encoded, except that the slashes of a scoped
  name stay literal; undoing the escape of the slash afterwards disturbs no other byte.
\<close>

theorem npm_endpoint_exact:
  assumes "CHR ''%'' \<notin> set base"
  shows "npm_endpoint base name =
    base @ ''/'' @ concat (map (\<lambda>c. if path_plain c \<or> c = CHR ''/'' then [c] else percent c) name)"
proof -
  have "ReplaceAll (PathEscape name) ''%2F'' ''/'' =
      concat (map (\<lambda>c. if path_plain c \<or> c = CHR ''/'' then [c] else percent c) name)"
  proof (induction name)
    case Nil
    show ?case by (simp add: PathEscape_def ReplaceAll.simps)
  next
    case (Cons c name)
    have "path_plain c \<Longrightarrow> c \<noteq> CHR ''%''"
      by (auto simp: path_plain_def is_digit_def)
    with Cons ReplaceAll_percent [of c] ReplaceAll_skip [of "[c]"] show ?case
      by (auto simp: PathEscape_Cons)
  qed
  moreover have "CHR ''%'' \<notin> set (base @ ''/'')" using assms by simp
  ultimately show ?thesis
    using ReplaceAll_skip [of "base @ ''/''" "PathEscape name" "''/''"] by (simp add: npm_endpoint_def)
qed

theorem npm_endpoint_exact_witness:
  "npm_endpoint ''https://r'' ''@scope/a b'' = ''https://r/@scope/a%20b''"
proof -
  have "CHR ''%'' \<notin> set ''https://r''" by simp
  from npm_endpoint_exact [OF this, of "''@scope/a b''"] show ?thesis
    by (simp add: path_plain_def is_digit_def percent_def hex_digit_def)
qed

end
