(* ===== verification/Paths.thy ===== *)
theory Paths
  imports Publisher
begin

text \<open>
  What the code uses of packages \<^verbatim>\<open>path\<close>, \<^verbatim>\<open>path/filepath\<close> and \<^verbatim>\<open>net/url\<close>: cleaning, splitting and joining slash-separated
  paths, and the percent-encoding of path segments, with the facts that decoding undoes encoding and that a path without
  empty and dot segments is clean.
\<close>

section \<open>Cleaning and joining\<close>

definition after_slash :: "string \<Rightarrow> string" where
  "after_slash p = rev (takeWhile (\<lambda>c. c \<noteq> CHR ''/'') (rev p))"

definition Base :: "string \<Rightarrow> string" where
  "Base path =
     (if path = [] then ''.''
      else (let p = after_slash (TrimRight path CHR ''/'') in if p = [] then ''/'' else p))"

text \<open>\<^verbatim>\<open>filepath.Clean\<close> element by element; the stack holds the cleaned elements, last first.\<close>

fun clean_elements :: "bool \<Rightarrow> string list \<Rightarrow> string list \<Rightarrow> string list" where
  "clean_elements rooted st [] = rev st"
| "clean_elements rooted st (x # xs) =
     (if x = [] \<or> x = ''.'' then clean_elements rooted st xs
      else if x = ''..'' then
        (case st of
           [] \<Rightarrow> clean_elements rooted (if rooted then [] else [''..'']) xs
         | y # ys \<Rightarrow> clean_elements rooted (if y = ''..'' then ''..'' # st else ys) xs)
      else clean_elements rooted (x # st) xs)"

definition Clean :: "string \<Rightarrow> string" where
  "Clean path =
     (let rooted = HasPrefix path ''/'';
          out = (if rooted then ''/'' else []) @ Join (clean_elements rooted [] (Split path ''/'')) ''/''
      in if out = [] then ''.'' else out)"

definition Dir :: "string \<Rightarrow> string" where
  "Dir path = Clean (take (length path - length (after_slash path)) path)"

definition Join2 :: "string \<Rightarrow> string \<Rightarrow> string" where
  "Join2 a b = (if a = [] then Clean b else Clean (a @ ''/'' @ b))"

section \<open>Segments\<close>

text \<open>The segments of a path, cut at every slash.\<close>

function split_path :: "string \<Rightarrow> string list" where
  "split_path p = takeWhile (\<lambda>c. c \<noteq> CHR ''/'') p #
     (case dropWhile (\<lambda>c. c \<noteq> CHR ''/'') p of [] \<Rightarrow> [] | _ # rest \<Rightarrow> split_path rest)"
  by pat_completeness auto
termination
proof (relation "measure length")
  fix p c rest assume "dropWhile (\<lambda>c. c \<noteq> CHR ''/'') p = c # rest"
  then have "length (c # rest) \<le> length p" by (metis length_dropWhile_le)
  then show "(rest, p) \<in> measure length" by simp
qed simp

declare split_path.simps [simp del]

lemma split_path_simps [simp]:
  "CHR ''/'' \<notin> set s \<Longrightarrow> split_path s = [s]"
  "CHR ''/'' \<notin> set s \<Longrightarrow> split_path (s @ CHR ''/'' # t) = s # split_path t"
proof -
  assume s: "CHR ''/'' \<notin> set s"
  then have "takeWhile (\<lambda>c. c \<noteq> CHR ''/'') s = s" "dropWhile (\<lambda>c. c \<noteq> CHR ''/'') s = []" by auto
  then show "split_path s = [s]" by (simp only: split_path.simps [of s] list.case)
  have "takeWhile (\<lambda>c. c \<noteq> CHR ''/'') (s @ CHR ''/'' # t) = s"
    "dropWhile (\<lambda>c. c \<noteq> CHR ''/'') (s @ CHR ''/'' # t) = CHR ''/'' # t"
    using s by (induction s) auto
  then show "split_path (s @ CHR ''/'' # t) = s # split_path t" by (simp add: split_path.simps [of "s @ CHR ''/'' # t"])
qed

lemma slash_cases:
  obtains "CHR ''/'' \<notin> set p" | s t where "p = s @ CHR ''/'' # t" "CHR ''/'' \<notin> set s"
  by (cases "CHR ''/'' \<in> set p") (auto dest: split_list_first)

lemma split_path_Join: "Join (split_path p) ''/'' = p"
proof (induction p rule: length_induct)
  case (1 p)
  show ?case
  proof (cases p rule: slash_cases)
    case (2 s t)
    then have "Join (split_path t) ''/'' = t" using 1 by simp
    moreover have "split_path t \<noteq> []" by (subst split_path.simps) simp
    ultimately show ?thesis using 2 by (cases "split_path t") auto
  qed simp
qed

lemma Split_path: "length p < n \<Longrightarrow> SplitN n p ''/'' = split_path p"
proof (induction n arbitrary: p)
  case (Suc n)
  show ?case
  proof (cases p rule: slash_cases)
    case 1
    then show ?thesis by (simp add: Split_single_notin)
  next
    case (2 s t)
    then obtain m where "n = Suc m" using Suc.prems by (cases n) auto
    with 2 Suc show ?thesis by (simp add: SplitN_single_cons del: SplitN.simps)
  qed
qed simp

definition plain_segment :: "string \<Rightarrow> bool" where
  "plain_segment s \<longleftrightarrow> s \<noteq> [] \<and> s \<noteq> ''.'' \<and> s \<noteq> ''..'' \<and> CHR ''/'' \<notin> set s"

lemma clean_plain: "list_all plain_segment xs \<Longrightarrow> clean_elements rooted st xs = rev st @ xs"
  by (induction xs arbitrary: st) (auto simp: plain_segment_def)

lemma split_Join: "xs \<noteq> [] \<Longrightarrow> list_all (\<lambda>s. CHR ''/'' \<notin> set s) xs \<Longrightarrow> split_path (Join xs ''/'') = xs"
  by (induction xs "''/''" rule: Join.induct) simp_all

lemma Clean_plain:
  assumes "xs \<noteq> []" and "list_all plain_segment xs"
  shows "Clean (CHR ''/'' # Join xs ''/'') = CHR ''/'' # Join xs ''/''"
proof -
  have "list_all (\<lambda>s. CHR ''/'' \<notin> set s) xs" using assms(2) by (auto simp: list_all_iff plain_segment_def)
  moreover have "split_path (CHR ''/'' # t) = [] # split_path t" for t using split_path_simps(2) [of "[]" t] by simp
  ultimately have "Split (CHR ''/'' # Join xs ''/'') ''/'' = [] # xs"
    using split_Join [OF assms(1)] by (simp only: Split_def) (subst Split_path; simp)
  then show ?thesis
    using clean_plain [OF assms(2)] by (simp add: Clean_def HasPrefix_def)
qed

section \<open>Percent-encoding\<close>

definition hex_value :: "char \<Rightarrow> nat option" where
  "hex_value c =
     (let n = of_char c in
      if 48 \<le> n \<and> n \<le> 57 then Some (n - 48)
      else if 65 \<le> n \<and> n \<le> 70 then Some (n - 55)
      else if 97 \<le> n \<and> n \<le> 102 then Some (n - 87)
      else None)"

text \<open>\<^verbatim>\<open>url.PathUnescape\<close>.\<close>

fun PathUnescape :: "string \<Rightarrow> string option" where
  "PathUnescape [] = Some []"
| "PathUnescape (c # cs) =
     (if c = CHR ''%'' then
        (case cs of
           a # b # rest \<Rightarrow>
             (case (hex_value a, hex_value b) of
                (Some x, Some y) \<Rightarrow> map_option (Cons (char_of (16 * x + y))) (PathUnescape rest)
              | _ \<Rightarrow> None)
         | _ \<Rightarrow> None)
      else map_option (Cons c) (PathUnescape cs))"

lemma hex_value_digit: "n < 16 \<Longrightarrow> hex_value (hex_digit n) = Some n"
  unfolding hex_digit_def hex_value_def by (auto simp: less_Suc_eq numeral_eq_Suc Let_def)

text \<open>Decoding undoes encoding, and an encoded segment has no slash.\<close>

lemma unescape_escape: "PathUnescape (PathEscape s) = Some s"
proof (induction s)
  case (Cons c s)
  note char_nibbles [of c]
  moreover have "\<not> path_plain CHR ''%''" by (simp add: path_plain_def is_digit_def)
  ultimately show ?case using Cons by (auto simp: PathEscape_Cons percent_def hex_value_digit)
qed (simp add: PathEscape_def)

lemma unescape_at_slash:
  "PathUnescape (s @ CHR ''/'' # t) = Some u \<Longrightarrow>
    \<exists>v w. PathUnescape s = Some v \<and> PathUnescape t = Some w \<and> u = v @ CHR ''/'' # w"
proof (induction s arbitrary: u rule: PathUnescape.induct)
  case (2 c cs)
  have h: "hex_value CHR ''/'' = None" by (simp add: hex_value_def)
  show ?case
  proof (cases "c = CHR ''%''")
    case True
    with 2 h show ?thesis by (fastforce split: list.splits option.splits)
  next
    case False
    with 2 show ?thesis by fastforce
  qed
qed auto

lemma PathEscape_no_slash: "CHR ''/'' \<notin> set (PathEscape s)"
proof (induction s)
  case (Cons c s)
  have d: "hex_digit n \<noteq> CHR ''/''" if "n < 16" for n
    using hex_value_digit [OF that] by (auto simp: hex_value_def)
  have "CHR ''/'' \<notin> set (percent c)"
    using d [OF char_nibbles(1) [of c]] d [OF char_nibbles(2) [of c]] by (simp add: percent_def eq_commute)
  moreover have "path_plain c \<Longrightarrow> c \<noteq> CHR ''/''" by (auto simp: path_plain_def is_digit_def)
  ultimately show ?case using Cons by (auto simp: PathEscape_Cons)
qed (simp add: PathEscape_def)

lemma PathEscape_plain:
  assumes "s \<noteq> []" and "s \<noteq> ''.''" and "s \<noteq> ''..''"
  shows "plain_segment (PathEscape s)"
proof -
  have "PathEscape s = t \<Longrightarrow> PathUnescape t = Some s" for t using unescape_escape [of s] by auto
  from this [of "[]"] this [of "''.''"] this [of "''..''"] assms show ?thesis
    using PathEscape_no_slash [of s] by (auto simp: plain_segment_def)
qed

definition segment_of :: "string \<Rightarrow> string" where
  "segment_of s = (case PathUnescape s of None \<Rightarrow> s | Some t \<Rightarrow> t)"

text \<open>Decoding a whole path decodes its segments.\<close>

lemma unescape_segments: "PathUnescape p = Some u \<Longrightarrow> u = Join (map segment_of (split_path p)) ''/''"
proof (induction p arbitrary: u rule: length_induct)
  case (1 p)
  show ?case
  proof (cases p rule: slash_cases)
    case (2 s t)
    with 1(2) obtain v w where vw: "PathUnescape s = Some v" "PathUnescape t = Some w" "u = v @ CHR ''/'' # w"
      using unescape_at_slash by blast
    with 1(1) 2 have "w = Join (map segment_of (split_path t)) ''/''" by simp
    moreover have "split_path t \<noteq> []" by (subst split_path.simps) simp
    moreover have "segment_of s = v" by (simp add: segment_of_def vw(1))
    ultimately show ?thesis using 2 vw(3) by (cases "split_path t") simp_all
  qed (use 1(2) in \<open>simp add: segment_of_def\<close>)
qed

end
