(* ===== verification/Routing.thy ===== *)
theory Routing
  imports Access Frames Paths
begin

text \<open>
  From an HTTP request to its handler: the generated router and parameter binding of \<^verbatim>\<open>engine/api/gen\<close> behind the
  middlewares of \<^verbatim>\<open>Server.Handler\<close>. What the router uses of \<^verbatim>\<open>http.ServeMux\<close> is defined here: method and path patterns
  with single-segment wildcards, redirection to the cleaned path, and the answers to requests no pattern matches.
  The binding functions of the oapi-codegen runtime and the JSON decoding of bodies are parameters.
\<close>

section \<open>Patterns\<close>

datatype seg = Lit string | Wild string

definition parse_seg :: "string \<Rightarrow> seg" where
  "parse_seg s = (if HasPrefix s ''{'' \<and> HasSuffix s ''}'' then Wild (butlast (tl s)) else Lit s)"

text \<open>A pattern is a method, a space and a path.\<close>

definition parsePattern :: "string \<Rightarrow> string \<times> seg list" where
  "parsePattern pat =
     (case Cut pat '' '' of
        None \<Rightarrow> ([], map parse_seg (split_path (drop 1 pat)))
      | Some (m, path) \<Rightarrow> (m, map parse_seg (split_path (drop 1 path))))"

text \<open>
  A wildcard takes one segment. The last segment of a path that ends in a slash is empty here; the multiplexer
  names it by a slash, which is why it takes an encoded slash for the end of the path too.
\<close>

fun match_segs :: "seg list \<Rightarrow> string list \<Rightarrow> (string, string) gomap option" where
  "match_segs [] [] = Some []"
| "match_segs (Lit l # ps) (s # ss) = (if s = l then match_segs ps ss else None)"
| "match_segs (Wild x # ps) (s # ss) =
     (if s = [] \<or> s = ''/'' then None else map_option (Cons (x, s)) (match_segs ps ss))"
| "match_segs _ _ = None"

definition segments :: "string \<Rightarrow> string list" where
  "segments path = map segment_of (split_path (drop 1 path))"

section \<open>The multiplexer\<close>

datatype operation = OpHealthz | OpReadyz | OpListAnomalies | OpGetAnomaly | OpIssueAuthToken | OpBlastRadius
  | OpListComponents | OpUpsertComponent | OpListSBOMsByComponent | OpSubmitSBOM | OpListIncidents | OpGetIncident
  | OpGetIncidentDetail | OpAddRemediation | OpTransitionIncident | OpListIoCs | OpSubmitIoC | OpGetPublisherHistory
  | OpGetSBOM | OpStream

definition HandlerWithOptions :: "(string \<times> operation) list" where
  "HandlerWithOptions =
     [(''GET /healthz'', OpHealthz),
      (''GET /readyz'', OpReadyz),
      (''GET /v1/anomalies'', OpListAnomalies),
      (''GET /v1/anomalies/{id}'', OpGetAnomaly),
      (''POST /v1/auth/token'', OpIssueAuthToken),
      (''POST /v1/blast-radius'', OpBlastRadius),
      (''GET /v1/components'', OpListComponents),
      (''POST /v1/components'', OpUpsertComponent),
      (''GET /v1/components/{componentRef}/sboms'', OpListSBOMsByComponent),
      (''POST /v1/components/{componentRef}/sboms'', OpSubmitSBOM),
      (''GET /v1/incidents'', OpListIncidents),
      (''GET /v1/incidents/{id}'', OpGetIncident),
      (''GET /v1/incidents/{id}/detail'', OpGetIncidentDetail),
      (''POST /v1/incidents/{id}/remediations'', OpAddRemediation),
      (''POST /v1/incidents/{id}/transition'', OpTransitionIncident),
      (''GET /v1/iocs'', OpListIoCs),
      (''POST /v1/iocs'', OpSubmitIoC),
      (''GET /v1/publisher/{packageRef}/history'', OpGetPublisherHistory),
      (''GET /v1/sboms/{id}'', OpGetSBOM),
      (''GET /v1/stream'', OpStream)]"

text \<open>A pattern for \<^verbatim>\<open>GET\<close> also serves \<^verbatim>\<open>HEAD\<close>. No two patterns match the same request, so the first match is the only one.\<close>

fun find_route :: "string \<Rightarrow> string list \<Rightarrow> (string \<times> operation) list \<Rightarrow> (operation \<times> (string, string) gomap) option" where
  "find_route m ss [] = None"
| "find_route m ss ((pat, op) # rs) =
     (case parsePattern pat of (pm, segs) \<Rightarrow>
        (case (if pm = m \<or> (m = ''HEAD'' \<and> pm = ''GET'') then match_segs segs ss else None) of
           Some ps \<Rightarrow> Some (op, ps)
         | None \<Rightarrow> find_route m ss rs))"

definition matchingMethods :: "string list \<Rightarrow> (string \<times> operation) list \<Rightarrow> string list" where
  "matchingMethods ss rs =
     (let ms = map (\<lambda>r. fst (parsePattern (fst r)))
                 (filter (\<lambda>r. match_segs (snd (parsePattern (fst r))) ss \<noteq> None) rs)
      in sort (remdups (ms @ (if ''GET'' \<in> set ms then [''HEAD''] else []))))"

definition cleanPath :: "string \<Rightarrow> string" where
  "cleanPath p =
     (if p = [] then ''/''
      else (let q = (if hd p \<noteq> CHR ''/'' then CHR ''/'' # p else p);
                np = Clean q
            in if List.last q = CHR ''/'' \<and> np \<noteq> ''/'' then np @ ''/'' else np))"

datatype mux_result = To operation "(string, string) gomap" | MovedTo string | NotAllowed "string list" | NoRoute | StarURI

definition findHandler :: "string \<Rightarrow> string \<Rightarrow> mux_result" where
  "findHandler m escaped =
     (if escaped = ''*'' then StarURI
      else (let path = (if m = ''CONNECT'' then escaped else cleanPath escaped) in
            if path \<noteq> escaped then MovedTo path
            else (case find_route m (segments path) HandlerWithOptions of
                    Some (op, ps) \<Rightarrow> To op ps
                  | None \<Rightarrow>
                      (let ms = matchingMethods (segments path) HandlerWithOptions in
                       if ms \<noteq> [] then NotAllowed ms else NoRoute))))"

section \<open>Parameters and bodies\<close>

record url_request =
  u_request :: http_request
  u_EscapedPath :: string
  u_RawQuery :: string
  u_LastEventID :: "string list option"
  u_Body :: string

text \<open>The runtime's binding functions, by the type of the variable they bind, and the decoders of the request bodies.\<close>

record param_binding =
  bind_string :: "string \<Rightarrow> string \<Rightarrow> string + string option"
  bind_strings :: "string \<Rightarrow> string \<Rightarrow> string + string list option"
  bind_time :: "string \<Rightarrow> string \<Rightarrow> string + time option"
  bind_int :: "string \<Rightarrow> string \<Rightarrow> string + int option"
  bind_path :: "string \<Rightarrow> string \<Rightarrow> string + string"
  bind_path_int64 :: "string \<Rightarrow> string \<Rightarrow> string + int"
  bind_header :: "string \<Rightarrow> string \<Rightarrow> string + string"

record bodies =
  dec_component :: "string \<Rightarrow> string + gen_component"
  dec_submission :: "string \<Rightarrow> string + gen_sbom_submission"
  dec_ioc :: "string \<Rightarrow> string + gen_ioc"
  dec_transition :: "string \<Rightarrow> string + string"
  dec_remediation :: "string \<Rightarrow> string + gen_remediation"
  dec_iocs :: "string \<Rightarrow> string + gen_ioc list"
  dec_token :: "string \<Rightarrow> string + gen_auth_token_request"

datatype param_error = InvalidParamFormat string string | TooManyValues string nat

datatype reply = Reply response | BadParam param_error | Redirected string | MethodNotAllowed "string list" | NotFound
  | BadURI | Subscribed nat | Refused nat string string

text \<open>A parameter that does not bind ends the request with the default error handler's answer.\<close>

definition bound :: "string \<Rightarrow> string + 'a \<Rightarrow> ('a \<Rightarrow> ('s, reply) act) \<Rightarrow> ('s, reply) act" where
  "bound name r f = (case r of Inl e \<Rightarrow> ret (BadParam (InvalidParamFormat name e)) | Inr x \<Rightarrow> f x)"

definition answered :: "('s, response) act \<Rightarrow> ('s, reply) act" where
  "answered m = do { r \<leftarrow> m; ret (Reply r) }"

definition path_value :: "(string, string) gomap \<Rightarrow> string \<Rightarrow> string" where
  "path_value ps k = (case get ps k of None \<Rightarrow> [] | Some v \<Rightarrow> v)"

definition w_ListAnomalies :: "param_binding \<Rightarrow> string \<Rightarrow> (list_anomalies_params \<Rightarrow> ('s, response) act) \<Rightarrow> ('s, reply) act" where
  "w_ListAnomalies b q h =
     bound ''package_ref'' (bind_string b ''package_ref'' q) (\<lambda>pkg.
     bound ''kind'' (bind_string b ''kind'' q) (\<lambda>kind.
     bound ''from'' (bind_time b ''from'' q) (\<lambda>since.
     bound ''to'' (bind_time b ''to'' q) (\<lambda>until.
     bound ''limit'' (bind_int b ''limit'' q) (\<lambda>limit.
       answered (h \<lparr>lap_PackageRef = pkg, lap_Kind = kind, lap_From = since, lap_To = until, lap_Limit = limit\<rparr>))))))"

definition w_ListComponents :: "param_binding \<Rightarrow> string \<Rightarrow> ('s, response) act \<Rightarrow> ('s, reply) act" where
  "w_ListComponents b q h =
     bound ''cursor'' (bind_string b ''cursor'' q) (\<lambda>_.
     bound ''limit'' (bind_int b ''limit'' q) (\<lambda>_. answered h))"

definition w_ListIncidents :: "param_binding \<Rightarrow> string \<Rightarrow> (list_incidents_params \<Rightarrow> ('s, response) act) \<Rightarrow> ('s, reply) act" where
  "w_ListIncidents b q h =
     bound ''state'' (bind_strings b ''state'' q) (\<lambda>st.
     bound ''ecosystem'' (bind_strings b ''ecosystem'' q) (\<lambda>eco.
     bound ''from'' (bind_time b ''from'' q) (\<lambda>after.
     bound ''to'' (bind_time b ''to'' q) (\<lambda>until.
     bound ''search'' (bind_string b ''search'' q) (\<lambda>search.
     bound ''owner'' (bind_string b ''owner'' q) (\<lambda>owner.
     bound ''since'' (bind_time b ''since'' q) (\<lambda>since.
     bound ''cursor'' (bind_string b ''cursor'' q) (\<lambda>_.
     bound ''limit'' (bind_int b ''limit'' q) (\<lambda>limit.
       answered (h \<lparr>lip_State = st, lip_Ecosystem = eco, lip_From = after, lip_Since = since, lip_To = until,
         lip_Search = search, lip_Owner = owner, lip_Limit = limit\<rparr>))))))))))"

definition w_ListIoCs :: "param_binding \<Rightarrow> string \<Rightarrow> (string option \<Rightarrow> string option \<Rightarrow> ('s, response) act) \<Rightarrow> ('s, reply) act" where
  "w_ListIoCs b q h =
     bound ''ecosystem'' (bind_string b ''ecosystem'' q) (\<lambda>eco.
     bound ''severity'' (bind_string b ''severity'' q) (\<lambda>sev.
     bound ''cursor'' (bind_string b ''cursor'' q) (\<lambda>_.
     bound ''limit'' (bind_int b ''limit'' q) (\<lambda>_. answered (h eco sev)))))"

text \<open>The wrappers of operations with one path parameter share a shape, as do those without parameters.\<close>

definition w_path :: "param_binding \<Rightarrow> string \<Rightarrow> (string, string) gomap \<Rightarrow> (string \<Rightarrow> ('s, response) act) \<Rightarrow> ('s, reply) act" where
  "w_path b name ps h = bound name (bind_path b name (path_value ps name)) (\<lambda>v. answered (h v))"

definition w_ListSBOMsByComponent :: "param_binding \<Rightarrow> (string, string) gomap \<Rightarrow> (string \<Rightarrow> ('s, response) act) \<Rightarrow> ('s, reply) act" where
  "w_ListSBOMsByComponent b = w_path b ''componentRef''"

definition w_SubmitSBOM :: "param_binding \<Rightarrow> (string, string) gomap \<Rightarrow> (string \<Rightarrow> ('s, response) act) \<Rightarrow> ('s, reply) act" where
  "w_SubmitSBOM b = w_path b ''componentRef''"

definition w_GetIncident :: "param_binding \<Rightarrow> (string, string) gomap \<Rightarrow> (string \<Rightarrow> ('s, response) act) \<Rightarrow> ('s, reply) act" where
  "w_GetIncident b = w_path b ''id''"

definition w_GetIncidentDetail :: "param_binding \<Rightarrow> (string, string) gomap \<Rightarrow> (string \<Rightarrow> ('s, response) act) \<Rightarrow> ('s, reply) act" where
  "w_GetIncidentDetail b = w_path b ''id''"

definition w_AddRemediation :: "param_binding \<Rightarrow> (string, string) gomap \<Rightarrow> (string \<Rightarrow> ('s, response) act) \<Rightarrow> ('s, reply) act" where
  "w_AddRemediation b = w_path b ''id''"

definition w_TransitionIncident :: "param_binding \<Rightarrow> (string, string) gomap \<Rightarrow> (string \<Rightarrow> ('s, response) act) \<Rightarrow> ('s, reply) act" where
  "w_TransitionIncident b = w_path b ''id''"

definition w_GetSBOM :: "param_binding \<Rightarrow> (string, string) gomap \<Rightarrow> (string \<Rightarrow> ('s, response) act) \<Rightarrow> ('s, reply) act" where
  "w_GetSBOM b = w_path b ''id''"

definition w_Healthz :: "('s, response) act \<Rightarrow> ('s, reply) act" where
  "w_Healthz h = answered h"

definition w_Readyz :: "('s, response) act \<Rightarrow> ('s, reply) act" where
  "w_Readyz h = answered h"

definition w_IssueAuthToken :: "('s, response) act \<Rightarrow> ('s, reply) act" where
  "w_IssueAuthToken h = answered h"

definition w_BlastRadius :: "('s, response) act \<Rightarrow> ('s, reply) act" where
  "w_BlastRadius h = answered h"

definition w_UpsertComponent :: "('s, response) act \<Rightarrow> ('s, reply) act" where
  "w_UpsertComponent h = answered h"

definition w_SubmitIoC :: "('s, response) act \<Rightarrow> ('s, reply) act" where
  "w_SubmitIoC h = answered h"

lemmas w_path_defs = w_ListSBOMsByComponent_def w_SubmitSBOM_def w_GetIncident_def w_GetIncidentDetail_def w_AddRemediation_def
  w_TransitionIncident_def w_GetSBOM_def w_path_def

lemmas w_plain_defs = w_Healthz_def w_Readyz_def w_IssueAuthToken_def w_BlastRadius_def w_UpsertComponent_def w_SubmitIoC_def

definition w_GetAnomaly :: "param_binding \<Rightarrow> (string, string) gomap \<Rightarrow> (int \<Rightarrow> ('s, response) act) \<Rightarrow> ('s, reply) act" where
  "w_GetAnomaly b ps h = bound ''id'' (bind_path_int64 b ''id'' (path_value ps ''id'')) (\<lambda>k. answered (h k))"

definition w_GetPublisherHistory :: "param_binding \<Rightarrow> (string, string) gomap \<Rightarrow> string \<Rightarrow>
    (string \<Rightarrow> int option \<Rightarrow> ('s, response) act) \<Rightarrow> ('s, reply) act" where
  "w_GetPublisherHistory b ps q h =
     bound ''packageRef'' (bind_path b ''packageRef'' (path_value ps ''packageRef'')) (\<lambda>ref.
     bound ''limit'' (bind_int b ''limit'' q) (\<lambda>limit. answered (h ref limit)))"

text \<open>The subscription a stream opens; its loop is \<^verbatim>\<open>streamLoop\<close>.\<close>

definition open_stream :: "('s, reply) act" where
  "open_stream = State (\<lambda>s. case Subscribe (sys_bus s) of (k, b) \<Rightarrow> (Subscribed k, s\<lparr>sys_bus := b\<rparr>))"

definition w_Stream :: "param_binding \<Rightarrow> string list option \<Rightarrow> ('s, reply) act" where
  "w_Stream b hdr =
     (case hdr of
        None \<Rightarrow> open_stream
      | Some [v] \<Rightarrow> bound ''Last-Event-ID'' (bind_header b ''Last-Event-ID'' v) (\<lambda>_. open_stream)
      | Some vs \<Rightarrow> ret (BadParam (TooManyValues ''Last-Event-ID'' (length vs))))"

section \<open>Serving a request\<close>

record server =
  srv_jwt :: jwt_lib
  srv_cors :: cors_options
  srv_auth :: auth_options
  srv_binding :: param_binding
  srv_bodies :: bodies

definition wrapper :: "('c, 'v) semver \<Rightarrow> sbom_parser \<Rightarrow> env \<Rightarrow> 's storage \<Rightarrow> server \<Rightarrow> time \<Rightarrow> url_request \<Rightarrow>
    operation \<Rightarrow> (string, string) gomap \<Rightarrow> ('s, reply) act" where
  "wrapper sv parse env ops srv now r op ps =
     (let b = srv_binding srv; q = u_RawQuery r; body = u_Body r; d = srv_bodies srv in
      case op of
        OpHealthz \<Rightarrow> w_Healthz (ret h_Healthz)
      | OpReadyz \<Rightarrow> w_Readyz (ret h_Readyz)
      | OpListAnomalies \<Rightarrow> w_ListAnomalies b q (h_ListAnomalies env ops)
      | OpGetAnomaly \<Rightarrow> w_GetAnomaly b ps (h_GetAnomaly env ops)
      | OpIssueAuthToken \<Rightarrow> w_IssueAuthToken (ret (IssueAuthToken (srv_jwt srv) now (srv_auth srv) (dec_token d body)))
      | OpBlastRadius \<Rightarrow> w_BlastRadius (h_BlastRadius sv env ops (dec_iocs d body))
      | OpListComponents \<Rightarrow> w_ListComponents b q (h_ListComponents env ops)
      | OpUpsertComponent \<Rightarrow> w_UpsertComponent (h_UpsertComponent env ops (dec_component d body))
      | OpListSBOMsByComponent \<Rightarrow> w_ListSBOMsByComponent b ps (h_ListSBOMsByComponent env ops)
      | OpSubmitSBOM \<Rightarrow> w_SubmitSBOM b ps (\<lambda>ref. h_SubmitSBOM sv parse env ops ref (dec_submission d body))
      | OpListIncidents \<Rightarrow> w_ListIncidents b q (h_ListIncidents env ops)
      | OpGetIncident \<Rightarrow> w_GetIncident b ps (h_GetIncident env ops)
      | OpGetIncidentDetail \<Rightarrow> w_GetIncidentDetail b ps (h_GetIncidentDetail env ops)
      | OpAddRemediation \<Rightarrow> w_AddRemediation b ps (\<lambda>k. h_AddRemediation env ops k (dec_remediation d body))
      | OpTransitionIncident \<Rightarrow> w_TransitionIncident b ps (\<lambda>k. h_TransitionIncident env ops k (dec_transition d body))
      | OpListIoCs \<Rightarrow> w_ListIoCs b q (h_ListIoCs env ops)
      | OpSubmitIoC \<Rightarrow> w_SubmitIoC (h_SubmitIoC sv env ops (dec_ioc d body))
      | OpGetPublisherHistory \<Rightarrow> w_GetPublisherHistory b ps q (h_GetPublisherHistory env ops)
      | OpGetSBOM \<Rightarrow> w_GetSBOM b ps (h_GetSBOM env ops)
      | OpStream \<Rightarrow> w_Stream b (u_LastEventID r))"

definition ServeHTTP :: "('c, 'v) semver \<Rightarrow> sbom_parser \<Rightarrow> env \<Rightarrow> 's storage \<Rightarrow> server \<Rightarrow> time \<Rightarrow> url_request \<Rightarrow>
    ('s, reply) act" where
  "ServeHTTP sv parse env ops srv now r =
     (case snd (Handler (srv_jwt srv) now (srv_cors srv) (srv_auth srv) (u_request r)) of
        Answer status code msg \<Rightarrow> ret (Refused status code msg)
      | Next p \<Rightarrow>
          (case findHandler (rq_Method (u_request r)) (u_EscapedPath r) of
             To op ps \<Rightarrow> wrapper sv parse env ops srv now r op ps
           | MovedTo path \<Rightarrow> ret (Redirected path)
           | NotAllowed ms \<Rightarrow> ret (MethodNotAllowed ms)
           | NoRoute \<Rightarrow> ret NotFound
           | StarURI \<Rightarrow> ret BadURI))"

section \<open>Actions that only read\<close>

text \<open>
  \<open>reading m\<close> says that \<open>m\<close> leaves the store and the bus as they are, whatever it answers. Like \<open>keeps\<close> it is closed under
  the constructs the handlers are written with.
\<close>

definition reading :: "('s, 'a) act \<Rightarrow> bool" where
  "reading m \<longleftrightarrow> (\<forall>s. wp m (\<lambda>_ s'. only_ticks s s') s)"

named_theorems reading_intros

lemma reading_ret [reading_intros]: "reading (ret x)"
  by (simp add: reading_def)

lemma reading_calls [reading_intros]:
  "reading (read_call env f)" "reading (time_Now env)" "reading (range_over env xs)"
  by (simp_all add: reading_def)

lemma reading_bind [reading_intros]: "reading m \<Longrightarrow> (\<And>x. reading (f x)) \<Longrightarrow> reading (State_Monad.bind m f)"
  unfolding reading_def
proof
  fix s assume a: "\<forall>s. wp m (\<lambda>_. only_ticks s) s" "\<And>x. \<forall>s. wp (f x) (\<lambda>_. only_ticks s) s"
  have "wp m (\<lambda>r. wp (f r) (\<lambda>_. only_ticks s)) s"
  proof (rule wp_mono [OF a(1) [rule_format]])
    fix r s' assume "only_ticks s s'"
    then show "wp (f r) (\<lambda>_. only_ticks s) s'"
      by (intro wp_mono [OF a(2) [rule_format]]) (rule only_ticks_trans)
  qed
  then show "wp (State_Monad.bind m f) (\<lambda>_. only_ticks s) s" by simp
qed

lemma reading_cases [reading_intros]:
  "(\<And>x. reading (f x)) \<Longrightarrow> reading (Let y f)"
  "reading m \<Longrightarrow> reading m' \<Longrightarrow> reading (if c then m else m')"
  "reading m \<Longrightarrow> (\<And>x. reading (f x)) \<Longrightarrow> reading (case o' of None \<Rightarrow> m | Some x \<Rightarrow> f x)"
  "(\<And>x. reading (f x)) \<Longrightarrow> (\<And>x. reading (g x)) \<Longrightarrow> reading (case e of Inl x \<Rightarrow> f x | Inr x \<Rightarrow> g x)"
  "(\<And>x z. reading (h x z)) \<Longrightarrow> reading (case p of (x, z) \<Rightarrow> h x z)"
  by (simp_all split: option.split sum.split prod.split)

lemma reading_bound [reading_intros]: "(\<And>x. reading (f x)) \<Longrightarrow> reading (bound name r f)"
  unfolding bound_def by (intro reading_intros)

lemma reading_answered [reading_intros]: "reading m \<Longrightarrow> reading (answered m)"
  unfolding answered_def by (intro reading_intros)

lemma reading_radius_loop: "reading (radius_loop sv env ops affected gs)"
  by (induction gs arbitrary: affected) (auto intro!: reading_intros)

lemma reading_hydrate: "reading (hydrate env ops refs)"
  by (induction refs) (auto intro!: reading_intros)

lemma reading_handlers:
  "reading (h_ListAnomalies env ops pa)" "reading (h_GetAnomaly env ops n)" "reading (h_ListComponents env ops)"
  "reading (h_ListSBOMsByComponent env ops k)" "reading (h_ListIncidents env ops pi)" "reading (h_GetIncident env ops k)"
  "reading (h_GetIncidentDetail env ops k)" "reading (h_ListIoCs env ops x y)" "reading (h_GetPublisherHistory env ops k l)"
  "reading (h_GetSBOM env ops k)" "reading (h_BlastRadius sv env ops req)"
  unfolding h_ListAnomalies_def h_GetAnomaly_def h_ListComponents_def h_ListSBOMsByComponent_def h_ListIncidents_def
    h_GetIncident_def h_GetIncidentDetail_def h_ListIoCs_def h_GetPublisherHistory_def h_GetSBOM_def h_BlastRadius_def
  by (intro reading_intros reading_radius_loop reading_hydrate)+

definition changes_state :: "operation \<Rightarrow> bool" where
  "changes_state op \<longleftrightarrow> op \<in> {OpUpsertComponent, OpSubmitSBOM, OpAddRemediation, OpTransitionIncident, OpSubmitIoC}"

lemma wp_open_stream [simp]: "wp open_stream Q s \<longleftrightarrow> Q (Subscribed (fst (Subscribe (sys_bus s)))) (s\<lparr>sys_bus := snd (Subscribe (sys_bus s))\<rparr>)"
  by (simp add: wp_def open_stream_def split: prod.split)

text \<open>An operation that is not one of the five changes nothing but the subscriptions.\<close>

lemma wrapper_reads:
  assumes "\<not> changes_state op"
  shows "wp (wrapper sv parse env ops srv now r op ps)
    (\<lambda>_ s'. sys_store s' = sys_store s \<and> sys_tick s \<le> sys_tick s') s"
proof (cases "op = OpStream")
  case True
  then show ?thesis
    by (auto simp: wrapper_def Let_def w_Stream_def bound_def split: option.split list.split sum.split)
next
  case False
  then have "reading (wrapper sv parse env ops srv now r op ps)"
    using assms
    by (cases op) (auto simp: wrapper_def Let_def changes_state_def w_ListAnomalies_def w_GetAnomaly_def w_ListComponents_def
        w_path_defs w_plain_defs w_ListIncidents_def w_ListIoCs_def w_GetPublisherHistory_def intro!: reading_intros reading_handlers)
  then have "wp (wrapper sv parse env ops srv now r op ps) (\<lambda>_ s'. only_ticks s s') s" by (simp add: reading_def)
  then show ?thesis by (rule wp_mono) (use only_ticks_same in \<open>auto simp: only_ticks_def\<close>)
qed

section \<open>Which requests reach which operation\<close>

lemma match_segs_Some [simp]:
  "match_segs [] ss = Some q \<longleftrightarrow> ss = [] \<and> q = []"
  "match_segs (Lit l # ps) ss = Some q \<longleftrightarrow> (\<exists>ss'. ss = l # ss' \<and> match_segs ps ss' = Some q)"
  "match_segs (Wild x # ps) ss = Some q \<longleftrightarrow>
     (\<exists>s ss' q'. ss = s # ss' \<and> s \<noteq> [] \<and> s \<noteq> ''/'' \<and> match_segs ps ss' = Some q' \<and> q = (x, s) # q')"
  by (cases ss; auto split: if_splits)+

lemma find_route_SomeD:
  "find_route m ss rs = Some (op, ps) \<Longrightarrow> \<exists>pat pm segs. (pat, op) \<in> set rs \<and> parsePattern pat = (pm, segs) \<and>
    (pm = m \<or> m = ''HEAD'' \<and> pm = ''GET'') \<and> match_segs segs ss = Some ps"
  by (induction m ss rs rule: find_route.induct)
    (fastforce split: prod.splits option.splits if_splits)+

lemma parsed_patterns:
  "parsePattern ''GET /healthz'' = (''GET'', [Lit ''healthz''])"
  "parsePattern ''GET /readyz'' = (''GET'', [Lit ''readyz''])"
  "parsePattern ''GET /v1/anomalies'' = (''GET'', [Lit ''v1'', Lit ''anomalies''])"
  "parsePattern ''GET /v1/anomalies/{id}'' = (''GET'', [Lit ''v1'', Lit ''anomalies'', Wild ''id''])"
  "parsePattern ''POST /v1/auth/token'' = (''POST'', [Lit ''v1'', Lit ''auth'', Lit ''token''])"
  "parsePattern ''POST /v1/blast-radius'' = (''POST'', [Lit ''v1'', Lit ''blast-radius''])"
  "parsePattern ''GET /v1/components'' = (''GET'', [Lit ''v1'', Lit ''components''])"
  "parsePattern ''POST /v1/components'' = (''POST'', [Lit ''v1'', Lit ''components''])"
  "parsePattern ''GET /v1/components/{componentRef}/sboms'' = (''GET'', [Lit ''v1'', Lit ''components'', Wild ''componentRef'', Lit ''sboms''])"
  "parsePattern ''POST /v1/components/{componentRef}/sboms'' = (''POST'', [Lit ''v1'', Lit ''components'', Wild ''componentRef'', Lit ''sboms''])"
  "parsePattern ''GET /v1/incidents'' = (''GET'', [Lit ''v1'', Lit ''incidents''])"
  "parsePattern ''GET /v1/incidents/{id}'' = (''GET'', [Lit ''v1'', Lit ''incidents'', Wild ''id''])"
  "parsePattern ''GET /v1/incidents/{id}/detail'' = (''GET'', [Lit ''v1'', Lit ''incidents'', Wild ''id'', Lit ''detail''])"
  "parsePattern ''POST /v1/incidents/{id}/remediations'' = (''POST'', [Lit ''v1'', Lit ''incidents'', Wild ''id'', Lit ''remediations''])"
  "parsePattern ''POST /v1/incidents/{id}/transition'' = (''POST'', [Lit ''v1'', Lit ''incidents'', Wild ''id'', Lit ''transition''])"
  "parsePattern ''GET /v1/iocs'' = (''GET'', [Lit ''v1'', Lit ''iocs''])"
  "parsePattern ''POST /v1/iocs'' = (''POST'', [Lit ''v1'', Lit ''iocs''])"
  "parsePattern ''GET /v1/publisher/{packageRef}/history'' = (''GET'', [Lit ''v1'', Lit ''publisher'', Wild ''packageRef'', Lit ''history''])"
  "parsePattern ''GET /v1/sboms/{id}'' = (''GET'', [Lit ''v1'', Lit ''sboms'', Wild ''id''])"
  "parsePattern ''GET /v1/stream'' = (''GET'', [Lit ''v1'', Lit ''stream''])"
  by code_simp+

lemma changing_route:
  assumes "find_route m ss HandlerWithOptions = Some (op, ps)" and "changes_state op"
  shows "m = ''POST'' \<and> (ss = [''v1'', ''components''] \<or> ss = [''v1'', ''iocs''] \<or>
    (\<exists>x. ss = [''v1'', ''components'', x, ''sboms'']) \<or> (\<exists>x. ss = [''v1'', ''incidents'', x, ''remediations'']) \<or>
    (\<exists>x. ss = [''v1'', ''incidents'', x, ''transition'']))"
proof -
  obtain pat pm segs where p: "(pat, op) \<in> set HandlerWithOptions" "parsePattern pat = (pm, segs)"
      "pm = m \<or> m = ''HEAD'' \<and> pm = ''GET''" "match_segs segs ss = Some ps"
    using find_route_SomeD [OF assms(1)] by blast
  have "pat \<in> {''POST /v1/components'', ''POST /v1/components/{componentRef}/sboms'', ''POST /v1/incidents/{id}/remediations'',
      ''POST /v1/incidents/{id}/transition'', ''POST /v1/iocs''}"
    using p(1) assms(2) by (auto simp: HandlerWithOptions_def changes_state_def)
  then have "pm = ''POST'' \<and> segs \<in> {[Lit ''v1'', Lit ''components''], [Lit ''v1'', Lit ''components'', Wild ''componentRef'', Lit ''sboms''],
      [Lit ''v1'', Lit ''incidents'', Wild ''id'', Lit ''remediations''], [Lit ''v1'', Lit ''incidents'', Wild ''id'', Lit ''transition''],
      [Lit ''v1'', Lit ''iocs'']}"
    using p(2) parsed_patterns by (elim insertE emptyE) simp_all
  moreover from this have "m = ''POST''" using p(3) by auto
  ultimately show ?thesis using p(4) by (elim conjE insertE emptyE; simp; elim exE conjE; simp)
qed

lemma Clean_rooted: "HasPrefix q ''/'' \<Longrightarrow> \<exists>t. Clean q = CHR ''/'' # t"
  by (simp add: Clean_def Let_def)

lemma cleanPath_rooted: "\<exists>t. cleanPath p = CHR ''/'' # t"
proof (cases p)
  case (Cons c cs)
  let ?q = "if hd p \<noteq> CHR ''/'' then CHR ''/'' # p else p"
  have "HasPrefix ?q ''/''" using Cons by (simp add: HasPrefix_def)
  from Clean_rooted [OF this] show ?thesis using Cons by (auto simp: cleanPath_def Let_def simp del: Clean_def)
qed (simp add: cleanPath_def)

text \<open>A path that reaches an operation is a slash and the segments; the middleware sees the same segments.\<close>

lemma dispatched:
  assumes "findHandler m p = To op ps" and "changes_state op" and "PathUnescape p = Some u"
  shows "find_route m (segments p) HandlerWithOptions = Some (op, ps) \<and> u = CHR ''/'' # Join (segments p) ''/''"
proof -
  have r: "find_route m (segments p) HandlerWithOptions = Some (op, ps)"
      and c: "m = ''CONNECT'' \<or> cleanPath p = p"
    using assms(1) by (auto simp: findHandler_def Let_def split: if_splits option.splits)
  with changing_route [OF r assms(2)] obtain t where t: "p = CHR ''/'' # t" using cleanPath_rooted [of p] by auto
  then obtain v where "PathUnescape t = Some v" "u = CHR ''/'' # v"
    using assms(3) by auto
  with unescape_segments [of t] t r show ?thesis by (simp add: segments_def)
qed

lemma changing_not_exempt:
  assumes "findHandler m p = To op ps" and "changes_state op" and "PathUnescape p = Some u"
  shows "m = ''POST'' \<and> \<not> isExempt u DefaultExemptPaths"
proof -
  note d = dispatched [OF assms]
  show ?thesis
    using changing_route [OF d [THEN conjunct1] assms(2)] d
    by (auto simp: isExempt_def DefaultExemptPaths_def HasPrefix_def)
qed

lemma wp_answered [simp]: "wp (answered m) Q s \<longleftrightarrow> wp m (\<lambda>r. Q (Reply r)) s"
  by (simp add: answered_def)

lemma ServeHTTP_reads:
  assumes "\<And>op ps. findHandler (rq_Method (u_request r)) (u_EscapedPath r) = To op ps \<Longrightarrow> changes_state op \<Longrightarrow>
    \<exists>status code msg. snd (Handler (srv_jwt srv) now (srv_cors srv) (srv_auth srv) (u_request r)) = Answer status code msg"
  shows "wp (ServeHTTP sv parse env ops srv now r) (\<lambda>_ s'. sys_store s' = sys_store s \<and> sys_tick s \<le> sys_tick s') s"
proof (cases "findHandler (rq_Method (u_request r)) (u_EscapedPath r)")
  case (To op ps)
  then show ?thesis
    using assms wrapper_reads [of op sv parse env ops srv now r ps s]
    by (cases "changes_state op") (auto simp: ServeHTTP_def split: verdict.split)
qed (simp_all add: ServeHTTP_def split: verdict.split)

section \<open>Properties\<close>

text \<open>
  C5. Only vouched-for requests change anything. With authentication on and the default exemptions, a request that changes
  the store is a \<^verbatim>\<open>POST\<close> whose bearer token the middleware has validated: no path, however encoded or padded with dots and
  slashes, is exempt for the middleware and reaches an operation that changes state in the router.
\<close>

theorem writes_need_token:
  assumes "Enabled (srv_auth srv)" and "ExemptPaths (srv_auth srv) = DefaultExemptPaths"
    and "PathUnescape (u_EscapedPath r) = Some (rq_Path (u_request r))"
    and "sys_store (snd (run_state (ServeHTTP sv parse env ops srv now r) s)) \<noteq> sys_store s"
  shows "rq_Method (u_request r) = ''POST'' \<and>
    (\<exists>op ps p. findHandler ''POST'' (u_EscapedPath r) = To op ps \<and> changes_state op \<and>
      bearerToken (rq_Authorization (u_request r)) \<noteq> [] \<and>
      validate (srv_jwt srv) now (bearerToken (rq_Authorization (u_request r))) (srv_auth srv) = Inr p)"
proof -
  let ?h = "snd (Handler (srv_jwt srv) now (srv_cors srv) (srv_auth srv) (u_request r))"
  have "\<not> wp (ServeHTTP sv parse env ops srv now r) (\<lambda>_ s'. sys_store s' = sys_store s \<and> sys_tick s \<le> sys_tick s') s"
    using assms(4) by (simp add: wp_run)
  then have "\<not> (\<forall>op ps. findHandler (rq_Method (u_request r)) (u_EscapedPath r) = To op ps \<longrightarrow> changes_state op \<longrightarrow>
      (\<exists>status code msg. ?h = Answer status code msg))"
    by (rule contrapos_nn) (rule ServeHTTP_reads, blast)
  then obtain op ps where op: "findHandler (rq_Method (u_request r)) (u_EscapedPath r) = To op ps" "changes_state op"
      and h: "\<And>status code msg. ?h \<noteq> Answer status code msg"
    by blast
  have post: "rq_Method (u_request r) = ''POST''" "\<not> isExempt (rq_Path (u_request r)) DefaultExemptPaths"
    using changing_not_exempt [OF op assms(3)] by simp_all
  obtain who where "Auth (srv_jwt srv) now (srv_auth srv) (u_request r) = Next who"
    using h post(1) by (cases "Auth (srv_jwt srv) now (srv_auth srv) (u_request r)") (auto simp: Handler_def CORS_def Let_def)
  then have "bearerToken (rq_Authorization (u_request r)) \<noteq> [] \<and>
      (\<exists>p. validate (srv_jwt srv) now (bearerToken (rq_Authorization (u_request r))) (srv_auth srv) = Inr p)"
    using assms(1,2) post(2) by (auto simp: Auth_def Let_def split: if_splits sum.splits)
  with op post(1) show ?thesis by auto
qed

definition sample_binding :: param_binding where
  "sample_binding = \<lparr>bind_string = (\<lambda>_ _. Inr None), bind_strings = (\<lambda>_ _. Inr None), bind_time = (\<lambda>_ _. Inr None),
     bind_int = (\<lambda>_ _. Inr None), bind_path = (\<lambda>_ v. Inr v), bind_path_int64 = (\<lambda>_ _. Inr 0), bind_header = (\<lambda>_ v. Inr v)\<rparr>"

definition sample_bodies :: bodies where
  "sample_bodies = \<lparr>dec_component = (\<lambda>_. Inr (toGenComponent sample_component)), dec_submission = (\<lambda>_. Inl ''EOF''),
     dec_ioc = (\<lambda>_. Inr (toGenIoC sample_ioc)), dec_transition = (\<lambda>_. Inr StateTriaged), dec_remediation = (\<lambda>_. Inl ''EOF''),
     dec_iocs = (\<lambda>_. Inl ''EOF''), dec_token = (\<lambda>_. Inl ''EOF'')\<rparr>"

definition sample_server :: server where
  "sample_server = \<lparr>srv_jwt = one_token ''k'' (issued_claims ''ci'' [] ''write'' Hour 0), srv_cors = DefaultCORSOptions,
     srv_auth = sample_auth, srv_binding = sample_binding, srv_bodies = sample_bodies\<rparr>"

definition post :: "string \<Rightarrow> url_request" where
  "post path = \<lparr>u_request = \<lparr>rq_Method = ''POST'', rq_Path = path, rq_Authorization = ''Bearer jws'', rq_Origin = []\<rparr>,
     u_EscapedPath = path, u_RawQuery = [], u_LastEventID = None, u_Body = ''{}''\<rparr>"

definition after_sample :: "url_request \<Rightarrow> store sys" where
  "after_sample r = snd (run_state (ServeHTTP sample_semver (\<lambda>_ _. Inl EmptyLockfile) sample_env memory sample_server 5 r) sample_sys)"

theorem writes_need_token_witness:
  "sys_store (after_sample (post ''/v1/components'')) \<noteq> sys_store sample_sys \<and>
   (\<exists>p. validate (srv_jwt sample_server) 5 ''jws'' sample_auth = Inr p)"
proof -
  let ?r = "post ''/v1/components''"
  have s: "Enabled (srv_auth sample_server)" "ExemptPaths (srv_auth sample_server) = DefaultExemptPaths"
    by (simp_all add: sample_server_def sample_auth_def)
  have u: "PathUnescape (u_EscapedPath ?r) = Some (rq_Path (u_request ?r))" by (simp add: post_def)
  have "components (sys_store (after_sample ?r)) \<noteq> []" "components (sys_store sample_sys) = []" by code_simp+
  then have c: "sys_store (after_sample ?r) \<noteq> sys_store sample_sys" by metis
  moreover from writes_need_token [OF s u c [unfolded after_sample_def]]
  have "\<exists>p. validate (srv_jwt sample_server) 5 (bearerToken (rq_Authorization (u_request ?r))) (srv_auth sample_server) = Inr p"
    by blast
  moreover have "bearerToken (rq_Authorization (u_request ?r)) = ''jws''" "srv_auth sample_server = sample_auth"
    by (code_simp, simp add: sample_server_def)
  ultimately show ?thesis by simp
qed

section \<open>Every route can be reached\<close>

definition fill :: "string \<Rightarrow> seg \<Rightarrow> string" where
  "fill v s = (case s of Lit l \<Rightarrow> l | Wild _ \<Rightarrow> PathEscape v)"

definition wilds :: "string \<Rightarrow> seg list \<Rightarrow> (string, string) gomap" where
  "wilds v segs = concat (map (\<lambda>s. case s of Lit _ \<Rightarrow> [] | Wild x \<Rightarrow> [(x, v)]) segs)"

lemma cleanPath_plain:
  assumes "xs \<noteq> []" and "list_all plain_segment xs"
  shows "cleanPath (CHR ''/'' # Join xs ''/'') = CHR ''/'' # Join xs ''/''"
proof -
  have "Join xs ''/'' \<noteq> [] \<and> List.last (Join xs ''/'') \<noteq> CHR ''/''"
    using assms by (induction xs "''/''" rule: Join.induct) (auto simp: plain_segment_def dest: last_in_set)
  then show ?thesis using Clean_plain [OF assms] by (simp add: cleanPath_def)
qed

definition plain_pattern :: "seg list \<Rightarrow> bool" where
  "plain_pattern segs \<longleftrightarrow> segs \<noteq> [] \<and>
     list_all (\<lambda>s. case s of Lit l \<Rightarrow> plain_segment l \<and> segment_of l = l | Wild _ \<Rightarrow> True) segs"

lemma patterns_plain: "list_all (\<lambda>r. plain_pattern (snd (parsePattern (fst r)))) HandlerWithOptions"
  by code_simp

lemma filled_route:
  assumes "v \<noteq> []" and "v \<noteq> ''/''"
  shows "list_all (\<lambda>r. case parsePattern (fst r) of (m, segs) \<Rightarrow>
    find_route m (map (\<lambda>s. case s of Lit l \<Rightarrow> l | Wild _ \<Rightarrow> v) segs) HandlerWithOptions = Some (snd r, wilds v segs)) HandlerWithOptions"
  using assms by (simp add: HandlerWithOptions_def parsed_patterns wilds_def)

lemma filled_path:
  assumes "plain_pattern segs" and "v \<notin> {[], ''.'', ''..''}"
  shows "cleanPath (CHR ''/'' # Join (map (fill v) segs) ''/'') = CHR ''/'' # Join (map (fill v) segs) ''/''"
    and "segments (CHR ''/'' # Join (map (fill v) segs) ''/'') = map (\<lambda>s. case s of Lit l \<Rightarrow> l | Wild _ \<Rightarrow> v) segs"
proof -
  have p: "list_all plain_segment (map (fill v) segs)"
    using assms PathEscape_plain [of v] by (auto simp: plain_pattern_def fill_def list_all_iff split: seg.splits)
  moreover have "map (fill v) segs \<noteq> []" using assms(1) by (simp add: plain_pattern_def)
  ultimately show "cleanPath (CHR ''/'' # Join (map (fill v) segs) ''/'') = CHR ''/'' # Join (map (fill v) segs) ''/''"
    by (intro cleanPath_plain)
  have "split_path (Join (map (fill v) segs) ''/'') = map (fill v) segs"
    using p assms(1) by (intro split_Join) (auto simp: list_all_iff plain_segment_def plain_pattern_def)
  moreover have "segment_of (fill v s) = (case s of Lit l \<Rightarrow> l | Wild _ \<Rightarrow> v)" if "s \<in> set segs" for s
    using assms(1) that
    by (auto simp: fill_def plain_pattern_def list_all_iff segment_of_def unescape_escape split: seg.splits option.splits)
  ultimately show "segments (CHR ''/'' # Join (map (fill v) segs) ''/'') = map (\<lambda>s. case s of Lit l \<Rightarrow> l | Wild _ \<Rightarrow> v) segs"
    by (simp add: segments_def)
qed



section \<open>The engine behind its router\<close>

text \<open>The bulk lookup needs a published IoC to name its ecosystem.\<close>

definition names_ecosystem :: "server \<Rightarrow> url_request \<Rightarrow> bool" where
  "names_ecosystem srv r =
     (case findHandler (rq_Method (u_request r)) (u_EscapedPath r) of
        To OpSubmitIoC _ \<Rightarrow> (case dec_ioc (srv_bodies srv) (u_Body r) of Inl _ \<Rightarrow> True | Inr g \<Rightarrow> gi_Ecosystem g \<noteq> [])
      | _ \<Rightarrow> True)"

fun serve_all :: "('c, 'v) semver \<Rightarrow> sbom_parser \<Rightarrow> env \<Rightarrow> 's storage \<Rightarrow> server \<Rightarrow> (time \<times> url_request) list \<Rightarrow>
    ('s, unit) act" where
  "serve_all sv parse env ops srv [] = ret ()"
| "serve_all sv parse env ops srv ((now, r) # rs) = do {
     _ \<leftarrow> ServeHTTP sv parse env ops srv now r;
     serve_all sv parse env ops srv rs
   }"

lemma wp_bound [simp]: "wp (bound name x f) Q s \<longleftrightarrow>
    (case x of Inl e \<Rightarrow> Q (BadParam (InvalidParamFormat name e)) s | Inr y \<Rightarrow> wp (f y) Q s)"
  by (simp add: bound_def split: sum.split)

context storage_contract
begin

lemma good_same_store:
  "good sv env s \<Longrightarrow> sys_store s' = sys_store s \<and> sys_tick s \<le> sys_tick s' \<Longrightarrow> good sv env s'"
  by (auto simp: good_def ready_def intro: ids_fresh_mono)

lemma wrapper_good:
  assumes "quiet env" and "parser_ok parse" and "good sv env s"
    and "\<And>g. op = OpSubmitIoC \<Longrightarrow> dec_ioc (srv_bodies srv) (u_Body r) = Inr g \<Longrightarrow> gi_Ecosystem g \<noteq> []"
  shows "wp (wrapper sv parse env ops srv now r op ps) (\<lambda>_. good sv env) s"
proof (cases "changes_state op")
  case True
  then consider "op = OpUpsertComponent" | "op = OpSubmitSBOM" | "op = OpAddRemediation" | "op = OpTransitionIncident"
    | "op = OpSubmitIoC" by (auto simp: changes_state_def)
  then show ?thesis
  proof cases
    case 5
    then show ?thesis using assms(4) submit_ioc_good [OF assms(1,3)] by (simp add: wrapper_def Let_def w_plain_defs)
  qed (simp_all add: wrapper_def Let_def w_path_defs w_plain_defs assms(3) upsert_component_good [OF assms(1,3)] submit_sbom_good [OF assms(1,3,2)]
      remediation_good [OF assms(1,3)] transition_good [OF assms(1,3)] split: sum.split)
next
  case False
  show ?thesis by (rule wp_mono [OF wrapper_reads [OF False]]) (rule good_same_store [OF assms(3)])
qed

lemma http_good:
  assumes "quiet env" and "parser_ok parse" and "good sv env s" and "names_ecosystem srv r"
  shows "wp (ServeHTTP sv parse env ops srv now r) (\<lambda>_. good sv env) s"
proof -
  have "wp (wrapper sv parse env ops srv now r op ps) (\<lambda>_. good sv env) s"
    if "findHandler (rq_Method (u_request r)) (u_EscapedPath r) = To op ps" for op ps
    using assms(4) that by (intro wrapper_good assms(1-3)) (simp add: names_ecosystem_def)
  then show ?thesis using assms(3) by (simp add: ServeHTTP_def split: verdict.split mux_result.split)
qed

lemma serve_all_good:
  assumes "quiet env" and "parser_ok parse"
  shows "good sv env s \<Longrightarrow> list_all (\<lambda>x. names_ecosystem srv (snd x)) rs \<Longrightarrow>
    wp (serve_all sv parse env ops srv rs) (\<lambda>_. good sv env) s"
proof (induction rs arbitrary: s)
  case (Cons x rs)
  obtain now r where x: "x = (now, r)" by (cases x)
  have "wp (ServeHTTP sv parse env ops srv now r) (\<lambda>_. wp (serve_all sv parse env ops srv rs) (\<lambda>_. good sv env)) s"
    by (rule wp_mono [OF http_good [OF assms Cons.prems(1)]]) (use Cons x in auto)
  then show ?case by (simp add: x)
qed simp

end

context frame
begin

lemma keeps_http: "keeps P (ServeHTTP sv parse env ops srv now r)"
proof -
  have a: "keeps P (answered m)" if "keeps P m" for m :: "('a, response) act"
    unfolding answered_def by (intro keeps_intros that)
  have b: "keeps P (bound name x f)" if "\<And>y. keeps P (f y)" for name and x :: "string + string" and f
    unfolding bound_def by (intro keeps_intros that)
  have "keeps P (wrapper sv parse env ops srv now r op ps)" for op ps
  proof (cases "changes_state op")
    case True
    then show ?thesis
      by (auto simp: changes_state_def wrapper_def Let_def w_path_defs w_plain_defs intro!: a b keeps_component_handler keeps_sbom_handler
          keeps_ioc_handler keeps_transition_handler keeps_remediation_handler)
  next
    case False
    show ?thesis unfolding keeps_def by (auto intro!: wp_mono [OF wrapper_reads [OF False]])
  qed
  then show ?thesis unfolding ServeHTTP_def by (auto intro!: keeps_intros split: verdict.split mux_result.split)
qed

end

end
