(* ===== verification/Postgres.thy ===== *)
theory Postgres
  imports Routing
begin

text \<open>
  \<^verbatim>\<open>engine/internal/storage/postgres/storage.go\<close>, the production backend: the statements of each method, run against
  the tables of \<^verbatim>\<open>migrations/*.sql\<close>. A table with a primary key is a map from keys to rows, an
  \<^verbatim>\<open>INSERT ... ON CONFLICT DO UPDATE\<close> is a \<open>put\<close>, a sequence is a counter that also advances when the insert
  ends in a conflict, and a \<^verbatim>\<open>SELECT\<close> visits rows in an order of the database's choice before \<^verbatim>\<open>ORDER BY\<close>.

  The database is a parameter in three respects: which statement of a call fails, the sort key of a
  text column under the collation of the database, and the text \<^verbatim>\<open>JSONB\<close> gives back for a JSON text. The
  driver writes times at microsecond resolution. JSON columns that hold marshalled Go values are kept as those
  values. A method is one step: statements of other connections do not run in between.
\<close>

section \<open>The database\<close>

record pgsql =
  pq_fault :: "call \<Rightarrow> nat \<Rightarrow> string option"
  pq_collate :: "string \<Rightarrow> string"
  pq_jsonb :: "string \<Rightarrow> string option"

text \<open>The outcome of the n-th statement of a call; a call the environment does not disturb has no failing statement.\<close>

definition fault :: "pgsql \<Rightarrow> call \<Rightarrow> nat \<Rightarrow> string option" where
  "fault d c n = (case c_err c of None \<Rightarrow> None | Some _ \<Rightarrow> pq_fault d c n)"

definition micro :: "time \<Rightarrow> time" where
  "micro t = t div 1000 * 1000"

definition wrapPgErr :: "string \<Rightarrow> string option \<Rightarrow> error option" where
  "wrapPgErr op err = (case err of None \<Rightarrow> None | Some m \<Rightarrow> Some (ErrPostgres op m))"

record sbom_row =
  sr_component_ref :: string
  sr_commit_sha :: string
  sr_ecosystem :: string
  sr_generated_at :: time
  sr_source_format :: string
  sr_source_bytes :: int

record iocBody =
  ib_PackageVersion :: "ioc_package_version option"
  ib_PackageRange :: "ioc_package_range option"
  ib_PublisherAnomaly :: "ioc_publisher_anomaly option"
  ib_AnomalyBody :: "ioc_body_anomaly option"

record ioc_row =
  ix_kind :: string
  ix_severity :: string
  ix_ecosystem :: string
  ix_source :: string
  ix_published_at :: time
  ix_description :: string
  ix_body :: iocBody

record incident_row =
  ir_ioc_id :: string
  ir_state :: string
  ir_opened_at :: time
  ir_last_transitioned_at :: time
  ir_affected :: "string list"

record remediation_row =
  rr_incident_id :: string
  rr_kind :: string
  rr_executed_at :: time
  rr_actor_ref :: string
  rr_details :: anymap
  rr_seq :: int

record profile_row =
  pr_package_count :: int
  pr_publish_count :: int
  pr_last_30day_publishes :: int
  pr_uses_oidc :: bool
  pr_has_git_tags :: bool
  pr_maintainer_emails :: "string list"
  pr_last_email_change :: "time option"

record history_row =
  hr_package_ref :: string
  hr_snapshot_at :: time
  hr_maintainers :: "maintainer list"
  hr_latest_version :: "string option"
  hr_latest_version_published_at :: "time option"
  hr_publish_method :: "string option"
  hr_source_repo_url :: "string option"
  hr_raw_data :: string

record anomaly_row =
  ar_kind :: string
  ar_package_ref :: string
  ar_detected_at :: time
  ar_confidence :: string
  ar_explanation :: string
  ar_evidence :: anymap

record tables =
  t_components :: "(string, component) gomap"
  t_sboms :: "(string, sbom_row) gomap"
  t_sbom_packages :: "(string \<times> nat, package_version) gomap"
  t_iocs :: "(string, ioc_row) gomap"
  t_incidents :: "(string, incident_row) gomap"
  t_remediations :: "(string, remediation_row) gomap"
  t_publishers :: "(string \<times> string, time \<times> time) gomap"
  t_publisher_profiles :: "(string \<times> string, profile_row) gomap"
  t_publisher_history :: "(int, history_row) gomap"
  t_anomalies :: "(int, anomaly_row) gomap"
  seq_remediations :: int
  seq_history :: int
  seq_anomalies :: int

definition migrated :: tables where
  "migrated = \<lparr>t_components = [], t_sboms = [], t_sbom_packages = [], t_iocs = [], t_incidents = [],
     t_remediations = [], t_publishers = [], t_publisher_profiles = [], t_publisher_history = [],
     t_anomalies = [], seq_remediations = 0, seq_history = 0, seq_anomalies = 0\<rparr>"

text \<open>A statement that writes one table, and one that reads.\<close>

definition exec :: "pgsql \<Rightarrow> call \<Rightarrow> string \<Rightarrow> tables \<Rightarrow> tables \<Rightarrow> error option \<times> tables" where
  "exec d c op new old =
     (case wrapPgErr op (fault d c 0) of Some e \<Rightarrow> (Some e, old) | None \<Rightarrow> (None, new))"

definition query :: "pgsql \<Rightarrow> call \<Rightarrow> nat \<Rightarrow> string \<Rightarrow> 'a result \<Rightarrow> 'a result" where
  "query d c n op rows = (case wrapPgErr op (fault d c n) of Some e \<Rightarrow> Inl e | None \<Rightarrow> rows)"

definition one_row :: "'a option \<Rightarrow> 'a result" where
  "one_row r = (case r of None \<Rightarrow> Inl ErrNotFound | Some x \<Rightarrow> Inr x)"

definition noLimitSentinel :: int where
  "noLimitSentinel = 2 ^ 31"

definition effectiveLimit :: "int \<Rightarrow> nat" where
  "effectiveLimit limit = nat (if limit \<le> 0 then noLimitSentinel else limit)"

section \<open>Components\<close>

definition pg_UpsertComponent :: "pgsql \<Rightarrow> call \<Rightarrow> component \<Rightarrow> tables \<Rightarrow> error option \<times> tables" where
  "pg_UpsertComponent d c x s =
     exec d c ''UpsertComponent'' (s\<lparr>t_components := put (comp_Ref x) x (t_components s)\<rparr>) s"

definition select_component :: "pgsql \<Rightarrow> call \<Rightarrow> nat \<Rightarrow> string \<Rightarrow> tables \<Rightarrow> component result" where
  "select_component d c n ref s = query d c n ''GetComponent'' (one_row (get (t_components s) ref))"

definition pg_GetComponent :: "pgsql \<Rightarrow> call \<Rightarrow> string \<Rightarrow> tables \<Rightarrow> component result" where
  "pg_GetComponent d c ref s = select_component d c 0 ref s"

definition pg_ListComponents :: "pgsql \<Rightarrow> call \<Rightarrow> tables \<Rightarrow> component list result" where
  "pg_ListComponents d c s = query d c 0 ''ListComponents''
     (Inr (sort_slice (\<lambda>a b. pq_collate d (comp_Ref a) < pq_collate d (comp_Ref b))
       (values_in (c_order c) (t_components s))))"

section \<open>SBOMs\<close>

definition sbom_row_of :: "sbom \<Rightarrow> sbom_row" where
  "sbom_row_of b = \<lparr>sr_component_ref = sbom_ComponentRef b, sr_commit_sha = sbom_CommitSHA b,
     sr_ecosystem = sbom_Ecosystem b, sr_generated_at = micro (sbom_GeneratedAt b),
     sr_source_format = sbom_SourceFormat b, sr_source_bytes = sbom_SourceBytes b\<rparr>"

definition scanSBOM :: "string \<Rightarrow> sbom_row \<Rightarrow> package_version list \<Rightarrow> sbom" where
  "scanSBOM k r ps = \<lparr>sbom_ID = k, sbom_ComponentRef = sr_component_ref r, sbom_CommitSHA = sr_commit_sha r,
     sbom_Ecosystem = sr_ecosystem r, sbom_GeneratedAt = sr_generated_at r, sbom_Packages = ps,
     sbom_SourceFormat = sr_source_format r, sbom_SourceBytes = sr_source_bytes r\<rparr>"

fun insert_packages :: "pgsql \<Rightarrow> call \<Rightarrow> string \<Rightarrow> nat \<Rightarrow> package_version list \<Rightarrow>
    (string \<times> nat, package_version) gomap \<Rightarrow> (string \<times> nat, package_version) gomap result" where
  "insert_packages d c k i [] t = Inr t"
| "insert_packages d c k i (p # ps) t =
     (case fault d c (3 + i) of
        Some m \<Rightarrow> Inl (ErrPostgres ''UpsertSBOM insert package'' m)
      | None \<Rightarrow>
          if get t (k, i) \<noteq> None then Inl (ErrPostgres ''UpsertSBOM insert package'' ''duplicate key'')
          else insert_packages d c k (Suc i) ps (put (k, i) p t))"

text \<open>Begin, insert, delete, the package inserts and the commit; a failure rolls everything back.\<close>

definition pg_UpsertSBOM :: "pgsql \<Rightarrow> call \<Rightarrow> sbom \<Rightarrow> tables \<Rightarrow> error option \<times> tables" where
  "pg_UpsertSBOM d c b s =
     (case wrapPgErr ''UpsertSBOM begin'' (fault d c 0) of Some e \<Rightarrow> (Some e, s) | None \<Rightarrow>
     (case wrapPgErr ''UpsertSBOM'' (fault d c 1) of Some e \<Rightarrow> (Some e, s) | None \<Rightarrow>
     (case wrapPgErr ''UpsertSBOM clear packages'' (fault d c 2) of Some e \<Rightarrow> (Some e, s) | None \<Rightarrow>
     (case insert_packages d c (sbom_ID b) 0 (sbom_Packages b)
         (filter (\<lambda>e. fst (fst e) \<noteq> sbom_ID b) (t_sbom_packages s)) of
        Inl e \<Rightarrow> (Some e, s)
      | Inr t \<Rightarrow>
          (case wrapPgErr [] (fault d c (3 + length (sbom_Packages b))) of
             Some e \<Rightarrow> (Some e, s)
           | None \<Rightarrow> (None, s\<lparr>t_sboms := put (sbom_ID b) (sbom_row_of b) (t_sboms s), t_sbom_packages := t\<rparr>))))))"

definition package_rows :: "order \<Rightarrow> string \<Rightarrow> tables \<Rightarrow> package_version list" where
  "package_rows \<rho> k s = map snd (sort_slice (\<lambda>a b. snd (fst a) < snd (fst b))
     (filter (\<lambda>e. fst (fst e) = k) (in_order \<rho> (t_sbom_packages s))))"

definition hydrateSBOMPackages :: "pgsql \<Rightarrow> call \<Rightarrow> nat \<Rightarrow> string \<Rightarrow> tables \<Rightarrow> package_version list result" where
  "hydrateSBOMPackages d c n k s = query d c n ''hydrateSBOMPackages'' (Inr (package_rows (c_order c) k s))"

definition pg_GetSBOM :: "pgsql \<Rightarrow> call \<Rightarrow> string \<Rightarrow> tables \<Rightarrow> sbom result" where
  "pg_GetSBOM d c k s =
     (case query d c 0 ''GetSBOM'' (one_row (get (t_sboms s) k)) of
        Inl e \<Rightarrow> Inl e
      | Inr r \<Rightarrow>
          (case hydrateSBOMPackages d c 1 k s of Inl e \<Rightarrow> Inl e | Inr ps \<Rightarrow> Inr (scanSBOM k r ps)))"

fun hydrate_rows :: "pgsql \<Rightarrow> call \<Rightarrow> nat \<Rightarrow> (string \<times> sbom_row) list \<Rightarrow> tables \<Rightarrow> sbom list result" where
  "hydrate_rows d c n [] s = Inr []"
| "hydrate_rows d c n ((k, r) # rows) s =
     (case hydrateSBOMPackages d c n k s of
        Inl e \<Rightarrow> Inl e
      | Inr ps \<Rightarrow>
          (case hydrate_rows d c (Suc n) rows s of Inl e \<Rightarrow> Inl e | Inr bs \<Rightarrow> Inr (scanSBOM k r ps # bs)))"

definition pg_ListSBOMsByComponent :: "pgsql \<Rightarrow> call \<Rightarrow> string \<Rightarrow> tables \<Rightarrow> sbom list result" where
  "pg_ListSBOMsByComponent d c ref s =
     (case query d c 0 ''ListSBOMsByComponent'' (Inr ()) of
        Inl e \<Rightarrow> Inl e
      | Inr _ \<Rightarrow> hydrate_rows d c 1
          (sort_slice (\<lambda>a b. sr_generated_at (snd a) < sr_generated_at (snd b))
            (filter (\<lambda>e. sr_component_ref (snd e) = ref) (in_order (c_order c) (t_sboms s)))) s)"

text \<open>The join of package rows with the row of their SBOM.\<close>

definition join_package :: "tables \<Rightarrow> (string \<times> nat) \<times> package_version \<Rightarrow> sbom_package_ref list" where
  "join_package s e =
     (case get (t_sboms s) (fst (fst e)) of
        None \<Rightarrow> []
      | Some r \<Rightarrow> [\<lparr>spr_ComponentRef = sr_component_ref r, spr_Package = snd e\<rparr>])"

definition pg_ListSBOMPackages :: "pgsql \<Rightarrow> call \<Rightarrow> string \<Rightarrow> string \<Rightarrow> tables \<Rightarrow> sbom_package_ref list result" where
  "pg_ListSBOMPackages d c eco name s = query d c 0 ''ListSBOMPackages''
     (Inr (sort_slice (\<lambda>a b.
         if pq_collate d (spr_ComponentRef a) \<noteq> pq_collate d (spr_ComponentRef b)
         then pq_collate d (spr_ComponentRef a) < pq_collate d (spr_ComponentRef b)
         else pq_collate d (pv_Version (spr_Package a)) < pq_collate d (pv_Version (spr_Package b)))
       (concat (map (join_package s)
         (filter (\<lambda>e. pv_Ecosystem (snd e) = eco \<and> pv_Name (snd e) = name)
           (in_order (c_order c) (t_sbom_packages s)))))))"

section \<open>IoCs\<close>

definition ioc_row_of :: "ioc \<Rightarrow> ioc_row" where
  "ioc_row_of i = \<lparr>ix_kind = ioc_Kind i, ix_severity = ioc_Severity i, ix_ecosystem = ioc_Ecosystem i,
     ix_source = ioc_Source i, ix_published_at = micro (ioc_PublishedAt i), ix_description = ioc_Description i,
     ix_body = \<lparr>ib_PackageVersion = ioc_PackageVersion i, ib_PackageRange = ioc_PackageRange i,
       ib_PublisherAnomaly = ioc_PublisherAnomaly i, ib_AnomalyBody = ioc_AnomalyBody i\<rparr>\<rparr>"

definition scanIoC :: "string \<Rightarrow> ioc_row \<Rightarrow> ioc" where
  "scanIoC k r = \<lparr>ioc_ID = k, ioc_Kind = ix_kind r, ioc_Severity = ix_severity r, ioc_Ecosystem = ix_ecosystem r,
     ioc_Source = ix_source r, ioc_PublishedAt = ix_published_at r, ioc_Description = ix_description r,
     ioc_PackageVersion = ib_PackageVersion (ix_body r), ioc_PackageRange = ib_PackageRange (ix_body r),
     ioc_PublisherAnomaly = ib_PublisherAnomaly (ix_body r), ioc_AnomalyBody = ib_AnomalyBody (ix_body r)\<rparr>"

definition pg_UpsertIoC :: "pgsql \<Rightarrow> call \<Rightarrow> ioc \<Rightarrow> tables \<Rightarrow> error option \<times> tables" where
  "pg_UpsertIoC d c i s = exec d c ''UpsertIoC'' (s\<lparr>t_iocs := put (ioc_ID i) (ioc_row_of i) (t_iocs s)\<rparr>) s"

definition select_ioc :: "pgsql \<Rightarrow> call \<Rightarrow> nat \<Rightarrow> string \<Rightarrow> tables \<Rightarrow> ioc result" where
  "select_ioc d c n k s = query d c n ''GetIoC'' (one_row (map_option (scanIoC k) (get (t_iocs s) k)))"

definition pg_GetIoC :: "pgsql \<Rightarrow> call \<Rightarrow> string \<Rightarrow> tables \<Rightarrow> ioc result" where
  "pg_GetIoC d c k s = select_ioc d c 0 k s"

definition pg_ListIoCs :: "pgsql \<Rightarrow> call \<Rightarrow> tables \<Rightarrow> ioc list result" where
  "pg_ListIoCs d c s = query d c 0 ''ListIoCs''
     (Inr (map (\<lambda>(k, r). scanIoC k r)
       (sort_slice (\<lambda>a b. ix_published_at (snd a) < ix_published_at (snd b)) (in_order (c_order c) (t_iocs s)))))"

section \<open>Incidents\<close>

definition incident_row_of :: "incident \<Rightarrow> incident_row" where
  "incident_row_of i = \<lparr>ir_ioc_id = inc_IoCID i, ir_state = inc_State i, ir_opened_at = micro (inc_OpenedAt i),
     ir_last_transitioned_at = micro (inc_LastTransitionedAt i),
     ir_affected = inc_AffectedComponentsSnapshot i\<rparr>"

definition scanIncident :: "string \<Rightarrow> incident_row \<Rightarrow> incident" where
  "scanIncident k r = \<lparr>inc_ID = k, inc_IoCID = ir_ioc_id r, inc_State = ir_state r, inc_OpenedAt = ir_opened_at r,
     inc_LastTransitionedAt = ir_last_transitioned_at r, inc_AffectedComponentsSnapshot = ir_affected r,
     inc_Remediations = []\<rparr>"

definition pg_UpsertIncident :: "pgsql \<Rightarrow> call \<Rightarrow> incident \<Rightarrow> tables \<Rightarrow> error option \<times> tables" where
  "pg_UpsertIncident d c i s =
     exec d c ''UpsertIncident'' (s\<lparr>t_incidents := put (inc_ID i) (incident_row_of i) (t_incidents s)\<rparr>) s"

definition scanRemediation :: "string \<Rightarrow> remediation_row \<Rightarrow> remediation" where
  "scanRemediation k r = \<lparr>rem_ID = k, rem_IncidentID = rr_incident_id r, rem_Kind = rr_kind r,
     rem_ExecutedAt = rr_executed_at r, rem_ActorRef = rr_actor_ref r, rem_Details = rr_details r\<rparr>"

definition listRemediationsTx :: "pgsql \<Rightarrow> call \<Rightarrow> nat \<Rightarrow> string \<Rightarrow> tables \<Rightarrow> remediation list result" where
  "listRemediationsTx d c n k s = query d c n ''listRemediations''
     (Inr (map (\<lambda>(q, r). scanRemediation q r)
       (sort_slice (\<lambda>a b. rr_seq (snd a) < rr_seq (snd b))
         (filter (\<lambda>e. rr_incident_id (snd e) = k) (in_order (c_order c) (t_remediations s))))))"

definition pg_GetIncident :: "pgsql \<Rightarrow> call \<Rightarrow> string \<Rightarrow> tables \<Rightarrow> incident result" where
  "pg_GetIncident d c k s =
     (case query d c 0 ''GetIncident'' (one_row (get (t_incidents s) k)) of
        Inl e \<Rightarrow> Inl e
      | Inr r \<Rightarrow>
          (case listRemediationsTx d c 1 k s of
             Inl e \<Rightarrow> Inl e
           | Inr rems \<Rightarrow> Inr ((scanIncident k r)\<lparr>inc_Remediations := rems\<rparr>)))"

definition pg_ListIncidents :: "pgsql \<Rightarrow> call \<Rightarrow> tables \<Rightarrow> incident list result" where
  "pg_ListIncidents d c s = query d c 0 ''ListIncidents''
     (Inr (map (\<lambda>(k, r). scanIncident k r)
       (sort_slice (\<lambda>a b. ir_opened_at (snd a) < ir_opened_at (snd b)) (in_order (c_order c) (t_incidents s)))))"

definition pg_MatchedComponentRefsByIoC :: "pgsql \<Rightarrow> call \<Rightarrow> string \<Rightarrow> tables \<Rightarrow> string list result" where
  "pg_MatchedComponentRefsByIoC d c k s = query d c 0 ''MatchedComponentRefsByIoC''
     (Inr (sort_slice (\<lambda>a b. pq_collate d a < pq_collate d b) (uniq []
       (concat (map ir_affected (filter (\<lambda>r. ir_ioc_id r = k) (values_in (c_order c) (t_incidents s))))))))"

text \<open>The \<^verbatim>\<open>WHERE\<close> clause of the filtered list; its time parameters are encoded like stored times.\<close>

definition incident_where :: "incident_filter \<Rightarrow> incident_row \<Rightarrow> bool" where
  "incident_where f r \<longleftrightarrow>
     (if_States f = [] \<or> ir_state r \<in> set (if_States f)) \<and>
     (case if_From f of None \<Rightarrow> True | Some t \<Rightarrow> ir_opened_at r \<ge> micro t) \<and>
     (case if_To f of None \<Rightarrow> True | Some t \<Rightarrow> ir_opened_at r \<le> micro t)"

type_synonym ioc_cache = "(string, ioc option) gomap"
type_synonym component_cache = "(string, component option) gomap"

text \<open>The Go side of the filter, with its caches and the number of the next statement.\<close>

definition pg_matchesEcosystemFilter :: "pgsql \<Rightarrow> call \<Rightarrow> tables \<Rightarrow> incident \<Rightarrow> incident_filter \<Rightarrow>
    ioc_cache \<Rightarrow> nat \<Rightarrow> bool \<times> ioc_cache \<times> nat" where
  "pg_matchesEcosystemFilter d c s inc f cache n =
     (if if_Ecosystems f = [] then (True, cache, n)
      else (let (cache', n') =
              (case get cache (inc_IoCID inc) of
                 Some _ \<Rightarrow> (cache, n)
               | None \<Rightarrow>
                   (put (inc_IoCID inc)
                      (case select_ioc d c n (inc_IoCID inc) s of Inl _ \<Rightarrow> None | Inr i \<Rightarrow> Some i) cache, Suc n))
            in (case get cache' (inc_IoCID inc) of
                  Some (Some i) \<Rightarrow> list_ex (\<lambda>eco. eco \<noteq> [] \<and> ioc_Ecosystem i = eco) (if_Ecosystems f)
                | _ \<Rightarrow> False, cache', n')))"

definition matchesSearchFilterPg :: "incident \<Rightarrow> incident_filter \<Rightarrow> bool" where
  "matchesSearchFilterPg inc f =
     (if if_Search f = [] then True
      else (let q = ToLower (if_Search f) in
            if Contains (ToLower (inc_ID inc)) q \<or> Contains (ToLower (inc_IoCID inc)) q then True
            else list_ex (\<lambda>ref. Contains (ToLower ref) q) (inc_AffectedComponentsSnapshot inc)))"

fun owner_loop :: "pgsql \<Rightarrow> call \<Rightarrow> tables \<Rightarrow> string \<Rightarrow> component_cache \<Rightarrow> nat \<Rightarrow> string list \<Rightarrow>
    bool \<times> component_cache \<times> nat" where
  "owner_loop d c s owner cache n [] = (False, cache, n)"
| "owner_loop d c s owner cache n (ref # refs) =
     (let (cache', n') =
        (case get cache ref of
           Some _ \<Rightarrow> (cache, n)
         | None \<Rightarrow>
             (put ref (case select_component d c n ref s of Inl _ \<Rightarrow> None | Inr x \<Rightarrow> Some x) cache, Suc n))
      in case get cache' ref of
           Some (Some x) \<Rightarrow>
             if comp_Owner x = owner then (True, cache', n') else owner_loop d c s owner cache' n' refs
         | _ \<Rightarrow> owner_loop d c s owner cache' n' refs)"

definition pg_matchesOwnerFilter :: "pgsql \<Rightarrow> call \<Rightarrow> tables \<Rightarrow> incident \<Rightarrow> incident_filter \<Rightarrow>
    component_cache \<Rightarrow> nat \<Rightarrow> bool \<times> component_cache \<times> nat" where
  "pg_matchesOwnerFilter d c s inc f cache n =
     (if if_Owner f = [] then (True, cache, n)
      else owner_loop d c s (if_Owner f) cache n (inc_AffectedComponentsSnapshot inc))"

fun filter_loop :: "pgsql \<Rightarrow> call \<Rightarrow> tables \<Rightarrow> incident_filter \<Rightarrow> nat \<Rightarrow> ioc_cache \<Rightarrow> component_cache \<Rightarrow> nat \<Rightarrow>
    incident list \<Rightarrow> incident list \<Rightarrow> incident list" where
  "filter_loop d c s f limit ic cc n out [] = out"
| "filter_loop d c s f limit ic cc n out (inc # incs) =
     (case pg_matchesEcosystemFilter d c s inc f ic n of (eco_ok, ic', n') \<Rightarrow>
        if \<not> eco_ok then filter_loop d c s f limit ic' cc n' out incs
        else if \<not> matchesSearchFilterPg inc f then filter_loop d c s f limit ic' cc n' out incs
        else (case pg_matchesOwnerFilter d c s inc f cc n' of (owner_ok, cc', n'') \<Rightarrow>
          if \<not> owner_ok then filter_loop d c s f limit ic' cc' n'' out incs
          else (let out' = out @ [inc] in
                if length out' \<ge> limit then out' else filter_loop d c s f limit ic' cc' n'' out' incs)))"

definition pg_ListIncidentsFiltered :: "pgsql \<Rightarrow> call \<Rightarrow> incident_filter \<Rightarrow> tables \<Rightarrow> incident list result" where
  "pg_ListIncidentsFiltered d c f s =
     (case query d c 0 ''ListIncidentsFiltered''
         (Inr (map (\<lambda>(k, r). scanIncident k r)
           (sort_slice (\<lambda>a b. ir_opened_at (snd a) > ir_opened_at (snd b))
             (filter (\<lambda>e. incident_where f (snd e)) (in_order (c_order c) (t_incidents s)))))) of
        Inl e \<Rightarrow> Inl e
      | Inr indexed \<Rightarrow> Inr (filter_loop d c s f (effectiveLimit (if_Limit f)) [] [] 1 [] indexed))"

section \<open>Remediations\<close>

text \<open>On a known identifier the row keeps its incident and its place.\<close>

definition pg_AppendRemediation :: "pgsql \<Rightarrow> call \<Rightarrow> string \<Rightarrow> remediation \<Rightarrow> tables \<Rightarrow> error option \<times> tables" where
  "pg_AppendRemediation d c k r s =
     (case wrapPgErr ''AppendRemediation exists'' (fault d c 0) of Some e \<Rightarrow> (Some e, s) | None \<Rightarrow>
      if get (t_incidents s) k = None then (Some ErrNotFound, s)
      else (case wrapPgErr ''AppendRemediation'' (fault d c 1) of Some e \<Rightarrow> (Some e, s) | None \<Rightarrow>
        (let n = seq_remediations s + 1;
             row = (case get (t_remediations s) (rem_ID r) of
                      None \<Rightarrow> \<lparr>rr_incident_id = k, rr_kind = rem_Kind r, rr_executed_at = micro (rem_ExecutedAt r),
                        rr_actor_ref = rem_ActorRef r, rr_details = rem_Details r, rr_seq = n\<rparr>
                    | Some old \<Rightarrow> old\<lparr>rr_kind := rem_Kind r, rr_executed_at := micro (rem_ExecutedAt r),
                        rr_actor_ref := rem_ActorRef r, rr_details := rem_Details r\<rparr>)
         in (None, s\<lparr>t_remediations := put (rem_ID r) row (t_remediations s), seq_remediations := n\<rparr>))))"

definition pg_ListRemediations :: "pgsql \<Rightarrow> call \<Rightarrow> string \<Rightarrow> tables \<Rightarrow> remediation list result" where
  "pg_ListRemediations d c k s =
     (case query d c 0 ''ListRemediations exists'' (Inr (get (t_incidents s) k \<noteq> None)) of
        Inl e \<Rightarrow> Inl e
      | Inr found \<Rightarrow> if \<not> found then Inl ErrNotFound else listRemediationsTx d c 1 k s)"

section \<open>Publishers\<close>

definition pg_UpsertPublisher :: "pgsql \<Rightarrow> call \<Rightarrow> publisher \<Rightarrow> tables \<Rightarrow> error option \<times> tables" where
  "pg_UpsertPublisher d c p s = exec d c ''UpsertPublisher''
     (s\<lparr>t_publishers := put (pub_Ecosystem p, pub_Name p) (micro (pub_FirstSeen p), micro (pub_LastSeen p))
         (t_publishers s)\<rparr>) s"

definition scanPublisher :: "string \<times> string \<Rightarrow> time \<times> time \<Rightarrow> publisher" where
  "scanPublisher k r = \<lparr>pub_Ecosystem = fst k, pub_Name = snd k, pub_FirstSeen = fst r, pub_LastSeen = snd r\<rparr>"

definition pg_GetPublisher :: "pgsql \<Rightarrow> call \<Rightarrow> string \<Rightarrow> string \<Rightarrow> tables \<Rightarrow> publisher result" where
  "pg_GetPublisher d c eco name s = query d c 0 ''GetPublisher''
     (one_row (map_option (scanPublisher (eco, name)) (get (t_publishers s) (eco, name))))"

definition profile_row_of :: "publisher_profile \<Rightarrow> profile_row" where
  "profile_row_of pf =
     \<lparr>pr_package_count = prof_PackageCount pf, pr_publish_count = prof_PublishCount pf,
      pr_last_30day_publishes = prof_Last30DayPublishes pf, pr_uses_oidc = prof_UsesOIDC pf,
      pr_has_git_tags = prof_HasGitTags pf, pr_maintainer_emails = prof_MaintainerEmails pf,
      pr_last_email_change = map_option micro (prof_LastEmailChange pf)\<rparr>"

text \<open>Two statements without a transaction: the publisher stays when the profile fails.\<close>

definition pg_UpsertPublisherProfile :: "pgsql \<Rightarrow> call \<Rightarrow> publisher_profile \<Rightarrow> tables \<Rightarrow> error option \<times> tables" where
  "pg_UpsertPublisherProfile d c pf s =
     (case pg_UpsertPublisher d c (prof_Publisher pf) s of
        (Some e, s') \<Rightarrow> (Some e, s')
      | (None, s') \<Rightarrow>
          (case wrapPgErr ''UpsertPublisherProfile'' (fault d c 1) of
             Some e \<Rightarrow> (Some e, s')
           | None \<Rightarrow>
               (None, s'\<lparr>t_publisher_profiles := put (pub_Ecosystem (prof_Publisher pf), pub_Name (prof_Publisher pf))
                  (profile_row_of pf) (t_publisher_profiles s')\<rparr>)))"

definition pg_GetPublisherProfile :: "pgsql \<Rightarrow> call \<Rightarrow> string \<Rightarrow> string \<Rightarrow> tables \<Rightarrow> publisher_profile result" where
  "pg_GetPublisherProfile d c eco name s = query d c 0 ''GetPublisherProfile''
     (case (get (t_publisher_profiles s) (eco, name), get (t_publishers s) (eco, name)) of
        (Some r, Some p) \<Rightarrow> Inr \<lparr>prof_Publisher = scanPublisher (eco, name) p, prof_PackageCount = pr_package_count r,
          prof_PublishCount = pr_publish_count r, prof_Last30DayPublishes = pr_last_30day_publishes r,
          prof_UsesOIDC = pr_uses_oidc r, prof_HasGitTags = pr_has_git_tags r,
          prof_MaintainerEmails = pr_maintainer_emails r, prof_LastEmailChange = pr_last_email_change r\<rparr>
      | _ \<Rightarrow> Inl ErrNotFound)"

definition pg_ListPublishers :: "pgsql \<Rightarrow> call \<Rightarrow> string \<Rightarrow> tables \<Rightarrow> publisher list result" where
  "pg_ListPublishers d c eco s = query d c 0 ''ListPublishers''
     (Inr (sort_slice (\<lambda>a b. pq_collate d (pub_Name a) < pq_collate d (pub_Name b))
       (map (\<lambda>(k, r). scanPublisher k r)
         (filter (\<lambda>e. fst (fst e) = eco) (in_order (c_order c) (t_publishers s))))))"

section \<open>Snapshots\<close>

definition nullableString :: "string \<Rightarrow> string option" where
  "nullableString s = (if s = [] then None else Some s)"

definition or_empty :: "string option \<Rightarrow> string" where
  "or_empty x = (case x of None \<Rightarrow> [] | Some s \<Rightarrow> s)"

definition history_row_of :: "time \<Rightarrow> string \<Rightarrow> publisher_snapshot \<Rightarrow> history_row" where
  "history_row_of at raw snap =
     \<lparr>hr_package_ref = snap_PackageRef snap, hr_snapshot_at = micro at, hr_maintainers = snap_Maintainers snap,
      hr_latest_version = nullableString (snap_LatestVersion snap),
      hr_latest_version_published_at = map_option micro (snap_LatestVersionPublishedAt snap),
      hr_publish_method = nullableString (snap_PublishMethod snap),
      hr_source_repo_url = snap_SourceRepoURL snap, hr_raw_data = raw\<rparr>"

definition pg_SavePublisherSnapshot :: "pgsql \<Rightarrow> call \<Rightarrow> publisher_snapshot \<Rightarrow> tables \<Rightarrow> error option \<times> tables" where
  "pg_SavePublisherSnapshot d c snap s =
     (let rawData = (if snap_RawData snap = [] then ''null'' else snap_RawData snap);
          snapAt = (if IsZero (snap_SnapshotAt snap) then c_now c else snap_SnapshotAt snap);
          n = seq_history s + 1
      in case pq_jsonb d rawData of
           None \<Rightarrow> (Some (ErrPostgres ''SavePublisherSnapshot'' ''invalid input syntax for type json''), s)
         | Some stored \<Rightarrow>
             exec d c ''SavePublisherSnapshot''
               (s\<lparr>seq_history := n,
                 t_publisher_history := put n (history_row_of snapAt stored snap) (t_publisher_history s)\<rparr>) s)"

definition scanSnapshot :: "int \<Rightarrow> history_row \<Rightarrow> publisher_snapshot" where
  "scanSnapshot k r = \<lparr>snap_ID = k, snap_PackageRef = hr_package_ref r, snap_SnapshotAt = hr_snapshot_at r,
     snap_Maintainers = hr_maintainers r, snap_LatestVersion = or_empty (hr_latest_version r),
     snap_LatestVersionPublishedAt = hr_latest_version_published_at r,
     snap_PublishMethod = or_empty (hr_publish_method r), snap_SourceRepoURL = hr_source_repo_url r,
     snap_RawData = (if hr_raw_data r = ''null'' then [] else hr_raw_data r)\<rparr>"

definition pg_GetPublisherHistory :: "pgsql \<Rightarrow> call \<Rightarrow> string \<Rightarrow> int \<Rightarrow> tables \<Rightarrow> publisher_snapshot list result" where
  "pg_GetPublisherHistory d c ref limit s = query d c 0 ''GetPublisherHistory''
     (Inr (take (effectiveLimit limit) (map (\<lambda>(k, r). scanSnapshot k r)
       (sort_slice (\<lambda>a b. hr_snapshot_at (snd a) > hr_snapshot_at (snd b))
         (filter (\<lambda>e. hr_package_ref (snd e) = ref) (in_order (c_order c) (t_publisher_history s)))))))"

definition newest_at :: "string \<Rightarrow> history_row list \<Rightarrow> time" where
  "newest_at ref rows = Max (set (map hr_snapshot_at (filter (\<lambda>r. hr_package_ref r = ref) rows)))"

definition pg_ListPackagesNeedingRefresh :: "pgsql \<Rightarrow> call \<Rightarrow> time \<Rightarrow> int \<Rightarrow> tables \<Rightarrow> string list result" where
  "pg_ListPackagesNeedingRefresh d c olderThan limit s =
     (let rows = values_in (c_order c) (t_publisher_history s);
          groups = map (\<lambda>ref. (ref, newest_at ref rows)) (uniq [] (map hr_package_ref rows))
      in query d c 0 ''ListPackagesNeedingRefresh''
           (Inr (take (effectiveLimit limit) (map fst
             (sort_slice (\<lambda>a b. snd a < snd b) (filter (\<lambda>g. snd g < micro olderThan) groups))))))"

section \<open>Anomalies\<close>

definition anomaly_row_of :: "time \<Rightarrow> anomaly \<Rightarrow> anomaly_row" where
  "anomaly_row_of at a = \<lparr>ar_kind = anom_Kind a, ar_package_ref = anom_PackageRef a, ar_detected_at = micro at,
     ar_confidence = anom_Confidence a, ar_explanation = anom_Explanation a, ar_evidence = anom_Evidence a\<rparr>"

definition unique_key :: "anomaly_row \<Rightarrow> string \<times> string \<times> time" where
  "unique_key r = (ar_kind r, ar_package_ref r, ar_detected_at r)"

definition pg_SaveAnomaly :: "pgsql \<Rightarrow> call \<Rightarrow> anomaly \<Rightarrow> tables \<Rightarrow> int result \<times> tables" where
  "pg_SaveAnomaly d c a s =
     (let at = (if IsZero (anom_DetectedAt a) then c_now c else anom_DetectedAt a);
          row = anomaly_row_of at a;
          n = seq_anomalies s + 1
      in case wrapPgErr ''SaveAnomaly'' (fault d c 0) of
           Some e \<Rightarrow> (Inl e, s)
         | None \<Rightarrow>
             (case find (\<lambda>e. unique_key (snd e) = unique_key row) (t_anomalies s) of
                Some e \<Rightarrow> (Inr (fst e), s\<lparr>seq_anomalies := n\<rparr>)
              | None \<Rightarrow> (Inr n, s\<lparr>seq_anomalies := n, t_anomalies := put n row (t_anomalies s)\<rparr>)))"

definition scanAnomaly :: "int \<Rightarrow> anomaly_row \<Rightarrow> anomaly" where
  "scanAnomaly k r = \<lparr>anom_ID = k, anom_Kind = ar_kind r, anom_PackageRef = ar_package_ref r,
     anom_DetectedAt = ar_detected_at r, anom_Confidence = ar_confidence r, anom_Explanation = ar_explanation r,
     anom_Evidence = ar_evidence r\<rparr>"

definition pg_GetAnomaly :: "pgsql \<Rightarrow> call \<Rightarrow> int \<Rightarrow> tables \<Rightarrow> anomaly result" where
  "pg_GetAnomaly d c k s = query d c 0 ''GetAnomaly'' (one_row (map_option (scanAnomaly k) (get (t_anomalies s) k)))"

definition anomaly_where :: "anomaly_filter \<Rightarrow> anomaly_row \<Rightarrow> bool" where
  "anomaly_where f r \<longleftrightarrow>
     (af_PackageRef f = [] \<or> ar_package_ref r = af_PackageRef f) \<and>
     (af_Kind f = [] \<or> ar_kind r = af_Kind f) \<and>
     (case af_From f of None \<Rightarrow> True | Some t \<Rightarrow> ar_detected_at r \<ge> micro t) \<and>
     (case af_To f of None \<Rightarrow> True | Some t \<Rightarrow> ar_detected_at r \<le> micro t)"

definition pg_ListAnomalies :: "pgsql \<Rightarrow> call \<Rightarrow> anomaly_filter \<Rightarrow> tables \<Rightarrow> anomaly list result" where
  "pg_ListAnomalies d c f s = query d c 0 ''ListAnomalies''
     (Inr (take (effectiveLimit (af_Limit f)) (map (\<lambda>(k, r). scanAnomaly k r)
       (sort_slice (\<lambda>a b. ar_detected_at (snd a) > ar_detected_at (snd b))
         (filter (\<lambda>e. anomaly_where f (snd e)) (in_order (c_order c) (t_anomalies s)))))))"

definition postgres :: "pgsql \<Rightarrow> tables storage" where
  "postgres d = \<lparr>UpsertComponent = pg_UpsertComponent d, GetComponent = pg_GetComponent d,
     ListComponents = pg_ListComponents d, UpsertSBOM = pg_UpsertSBOM d, GetSBOM = pg_GetSBOM d,
     ListSBOMsByComponent = pg_ListSBOMsByComponent d, ListSBOMPackages = pg_ListSBOMPackages d,
     UpsertIoC = pg_UpsertIoC d, GetIoC = pg_GetIoC d, ListIoCs = pg_ListIoCs d,
     UpsertIncident = pg_UpsertIncident d, GetIncident = pg_GetIncident d,
     ListIncidents = pg_ListIncidents d, ListIncidentsFiltered = pg_ListIncidentsFiltered d,
     MatchedComponentRefsByIoC = pg_MatchedComponentRefsByIoC d,
     AppendRemediation = pg_AppendRemediation d, ListRemediations = pg_ListRemediations d,
     UpsertPublisher = pg_UpsertPublisher d, GetPublisher = pg_GetPublisher d,
     UpsertPublisherProfile = pg_UpsertPublisherProfile d,
     GetPublisherProfile = pg_GetPublisherProfile d, ListPublishers = pg_ListPublishers d,
     SavePublisherSnapshot = pg_SavePublisherSnapshot d,
     GetPublisherHistory = pg_GetPublisherHistory d,
     ListPackagesNeedingRefresh = pg_ListPackagesNeedingRefresh d, SaveAnomaly = pg_SaveAnomaly d,
     GetAnomaly = pg_GetAnomaly d, ListAnomalies = pg_ListAnomalies d\<rparr>"

section \<open>Integrity of the tables\<close>

text \<open>
  What the schema declares: primary keys, the foreign keys of packages, remediations and profiles, the
  uniqueness of anomalies, and identifiers below the value of their sequence.
\<close>

definition keys_unique :: "tables \<Rightarrow> bool" where
  "keys_unique s \<longleftrightarrow> gmap_ok (t_components s) \<and> gmap_ok (t_sboms s) \<and> gmap_ok (t_sbom_packages s) \<and>
     gmap_ok (t_iocs s) \<and> gmap_ok (t_incidents s) \<and> gmap_ok (t_remediations s) \<and> gmap_ok (t_publishers s) \<and>
     gmap_ok (t_publisher_profiles s) \<and> gmap_ok (t_publisher_history s) \<and> gmap_ok (t_anomalies s) \<and>
     (\<forall>k x. get (t_components s) k = Some x \<longrightarrow> comp_Ref x = k)"

definition packages_have_sbom :: "tables \<Rightarrow> bool" where
  "packages_have_sbom s \<longleftrightarrow> (\<forall>k i p. get (t_sbom_packages s) (k, i) = Some p \<longrightarrow> get (t_sboms s) k \<noteq> None)"

definition remediations_have_incident :: "tables \<Rightarrow> bool" where
  "remediations_have_incident s \<longleftrightarrow> (\<forall>k r. get (t_remediations s) k = Some r \<longrightarrow>
     get (t_incidents s) (rr_incident_id r) \<noteq> None)"

definition unique_on :: "('r \<Rightarrow> 'u) \<Rightarrow> ('k, 'r) gomap \<Rightarrow> bool" where
  "unique_on f m \<longleftrightarrow> (\<forall>k k' r r'. get m k = Some r \<and> get m k' = Some r' \<and> f r = f r' \<longrightarrow> k = k')"

definition log_ordered :: "tables \<Rightarrow> bool" where
  "log_ordered s \<longleftrightarrow> unique_on rr_seq (t_remediations s) \<and>
     (\<forall>k r. get (t_remediations s) k = Some r \<longrightarrow> rr_seq r \<le> seq_remediations s)"

definition profiles_have_publisher :: "tables \<Rightarrow> bool" where
  "profiles_have_publisher s \<longleftrightarrow> (\<forall>k r. get (t_publisher_profiles s) k = Some r \<longrightarrow> get (t_publishers s) k \<noteq> None)"

definition anomalies_unique :: "tables \<Rightarrow> bool" where
  "anomalies_unique s \<longleftrightarrow> unique_on unique_key (t_anomalies s) \<and>
     (\<forall>k r. get (t_anomalies s) k = Some r \<longrightarrow> k \<le> seq_anomalies s)"

definition pg_ok :: "tables \<Rightarrow> bool" where
  "pg_ok s \<longleftrightarrow> keys_unique s \<and> packages_have_sbom s \<and> remediations_have_incident s \<and> log_ordered s \<and>
     profiles_have_publisher s \<and> anomalies_unique s"

definition table_order :: order where
  "table_order = (\<lambda>n. [0..<n])"

definition pg_abs :: "tables \<Rightarrow> db" where
  "pg_abs s = \<lparr>db_components = get (t_components s),
     db_sboms = (\<lambda>k. map_option (\<lambda>r. scanSBOM k r (package_rows table_order k s)) (get (t_sboms s) k)),
     db_iocs = (\<lambda>k. map_option (scanIoC k) (get (t_iocs s) k)),
     db_incidents = (\<lambda>k. map_option (scanIncident k) (get (t_incidents s) k))\<rparr>"

lemmas integrity_defs = keys_unique_def packages_have_sbom_def remediations_have_incident_def log_ordered_def
  profiles_have_publisher_def anomalies_unique_def

lemma unique_on_Nil [simp]: "unique_on f []"
  by (simp add: unique_on_def)

lemma unique_onD: "unique_on f m \<Longrightarrow> get m k = Some r \<Longrightarrow> get m k' = Some r' \<Longrightarrow> f r = f r' \<Longrightarrow> k = k'"
  unfolding unique_on_def by blast

lemma unique_on_put:
  assumes "unique_on f m" and "\<And>k' q. get m k' = Some q \<Longrightarrow> k' \<noteq> k \<Longrightarrow> f q \<noteq> f v"
  shows "unique_on f (put k v m)"
  unfolding unique_on_def
proof (intro allI impI, elim conjE)
  fix k1 k2 r r'
  assume a: "get (put k v m) k1 = Some r" "get (put k v m) k2 = Some r'" "f r = f r'"
  show "k1 = k2"
    using a assms(2) [of k1 r] assms(2) [of k2 r'] unique_onD [OF assms(1), of k1 r k2 r'] by (auto split: if_splits)
qed

lemma fault_quiet [simp]: "c_err c = None \<Longrightarrow> fault d c n = None"
  by (simp add: fault_def)

lemma wrapPgErr_simps [simp]: "wrapPgErr op None = None" "wrapPgErr op (Some m) = Some (ErrPostgres op m)"
  by (simp_all add: wrapPgErr_def)

lemma exec_quiet [simp]: "c_err c = None \<Longrightarrow> exec d c op new old = (None, new)"
  by (simp add: exec_def)

lemma query_quiet [simp]: "c_err c = None \<Longrightarrow> query d c n op rows = rows"
  by (simp add: query_def)

lemma exec_cases: "snd (exec d c op new old) = new \<or> snd (exec d c op new old) = old"
  by (simp add: exec_def split: option.split)

lemma put_new: "get m k = None \<Longrightarrow> put k v m = m @ [(k, v)]"
proof (induction m)
  case (Cons e m)
  then show ?case by (cases e) (auto simp: get_def put_def split: if_splits)
qed (simp add: put_def)

section \<open>The package table\<close>

interpretation by_position: comparator "\<lambda>a b. snd (fst a) < snd (fst b)"
    "\<lambda>e :: (string \<times> nat) \<times> package_version. snd (fst e)"
  by unfold_locales simp

interpretation by_seq: comparator "\<lambda>a b. rr_seq (snd a) < rr_seq (snd b)"
    "\<lambda>e :: string \<times> remediation_row. rr_seq (snd e)"
  by unfold_locales simp

definition numbered :: "string \<Rightarrow> nat \<Rightarrow> package_version list \<Rightarrow> ((string \<times> nat) \<times> package_version) list" where
  "numbered k i ps = map (\<lambda>(j, p). ((k, j), p)) (enumerate i ps)"

lemma numbered_simps [simp]: "numbered k i [] = []" "numbered k i (p # ps) = ((k, i), p) # numbered k (Suc i) ps"
  by (simp_all add: numbered_def)

lemma insert_packages_quiet:
  assumes "c_err c = None"
  shows "(\<And>j. i \<le> j \<Longrightarrow> get t (k, j) = None) \<Longrightarrow> insert_packages d c k i ps t = Inr (t @ numbered k i ps)"
proof (induction ps arbitrary: i t)
  case (Cons p ps)
  have "get (put (k, i) p t) (k, j) = None" if "Suc i \<le> j" for j
    using Cons.prems [of j] that by simp
  from Cons.IH [OF this] show ?case
    using assms Cons.prems [of i] by (simp add: put_new)
qed simp

lemma numbered_facts:
  "map snd (numbered k i ps) = ps" "sorted (map (\<lambda>e. snd (fst e)) (numbered k i ps))"
  "distinct (map (\<lambda>e. snd (fst e)) (numbered k i ps))"
  "filter (\<lambda>e. fst (fst e) = k') (numbered k i ps) = (if k' = k then numbered k i ps else [])"
  by (induction ps arbitrary: i) (auto simp: numbered_def in_set_enumerate_eq sorted_wrt_map less_imp_le)

lemma distinct_positions:
  assumes "gmap_ok t"
  shows "distinct (map (\<lambda>e. snd (fst e)) (filter (\<lambda>e. fst (fst e) = k) t))"
proof -
  have "distinct (map fst (filter (\<lambda>e. fst (fst e) = k) t))"
    using assms by (simp add: gmap_ok_def distinct_map_filter)
  moreover have "inj_on snd (fst ` set (filter (\<lambda>e. fst (fst e) = k) t))"
    by (auto simp: inj_on_def)
  ultimately have "distinct (map snd (map fst (filter (\<lambda>e. fst (fst e) = k) t)))"
    by (simp only: distinct_map) simp
  then show ?thesis by (simp add: comp_def)
qed

lemma package_rows_order:
  assumes "is_order \<rho>" and "gmap_ok (t_sbom_packages s)"
  shows "package_rows \<rho> k s = package_rows table_order k s"
proof -
  let ?f = "filter (\<lambda>e. fst (fst e) = k)"
  let ?sort = "sort_slice (\<lambda>a b :: (string \<times> nat) \<times> package_version. snd (fst a) < snd (fst b))"
  have "?sort (?f (in_order \<rho> (t_sbom_packages s))) = ?sort (?f (t_sbom_packages s))"
    by (rule by_position.slice_unique [OF _ by_position.sorted_slice distinct_positions [OF assms(2)]])
      (simp add: mset_in_order assms(1))
  then show ?thesis by (simp add: package_rows_def table_order_def)
qed

lemma package_rows_after:
  assumes "t_sbom_packages s' = filter (\<lambda>e. fst (fst e) \<noteq> q) (t_sbom_packages s) @ numbered q 0 ps"
  shows "package_rows table_order k s' = (if k = q then ps else package_rows table_order k s)"
proof (cases "k = q")
  case True
  have "numbered q 0 ps = sort_slice (\<lambda>a b. snd (fst a) < snd (fst b)) (numbered q 0 ps)"
    by (rule by_position.slice_unique [OF refl numbered_facts(2,3)])
  moreover have "filter (\<lambda>e. fst (fst e) = q) (filter (\<lambda>e. fst (fst e) \<noteq> q) (t_sbom_packages s)) = []"
    by simp
  ultimately show ?thesis
    using True assms numbered_facts(1) [of q 0 ps]
    by (simp add: package_rows_def table_order_def numbered_facts(4) del: filter_filter)
next
  case False
  have "filter (\<lambda>e. fst (fst e) = k) (filter (\<lambda>e. fst (fst e) \<noteq> q) (t_sbom_packages s)) =
      filter (\<lambda>e. fst (fst e) = k) (t_sbom_packages s)"
    using False by (auto intro: filter_cong)
  then show ?thesis
    using False assms by (simp add: package_rows_def table_order_def numbered_facts(4) del: filter_filter)
qed

section \<open>The backend meets the contract\<close>

lemma pg_okD:
  "pg_ok s \<Longrightarrow> gmap_ok (t_components s)" "pg_ok s \<Longrightarrow> gmap_ok (t_sboms s)"
  "pg_ok s \<Longrightarrow> gmap_ok (t_sbom_packages s)" "pg_ok s \<Longrightarrow> gmap_ok (t_iocs s)"
  "pg_ok s \<Longrightarrow> gmap_ok (t_incidents s)" "pg_ok s \<Longrightarrow> gmap_ok (t_remediations s)"
  "pg_ok s \<Longrightarrow> packages_have_sbom s"
  by (simp_all add: pg_ok_def keys_unique_def)

lemma scan_row_of [simp]:
  "scanSBOM (sbom_ID b) (sbom_row_of b) (sbom_Packages b) = stored_sbom micro b"
  "scanIoC (ioc_ID i) (ioc_row_of i) = stored_ioc micro i"
  "scanIncident (inc_ID n) (incident_row_of n) = stored_incident micro n"
  by (simp_all add: scanSBOM_def sbom_row_of_def stored_sbom_def scanIoC_def ioc_row_of_def stored_ioc_def
      scanIncident_def incident_row_of_def stored_incident_def bare_def)

lemma scan_simps [simp]:
  "sbom_ID (scanSBOM k r ps) = k" "sbom_ComponentRef (scanSBOM k r ps) = sr_component_ref r"
  "sbom_Ecosystem (scanSBOM k r ps) = sr_ecosystem r" "sbom_Packages (scanSBOM k r ps) = ps"
  "ioc_ID (scanIoC k x) = k" "inc_ID (scanIncident k y) = k" "inc_IoCID (scanIncident k y) = ir_ioc_id y"
  "inc_AffectedComponentsSnapshot (scanIncident k y) = ir_affected y"
  "bare (scanIncident k y) = scanIncident k y"
  by (simp_all add: scanSBOM_def scanIoC_def scanIncident_def bare_def)

lemma pg_UpsertSBOM_quiet:
  assumes "c_err c = None"
  shows "pg_UpsertSBOM d c b s = (None, s\<lparr>t_sboms := put (sbom_ID b) (sbom_row_of b) (t_sboms s),
    t_sbom_packages := filter (\<lambda>e. fst (fst e) \<noteq> sbom_ID b) (t_sbom_packages s) @ numbered (sbom_ID b) 0 (sbom_Packages b)\<rparr>)"
proof -
  have "get (filter (\<lambda>e. fst (fst e) \<noteq> sbom_ID b) (t_sbom_packages s)) (sbom_ID b, j) = None" for j
    by (auto simp: get_None)
  from insert_packages_quiet [OF assms this] show ?thesis
    using assms by (simp add: pg_UpsertSBOM_def)
qed

lemma gmap_ok_packages:
  assumes "gmap_ok t"
  shows "gmap_ok (filter (\<lambda>e. fst (fst e) \<noteq> q) t @ numbered q i ps)"
proof -
  have "inj_on (\<lambda>j. (q, j)) A" for A :: "nat set" by (simp add: inj_on_def)
  moreover have "map fst (numbered q i ps) = map (\<lambda>j. (q, j)) [i..<i + length ps]"
    by (simp add: numbered_def comp_def case_prod_beta flip: map_fst_enumerate)
  ultimately show ?thesis
    using assms by (auto simp: gmap_ok_def distinct_map distinct_map_filter intro: inj_on_subset)
qed

text \<open>Under failures the transaction either happens or does not.\<close>

lemma insert_packages_Inr:
  "(\<And>j. i \<le> j \<Longrightarrow> get t (k, j) = None) \<Longrightarrow> insert_packages d c k i ps t = Inr t' \<Longrightarrow> t' = t @ numbered k i ps"
proof (induction ps arbitrary: i t)
  case (Cons p ps)
  have "get (put (k, i) p t) (k, j) = None" if "Suc i \<le> j" for j
    using Cons.prems(1) [of j] that by simp
  with Cons.IH [of "Suc i" "put (k, i) p t"] Cons.prems show ?case
    by (auto simp: put_new split: option.splits if_splits)
qed simp

definition with_sbom :: "sbom \<Rightarrow> tables \<Rightarrow> tables" where
  "with_sbom b s = s\<lparr>t_sboms := put (sbom_ID b) (sbom_row_of b) (t_sboms s),
     t_sbom_packages := filter (\<lambda>e. fst (fst e) \<noteq> sbom_ID b) (t_sbom_packages s) @ numbered (sbom_ID b) 0 (sbom_Packages b)\<rparr>"

lemma pg_UpsertSBOM_cases: "snd (pg_UpsertSBOM d c b s) = s \<or> snd (pg_UpsertSBOM d c b s) = with_sbom b s"
proof -
  let ?t = "filter (\<lambda>e. fst (fst e) \<noteq> sbom_ID b) (t_sbom_packages s)"
  have "get ?t (sbom_ID b, j) = None" for j by (auto simp: get_None)
  then have "t' = ?t @ numbered (sbom_ID b) 0 (sbom_Packages b)"
    if "insert_packages d c (sbom_ID b) 0 (sbom_Packages b) ?t = Inr t'" for t'
    using insert_packages_Inr that by blast
  then show ?thesis
    by (auto simp: pg_UpsertSBOM_def with_sbom_def split: option.split sum.split)
qed

lemma pg_ok_with_sbom:
  assumes "pg_ok s"
  shows "pg_ok (with_sbom b s)"
proof -
  let ?t = "filter (\<lambda>e. fst (fst e) \<noteq> sbom_ID b) (t_sbom_packages s) @ numbered (sbom_ID b) 0 (sbom_Packages b)"
  have ok: "gmap_ok ?t" using assms by (simp add: gmap_ok_packages pg_okD)
  have "k = sbom_ID b \<or> get (t_sboms s) k \<noteq> None" if "get ?t (k, i) = Some p" for k i p
  proof -
    have "((k, i), p) \<in> set ?t" using that ok by (simp only: get_in_set)
    then have "k = sbom_ID b \<or> get (t_sbom_packages s) (k, i) = Some p"
      using assms by (auto simp: numbered_def get_in_set pg_okD)
    then show ?thesis using pg_okD(7) [OF assms] by (auto simp: packages_have_sbom_def)
  qed
  then show ?thesis
    using assms ok by (auto simp: with_sbom_def pg_ok_def integrity_defs)
qed

lemma pg_ok_upsert_sbom: "pg_ok s \<Longrightarrow> pg_ok (snd (pg_UpsertSBOM d c b s))"
  using pg_UpsertSBOM_cases [of d c b s] pg_ok_with_sbom [of s b] by auto

lemma pg_abs_upsert_sbom:
  assumes "pg_ok s" and "c_err c = None"
  shows "pg_abs (snd (pg_UpsertSBOM d c b s)) =
    (pg_abs s)\<lparr>db_sboms := (db_sboms (pg_abs s))(sbom_ID b \<mapsto> stored_sbom micro b)\<rparr>"
proof -
  let ?s = "snd (pg_UpsertSBOM d c b s)"
  have "t_sbom_packages ?s = filter (\<lambda>e. fst (fst e) \<noteq> sbom_ID b) (t_sbom_packages s) @
      numbered (sbom_ID b) 0 (sbom_Packages b)"
    using assms(2) by (simp add: pg_UpsertSBOM_quiet)
  note rows = package_rows_after [OF this]
  have "t_sboms ?s = put (sbom_ID b) (sbom_row_of b) (t_sboms s)" "t_components ?s = t_components s"
      "t_iocs ?s = t_iocs s" "t_incidents ?s = t_incidents s"
    using assms(2) by (simp_all add: pg_UpsertSBOM_quiet)
  then show ?thesis by (simp add: pg_abs_def fun_eq_iff rows)
qed

lemma package_rows_frame: "t_sbom_packages s' = t_sbom_packages s \<Longrightarrow> package_rows \<rho> k s' = package_rows \<rho> k s"
  by (simp add: package_rows_def)

lemma pg_AppendRemediation_cases:
  "snd (pg_AppendRemediation d c k r s) = s \<or> get (t_incidents s) k \<noteq> None \<and>
   (\<exists>row. snd (pg_AppendRemediation d c k r s) = s\<lparr>t_remediations := put (rem_ID r) row (t_remediations s),
      seq_remediations := seq_remediations s + 1\<rparr> \<and>
    (case get (t_remediations s) (rem_ID r) of
       None \<Rightarrow> rr_incident_id row = k \<and> rr_seq row = seq_remediations s + 1
     | Some old \<Rightarrow> rr_incident_id row = rr_incident_id old \<and> rr_seq row = rr_seq old))"
  by (auto simp: pg_AppendRemediation_def Let_def split: option.split)

lemma pg_ok_append:
  assumes "pg_ok s"
  shows "pg_ok (snd (pg_AppendRemediation d c k r s))"
  using pg_AppendRemediation_cases [of d c k r s]
proof (elim disjE conjE exE)
  fix row
  let ?s = "s\<lparr>t_remediations := put (rem_ID r) row (t_remediations s), seq_remediations := seq_remediations s + 1\<rparr>"
  assume False: "get (t_incidents s) k \<noteq> None" and s': "snd (pg_AppendRemediation d c k r s) = ?s"
    and row: "case get (t_remediations s) (rem_ID r) of
       None \<Rightarrow> rr_incident_id row = k \<and> rr_seq row = seq_remediations s + 1
     | Some old \<Rightarrow> rr_incident_id row = rr_incident_id old \<and> rr_seq row = rr_seq old"
  have log: "log_ordered s" "remediations_have_incident s" "unique_on rr_seq (t_remediations s)"
    using assms by (simp_all add: pg_ok_def log_ordered_def)
  have low: "rr_seq q \<le> seq_remediations s" if "get (t_remediations s) k' = Some q" for k' q
    using log(1) that by (simp add: log_ordered_def)
  have top: "rr_seq row \<le> seq_remediations s + 1"
    using row low [of "rem_ID r"] by (cases "get (t_remediations s) (rem_ID r)") (simp, fastforce)
  have new: "rr_seq row \<noteq> rr_seq q" if "get (t_remediations s) k' = Some q" "k' \<noteq> rem_ID r" for k' q
  proof (cases "get (t_remediations s) (rem_ID r)")
    case None
    then show ?thesis using row low [OF that(1)] by simp
  next
    case (Some old)
    then show ?thesis using row unique_onD [OF log(3) that(1) Some] that(2) by auto
  qed
  have "unique_on rr_seq (put (rem_ID r) row (t_remediations s))"
    using new by (intro unique_on_put [OF log(3)]) metis
  moreover have "rr_seq q \<le> seq_remediations s + 1" if "get (put (rem_ID r) row (t_remediations s)) k' = Some q" for k' q
    using that top low [of k' q] by (auto split: if_splits)
  ultimately have "log_ordered ?s" by (simp add: log_ordered_def)
  moreover have "remediations_have_incident ?s"
    using row log(2) False by (auto simp: remediations_have_incident_def split: option.splits)
  ultimately show ?thesis
    using assms s' by (simp add: pg_ok_def keys_unique_def packages_have_sbom_def
        profiles_have_publisher_def anomalies_unique_def)
qed (use assms in simp)

lemma pg_abs_append: "pg_abs (snd (pg_AppendRemediation d c k r s)) = pg_abs s"
  by (simp add: pg_AppendRemediation_def pg_abs_def package_rows_def Let_def split: option.split)

lemma postgres_simps [simp]:
  "UpsertComponent (postgres d) = pg_UpsertComponent d" "GetComponent (postgres d) = pg_GetComponent d"
  "ListComponents (postgres d) = pg_ListComponents d" "UpsertSBOM (postgres d) = pg_UpsertSBOM d"
  "GetSBOM (postgres d) = pg_GetSBOM d" "ListSBOMsByComponent (postgres d) = pg_ListSBOMsByComponent d"
  "ListSBOMPackages (postgres d) = pg_ListSBOMPackages d" "UpsertIoC (postgres d) = pg_UpsertIoC d"
  "GetIoC (postgres d) = pg_GetIoC d" "ListIoCs (postgres d) = pg_ListIoCs d"
  "UpsertIncident (postgres d) = pg_UpsertIncident d" "GetIncident (postgres d) = pg_GetIncident d"
  "ListIncidents (postgres d) = pg_ListIncidents d"
  "MatchedComponentRefsByIoC (postgres d) = pg_MatchedComponentRefsByIoC d"
  "AppendRemediation (postgres d) = pg_AppendRemediation d"
  by (simp_all add: postgres_def)

lemma pg_abs_simps [simp]:
  "db_components (pg_abs s) = get (t_components s)"
  "db_sboms (pg_abs s) k = map_option (\<lambda>r. scanSBOM k r (package_rows table_order k s)) (get (t_sboms s) k)"
  "db_iocs (pg_abs s) k = map_option (scanIoC k) (get (t_iocs s) k)"
  "db_incidents (pg_abs s) k = map_option (scanIncident k) (get (t_incidents s) k)"
  by (simp_all add: pg_abs_def)

lemma in_ran_sboms:
  "b \<in> ran (db_sboms (pg_abs s)) \<longleftrightarrow>
     (\<exists>k r. get (t_sboms s) k = Some r \<and> b = scanSBOM k r (package_rows table_order k s))"
  by (auto simp: ran_def)

lemma ran_scan:
  assumes "gmap_ok m"
  shows "(\<lambda>(k, r). f k r) ` set m = ran (\<lambda>k. map_option (f k) (get m k))"
  using assms by (force simp: ran_def get_in_set image_iff)

lemma pg_ran:
  "ran (db_sboms (pg_abs s)) = ran (\<lambda>k. map_option (\<lambda>r. scanSBOM k r (package_rows table_order k s)) (get (t_sboms s) k))"
  "ran (db_iocs (pg_abs s)) = ran (\<lambda>k. map_option (scanIoC k) (get (t_iocs s) k))"
  "ran (db_incidents (pg_abs s)) = ran (\<lambda>k. map_option (scanIncident k) (get (t_incidents s) k))"
  by (simp_all add: pg_abs_def)

lemma pg_upserts:
  assumes "pg_ok s" and "c_err c = None"
  shows "pg_ok (snd (pg_UpsertComponent d c x s)) \<and> pg_abs (snd (pg_UpsertComponent d c x s)) =
      (pg_abs s)\<lparr>db_components := (db_components (pg_abs s))(comp_Ref x \<mapsto> x)\<rparr>"
    and "pg_ok (snd (pg_UpsertIoC d c i s)) \<and> pg_abs (snd (pg_UpsertIoC d c i s)) =
      (pg_abs s)\<lparr>db_iocs := (db_iocs (pg_abs s))(ioc_ID i \<mapsto> stored_ioc micro i)\<rparr>"
    and "pg_ok (snd (pg_UpsertIncident d c n s)) \<and> pg_abs (snd (pg_UpsertIncident d c n s)) =
      (pg_abs s)\<lparr>db_incidents := (db_incidents (pg_abs s))(inc_ID n \<mapsto> stored_incident micro n)\<rparr>"
  using assms
  by (auto simp: pg_UpsertComponent_def pg_UpsertIoC_def pg_UpsertIncident_def pg_ok_def integrity_defs
      pg_abs_def package_rows_def fun_eq_iff get_put_fun)

lemma hydrate_rows_quiet:
  assumes "c_err c = None" and "is_order (c_order c)" and "gmap_ok (t_sbom_packages s)"
  shows "hydrate_rows d c n rows s = Inr (map (\<lambda>(k, r). scanSBOM k r (package_rows table_order k s)) rows)"
proof (induction rows arbitrary: n)
  case (Cons e rows)
  then show ?case using assms by (cases e) (simp add: hydrateSBOMPackages_def package_rows_order)
qed simp

text \<open>The set of a component's SBOMs, and the join of package rows with SBOM rows.\<close>

lemma pg_list_sboms:
  assumes "pg_ok s" and "c_err c = None" and "is_order (c_order c)"
  shows "\<exists>xs. pg_ListSBOMsByComponent d c ref s = Inr xs \<and>
    set xs = {b \<in> ran (db_sboms (pg_abs s)). sbom_ComponentRef b = ref}"
proof -
  let ?f = "\<lambda>k r. scanSBOM k r (package_rows table_order k s)"
  have "(\<lambda>(k, r). ?f k r) ` {e \<in> set (t_sboms s). sr_component_ref (snd e) = ref} =
      {b \<in> ran (\<lambda>k. map_option (?f k) (get (t_sboms s) k)). sbom_ComponentRef b = ref}"
    using assms(1) by (force simp: ran_def get_in_set pg_okD image_iff)
  then show ?thesis
    using assms by (simp add: pg_ListSBOMsByComponent_def hydrate_rows_quiet pg_okD pg_ran)
qed

lemma in_package_rows:
  assumes "gmap_ok (t_sbom_packages s)"
  shows "p \<in> set (package_rows table_order k s) \<longleftrightarrow> (\<exists>i. get (t_sbom_packages s) (k, i) = Some p)"
  using assms by (force simp: package_rows_def table_order_def get_in_set image_iff)

lemma in_join:
  "q \<in> set (join_package s e) \<longleftrightarrow> (\<exists>r. get (t_sboms s) (fst (fst e)) = Some r \<and>
     q = \<lparr>spr_ComponentRef = sr_component_ref r, spr_Package = snd e\<rparr>)"
  by (cases "get (t_sboms s) (fst (fst e))") (simp_all add: join_package_def)

lemma in_join_rows:
  assumes "is_order \<rho>" and "gmap_ok (t_sbom_packages s)"
  shows "q \<in> set (concat (map (join_package s) (filter P (in_order \<rho> (t_sbom_packages s))))) \<longleftrightarrow>
    (\<exists>k r i p. get (t_sboms s) k = Some r \<and> get (t_sbom_packages s) (k, i) = Some p \<and> P ((k, i), p) \<and>
      q = \<lparr>spr_ComponentRef = sr_component_ref r, spr_Package = p\<rparr>)"
  unfolding get_in_set [OF assms(2)] using assms(1) by (simp add: in_join Bex_def split_paired_Ex) blast

lemma pg_list_packages:
  assumes "pg_ok s" and "c_err c = None" and "is_order (c_order c)"
    and "\<And>b. b \<in> ran (db_sboms (pg_abs s)) \<Longrightarrow> uniform b"
  shows "\<exists>xs. pg_ListSBOMPackages d c eco name s = Inr xs \<and>
    set xs = {\<lparr>spr_ComponentRef = sbom_ComponentRef b, spr_Package = p\<rparr> | b p.
      b \<in> ran (db_sboms (pg_abs s)) \<and> sbom_Ecosystem b = eco \<and> p \<in> set (sbom_Packages b) \<and> pv_Name p = name}"
proof -
  let ?P = "\<lambda>e. pv_Ecosystem (snd e) = eco \<and> pv_Name (snd e) = name"
  let ?rows = "concat (map (join_package s) (filter ?P (in_order (c_order c) (t_sbom_packages s))))"
  have ok: "gmap_ok (t_sbom_packages s)" using assms(1) by (simp add: pg_okD)
  have uni: "pv_Ecosystem p = sr_ecosystem r"
    if "get (t_sboms s) k = Some r" "get (t_sbom_packages s) (k, i) = Some p" for k r i p
  proof -
    have "scanSBOM k r (package_rows table_order k s) \<in> ran (db_sboms (pg_abs s))"
      using that(1) unfolding in_ran_sboms by blast
    from assms(4) [OF this] show ?thesis using that(2) in_package_rows [OF ok, of p k] by (auto simp: uniform_def)
  qed
  have "set ?rows = {\<lparr>spr_ComponentRef = sbom_ComponentRef b, spr_Package = p\<rparr> | b p.
      b \<in> ran (db_sboms (pg_abs s)) \<and> sbom_Ecosystem b = eco \<and> p \<in> set (sbom_Packages b) \<and> pv_Name p = name}"
  proof (intro set_eqI iffI)
    fix q
    assume "q \<in> set ?rows"
    then obtain k r i p where "get (t_sboms s) k = Some r" "get (t_sbom_packages s) (k, i) = Some p"
        "pv_Ecosystem p = eco" "pv_Name p = name" "q = \<lparr>spr_ComponentRef = sr_component_ref r, spr_Package = p\<rparr>"
      unfolding in_join_rows [OF assms(3) ok] by auto
    then show "q \<in> {\<lparr>spr_ComponentRef = sbom_ComponentRef b, spr_Package = p\<rparr> | b p.
        b \<in> ran (db_sboms (pg_abs s)) \<and> sbom_Ecosystem b = eco \<and> p \<in> set (sbom_Packages b) \<and> pv_Name p = name}"
      using uni unfolding in_ran_sboms
      by (auto simp: in_package_rows [OF ok] intro!: exI [of _ "scanSBOM k r (package_rows table_order k s)"])
  next
    fix q
    assume "q \<in> {\<lparr>spr_ComponentRef = sbom_ComponentRef b, spr_Package = p\<rparr> | b p.
        b \<in> ran (db_sboms (pg_abs s)) \<and> sbom_Ecosystem b = eco \<and> p \<in> set (sbom_Packages b) \<and> pv_Name p = name}"
    then obtain k r i p where "get (t_sboms s) k = Some r" "get (t_sbom_packages s) (k, i) = Some p"
        "sr_ecosystem r = eco" "pv_Name p = name" "q = \<lparr>spr_ComponentRef = sr_component_ref r, spr_Package = p\<rparr>"
      by (auto simp: in_ran_sboms in_package_rows [OF ok])
    then show "q \<in> set ?rows" unfolding in_join_rows [OF assms(3) ok] using uni by fastforce
  qed
  then show ?thesis using assms(2) by (simp add: pg_ListSBOMPackages_def)
qed

lemma pg_matched_refs:
  assumes "pg_ok s" and "c_err c = None" and "is_order (c_order c)"
  shows "\<exists>xs. pg_MatchedComponentRefsByIoC d c k s = Inr xs \<and> distinct xs \<and>
    set xs = (\<Union>i \<in> {i \<in> ran (db_incidents (pg_abs s)). inc_IoCID i = k}. set (inc_AffectedComponentsSnapshot i))"
proof -
  let ?u = "uniq [] (concat (map ir_affected (filter (\<lambda>r. ir_ioc_id r = k) (values_in (c_order c) (t_incidents s)))))"
  have "set ?u = (\<Union>r \<in> {r \<in> ran (get (t_incidents s)). ir_ioc_id r = k}. set (ir_affected r))"
    using assms by (auto simp: values_ran pg_okD)
  also have "\<dots> = (\<Union>i \<in> {i \<in> ran (db_incidents (pg_abs s)). inc_IoCID i = k}. set (inc_AffectedComponentsSnapshot i))"
    by (force simp: ran_def)
  finally show ?thesis
    using assms(2) distinct_sort_slice [where f = "\<lambda>x. x" and xs = ?u]
    by (simp add: pg_MatchedComponentRefsByIoC_def)
qed

interpretation pg: storage_contract "postgres d" pg_ok pg_abs micro for d
proof (unfold_locales, goal_cases)
  case 1 then show ?case
    by (auto simp: keyed_def pg_ok_def keys_unique_def)
next
  case 3 then show ?case using pg_upserts(1) by simp
next
  case 5 then show ?case by (simp add: pg_ok_upsert_sbom pg_abs_upsert_sbom)
next
  case 7 then show ?case using pg_upserts(2) by simp
next
  case 9 then show ?case using pg_upserts(3) by simp
next
  case 11 then show ?case by (simp add: pg_ok_append pg_abs_append)
next
  case 16 then show ?case using pg_list_sboms by simp
next
  case 17 then show ?case using pg_list_packages by simp
next
  case 20 then show ?case using pg_matched_refs by simp
next
  case 18 then show ?case by (simp add: pg_ListIoCs_def pg_ran ran_scan pg_okD)
next
  case 19 then show ?case by (simp add: pg_ListIncidents_def pg_ran pg_okD image_image case_prod_beta flip: ran_scan)
qed (auto simp: pg_UpsertComponent_def pg_UpsertSBOM_quiet pg_UpsertIoC_def pg_UpsertIncident_def
      pg_AppendRemediation_def pg_GetComponent_def select_component_def pg_GetIoC_def select_ioc_def
      pg_GetIncident_def listRemediationsTx_def pg_ListComponents_def one_row_def Let_def values_ran pg_okD
      split: option.split)

section \<open>Integrity of reachable databases\<close>

text \<open>Any sequence of calls of the backend on a migrated database, whichever of their statements fail.\<close>

inductive pg_reachable :: "pgsql \<Rightarrow> tables \<Rightarrow> bool" for d where
  migrated: "pg_reachable d migrated"
| component: "pg_reachable d s \<Longrightarrow> pg_reachable d (snd (pg_UpsertComponent d c x s))"
| sbom: "pg_reachable d s \<Longrightarrow> pg_reachable d (snd (pg_UpsertSBOM d c b s))"
| ioc: "pg_reachable d s \<Longrightarrow> pg_reachable d (snd (pg_UpsertIoC d c i s))"
| incident: "pg_reachable d s \<Longrightarrow> pg_reachable d (snd (pg_UpsertIncident d c n s))"
| remediation: "pg_reachable d s \<Longrightarrow> pg_reachable d (snd (pg_AppendRemediation d c k r s))"
| publisher: "pg_reachable d s \<Longrightarrow> pg_reachable d (snd (pg_UpsertPublisher d c p s))"
| profile: "pg_reachable d s \<Longrightarrow> pg_reachable d (snd (pg_UpsertPublisherProfile d c q s))"
| snapshot: "pg_reachable d s \<Longrightarrow> pg_reachable d (snd (pg_SavePublisherSnapshot d c y s))"
| anomaly: "pg_reachable d s \<Longrightarrow> pg_reachable d (snd (pg_SaveAnomaly d c a s))"

lemma pg_ok_exec: "pg_ok old \<Longrightarrow> pg_ok new \<Longrightarrow> pg_ok (snd (exec d c op new old))"
  using exec_cases [of d c op new old] by auto

lemma pg_ok_simple:
  assumes "pg_ok s"
  shows "pg_ok (snd (pg_UpsertComponent d c x s))" "pg_ok (snd (pg_UpsertIoC d c i s))"
    "pg_ok (snd (pg_UpsertIncident d c n s))" "pg_ok (snd (pg_UpsertPublisher d c p s))"
    "pg_ok (snd (pg_SavePublisherSnapshot d c y s))"
  unfolding pg_UpsertComponent_def pg_UpsertIoC_def pg_UpsertIncident_def pg_UpsertPublisher_def
    pg_SavePublisherSnapshot_def Let_def
  using assms
  by (auto intro!: pg_ok_exec split: option.split)
    (auto simp: pg_ok_def integrity_defs)

lemma publisher_stays: "fst (pg_UpsertPublisher d c p s) = None \<Longrightarrow>
    get (t_publishers (snd (pg_UpsertPublisher d c p s))) (pub_Ecosystem p, pub_Name p) \<noteq> None"
  by (simp add: pg_UpsertPublisher_def exec_def split: option.splits)

lemma pg_ok_profile:
  assumes "pg_ok s"
  shows "pg_ok (snd (pg_UpsertPublisherProfile d c q s))"
proof (cases "pg_UpsertPublisher d c (prof_Publisher q) s")
  case (Pair e s')
  have ok: "pg_ok s'" using pg_ok_simple(4) [OF assms, of d c "prof_Publisher q"] Pair by simp
  show ?thesis
  proof (cases e)
    case None
    then have "get (t_publishers s') (pub_Ecosystem (prof_Publisher q), pub_Name (prof_Publisher q)) \<noteq> None"
      using publisher_stays [of d c "prof_Publisher q" s] Pair by simp
    with ok Pair None show ?thesis
      by (auto simp: pg_UpsertPublisherProfile_def pg_ok_def integrity_defs split: option.split)
  qed (simp add: pg_UpsertPublisherProfile_def Pair ok)
qed

lemma pg_ok_anomaly:
  assumes "pg_ok s"
  shows "pg_ok (snd (pg_SaveAnomaly d c a s))"
proof -
  have ok: "gmap_ok (t_anomalies s)" and uni: "anomalies_unique s"
    using assms by (simp_all add: pg_ok_def keys_unique_def)
  let ?at = "if IsZero (anom_DetectedAt a) then c_now c else anom_DetectedAt a"
  let ?row = "anomaly_row_of ?at a" and ?n = "seq_anomalies s + 1"
  have low: "k \<le> seq_anomalies s" if "get (t_anomalies s) k = Some r" for k r
    using uni that by (simp add: anomalies_unique_def)
  have keep: "pg_ok (s\<lparr>seq_anomalies := ?n\<rparr>)"
  proof -
    have "k \<le> ?n" if "get (t_anomalies s) k = Some r" for k r using low [OF that] by simp
    then show ?thesis using assms by (simp add: pg_ok_def integrity_defs)
  qed
  have add: "pg_ok (s\<lparr>seq_anomalies := ?n, t_anomalies := put ?n ?row (t_anomalies s)\<rparr>)"
    if "find (\<lambda>e. unique_key (snd e) = unique_key ?row) (t_anomalies s) = None"
  proof -
    have "unique_key r \<noteq> unique_key ?row" if "get (t_anomalies s) k = Some r" for k r
      using \<open>find _ _ = None\<close> get_SomeD [OF that] by (auto simp: find_None_iff)
    then have "unique_on unique_key (put ?n ?row (t_anomalies s))"
      using uni by (intro unique_on_put) (auto simp: anomalies_unique_def)
    moreover have "k \<le> ?n" if "get (put ?n ?row (t_anomalies s)) k = Some r" for k r
      using that low [of k r] by (auto split: if_splits)
    ultimately have "anomalies_unique (s\<lparr>seq_anomalies := ?n, t_anomalies := put ?n ?row (t_anomalies s)\<rparr>)"
      by (simp add: anomalies_unique_def)
    then show ?thesis using assms by (simp add: pg_ok_def integrity_defs)
  qed
  show ?thesis
    unfolding pg_SaveAnomaly_def Let_def
    using assms keep add by (simp split: option.split split del: if_split)
qed

lemma pg_reachable_ok: "pg_reachable d s \<Longrightarrow> pg_ok s"
proof (induction rule: pg_reachable.induct)
  case migrated
  show ?case by (simp add: migrated_def pg_ok_def integrity_defs)
qed (simp_all add: pg_ok_simple pg_ok_upsert_sbom pg_ok_append pg_ok_profile pg_ok_anomaly)

section \<open>Agreement with the in-memory backend\<close>

datatype db_write = WComponent component | WSBOM sbom | WIoC ioc | WIncident incident | WRemediation string remediation

definition apply_write :: "'s storage \<Rightarrow> 's \<Rightarrow> call \<times> db_write \<Rightarrow> 's" where
  "apply_write ops s cw =
     (case snd cw of
        WComponent x \<Rightarrow> snd (UpsertComponent ops (fst cw) x s)
      | WSBOM b \<Rightarrow> snd (UpsertSBOM ops (fst cw) b s)
      | WIoC i \<Rightarrow> snd (UpsertIoC ops (fst cw) i s)
      | WIncident n \<Rightarrow> snd (UpsertIncident ops (fst cw) n s)
      | WRemediation k r \<Rightarrow> snd (AppendRemediation ops (fst cw) k r s))"

definition coarse :: "db \<Rightarrow> db" where
  "coarse d = \<lparr>db_components = db_components d,
     db_sboms = (\<lambda>k. map_option (stored_sbom micro) (db_sboms d k)),
     db_iocs = (\<lambda>k. map_option (stored_ioc micro) (db_iocs d k)),
     db_incidents = (\<lambda>k. map_option (stored_incident micro) (db_incidents d k))\<rparr>"

lemma coarse_simps [simp]:
  "coarse (d\<lparr>db_components := m\<rparr>) = (coarse d)\<lparr>db_components := m\<rparr>"
  "coarse (d\<lparr>db_sboms := (db_sboms d)(k \<mapsto> b)\<rparr>) =
     (coarse d)\<lparr>db_sboms := (db_sboms (coarse d))(k \<mapsto> stored_sbom micro b)\<rparr>"
  "coarse (d\<lparr>db_iocs := (db_iocs d)(k \<mapsto> i)\<rparr>) =
     (coarse d)\<lparr>db_iocs := (db_iocs (coarse d))(k \<mapsto> stored_ioc micro i)\<rparr>"
  "coarse (d\<lparr>db_incidents := (db_incidents d)(k \<mapsto> bare n)\<rparr>) =
     (coarse d)\<lparr>db_incidents := (db_incidents (coarse d))(k \<mapsto> stored_incident micro n)\<rparr>"
  "db_components (coarse d) = db_components d"
  by (auto simp: coarse_def fun_eq_iff stored_incident_def bare_def)

text \<open>The two backends in lock step: each write keeps both well formed and their databases equal up to resolution.\<close>

definition in_step :: "store \<Rightarrow> tables \<Rightarrow> bool" where
  "in_step m p \<longleftrightarrow> store_ok m \<and> pg_ok p \<and> pg_abs p = coarse (mem_abs m)"

lemma in_step_write:
  assumes "in_step m p" and "c_err (fst cw) = None"
  shows "in_step (apply_write memory m cw) (apply_write (postgres d) p cw)"
proof -
  have ok: "store_ok m" "pg_ok p" and eq: "pg_abs p = coarse (mem_abs m)" using assms(1) by (simp_all add: in_step_def)
  note mem = mem.upsert_component [OF ok(1) assms(2)] mem.upsert_sbom [OF ok(1) assms(2)]
    mem.upsert_ioc [OF ok(1) assms(2)] mem.upsert_incident [OF ok(1) assms(2)] mem.append_remediation [OF ok(1) assms(2)]
  note pg = pg.upsert_component [OF ok(2) assms(2)] pg.upsert_sbom [OF ok(2) assms(2)]
    pg.upsert_ioc [OF ok(2) assms(2)] pg.upsert_incident [OF ok(2) assms(2)] pg.append_remediation [OF ok(2) assms(2)]
  show ?thesis
    unfolding in_step_def apply_write_def
    by (cases "snd cw")
      (use mem pg in \<open>simp_all add: eq del: memory_simps postgres_simps mem_abs_simps pg_abs_simps\<close>)
qed

lemma in_step_writes:
  "in_step m p \<Longrightarrow> list_all (\<lambda>cw. c_err (fst cw) = None) ws \<Longrightarrow>
   in_step (foldl (apply_write memory) m ws) (foldl (apply_write (postgres d)) p ws)"
  by (induction ws arbitrary: m p) (simp_all add: in_step_write)

lemma in_step_new: "in_step mem_New migrated"
  using reachable_ok [OF mem_reachable.new] pg_reachable_ok [OF pg_reachable.migrated]
  by (simp add: in_step_def pg_abs_def coarse_def) (simp add: mem_abs_def mem_New_def migrated_def)

section \<open>The filtered list of incidents\<close>

definition iocs_of :: "tables \<Rightarrow> (string, ioc) gomap" where
  "iocs_of s = map (\<lambda>(k, r). (k, scanIoC k r)) (t_iocs s)"

lemma get_iocs_of: "get (iocs_of s) k = map_option (scanIoC k) (get (t_iocs s) k)"
proof -
  have "map_of (map (\<lambda>(k, r). (k, scanIoC k r)) m) k = map_option (scanIoC k) (map_of m k)" for m
    by (induction m) auto
  then show ?thesis by (simp add: get_def iocs_of_def)
qed

text \<open>A cache holds what a lookup would give.\<close>

definition cached :: "('k \<Rightarrow> 'v option) \<Rightarrow> ('k, 'v option) gomap \<Rightarrow> bool" where
  "cached f m \<longleftrightarrow> (\<forall>k v. get m k = Some v \<longrightarrow> v = f k)"

lemma cached_Nil [simp]: "cached f []"
  by (simp add: cached_def)

lemma cached_put [simp]: "cached f m \<Longrightarrow> cached f (put k (f k) m)"
  by (simp add: cached_def)

lemma select_quiet:
  assumes "c_err c = None"
  shows "(case select_ioc d c n k s of Inl _ \<Rightarrow> None | Inr i \<Rightarrow> Some i) = get (iocs_of s) k"
    and "(case select_component d c n ref s of Inl _ \<Rightarrow> None | Inr x \<Rightarrow> Some x) = get (t_components s) ref"
  using assms by (simp_all add: select_ioc_def select_component_def one_row_def get_iocs_of split: option.split)

lemma ecosystem_step:
  assumes "c_err c = None" and "cached (get (iocs_of s)) ic"
  shows "\<exists>ic' n'. pg_matchesEcosystemFilter d c s inc f ic n = (matchesEcosystemFilter inc f (iocs_of s), ic', n') \<and>
    cached (get (iocs_of s)) ic'"
proof -
  let ?g = "get (iocs_of s)"
  have "(case v of Some (Some i) \<Rightarrow> list_ex (\<lambda>eco. eco \<noteq> [] \<and> ioc_Ecosystem i = eco) (if_Ecosystems f) | _ \<Rightarrow> False) \<longleftrightarrow>
      matchesEcosystemFilter inc f (iocs_of s)" if "v = Some (?g (inc_IoCID inc))" "if_Ecosystems f \<noteq> []" for v
    using that by (simp add: matchesEcosystemFilter_def split: option.split)
  moreover have "get ic (inc_IoCID inc) = Some w \<Longrightarrow> w = ?g (inc_IoCID inc)" for w
    using assms(2) by (simp add: cached_def)
  ultimately show ?thesis
    using assms
    by (cases "if_Ecosystems f = []"; cases "get ic (inc_IoCID inc)")
      (auto simp: pg_matchesEcosystemFilter_def matchesEcosystemFilter_def [of inc f] select_quiet cached_put)
qed

lemma owner_step:
  assumes "c_err c = None"
  shows "cached (get (t_components s)) cc \<Longrightarrow> \<exists>cc' n'. owner_loop d c s owner cc n refs =
    (list_ex (\<lambda>ref. case get (t_components s) ref of None \<Rightarrow> False | Some x \<Rightarrow> comp_Owner x = owner) refs, cc', n') \<and>
    cached (get (t_components s)) cc'"
proof (induction refs arbitrary: cc n)
  case (Cons ref refs)
  let ?g = "get (t_components s)"
  show ?case
  proof (cases "get cc ref")
    case None
    have c: "cached ?g (put ref (?g ref) cc)" using Cons.prems by (rule cached_put)
    from Cons.IH [OF c, of "Suc n"] c show ?thesis
      using None assms by (cases "?g ref") (auto simp: select_quiet)
  next
    case (Some w)
    then have "w = ?g ref" using Cons.prems by (simp add: cached_def)
    with Cons.IH [OF Cons.prems, of n] Some Cons.prems show ?thesis by (cases "?g ref") auto
  qed
qed simp

lemma owner_filter_step:
  assumes "c_err c = None" and "cached (get (t_components s)) cc"
  shows "\<exists>cc' n'. pg_matchesOwnerFilter d c s inc f cc n = (matchesOwnerFilter inc f (t_components s), cc', n') \<and>
    cached (get (t_components s)) cc'"
  using assms owner_step [OF assms, of d "if_Owner f" n "inc_AffectedComponentsSnapshot inc"]
  by (auto simp: pg_matchesOwnerFilter_def matchesOwnerFilter_def)

lemma search_same: "matchesSearchFilterPg inc f = matchesSearchFilter inc f"
  by (simp add: matchesSearchFilterPg_def matchesSearchFilter_def Let_def)

definition passes :: "tables \<Rightarrow> incident_filter \<Rightarrow> incident \<Rightarrow> bool" where
  "passes s f i \<longleftrightarrow> matchesEcosystemFilter i f (iocs_of s) \<and> matchesSearchFilter i f \<and>
     matchesOwnerFilter i f (t_components s)"

lemma filter_loop_exact:
  assumes "c_err c = None"
  shows "cached (get (iocs_of s)) ic \<Longrightarrow> cached (get (t_components s)) cc \<Longrightarrow> length out < limit \<Longrightarrow>
    filter_loop d c s f limit ic cc n out incs = take limit (out @ filter (passes s f) incs)"
proof (induction incs arbitrary: ic cc n out)
  case (Cons inc incs)
  obtain ic' n' where eco: "pg_matchesEcosystemFilter d c s inc f ic n = (matchesEcosystemFilter inc f (iocs_of s), ic', n')"
      "cached (get (iocs_of s)) ic'"
    using ecosystem_step [OF assms Cons.prems(1)] by blast
  obtain cc' n'' where own: "pg_matchesOwnerFilter d c s inc f cc n' = (matchesOwnerFilter inc f (t_components s), cc', n'')"
      "cached (get (t_components s)) cc'"
    using owner_filter_step [OF assms Cons.prems(2)] by blast
  have full: "limit \<le> Suc (length out) \<Longrightarrow> limit - length out = Suc 0" using Cons.prems(3) by simp
  show ?case
    using Cons.prems(3) Cons.IH [OF eco(2) Cons.prems(2,3)] Cons.IH [OF eco(2) own(2) Cons.prems(3)]
      Cons.IH [OF eco(2) own(2), of "out @ [inc]"]
    by (simp add: eco(1) own(1) search_same passes_def Let_def full)
qed simp

section \<open>The remediation log\<close>

lemma distinct_seqs:
  assumes "pg_ok s"
  shows "distinct (map (\<lambda>e. rr_seq (snd e)) (filter P (t_remediations s)))"
proof -
  have ok: "gmap_ok (t_remediations s)" and u: "unique_on rr_seq (t_remediations s)"
    using assms by (simp_all add: pg_ok_def keys_unique_def log_ordered_def)
  have "inj_on (\<lambda>e. rr_seq (snd e)) (set (t_remediations s))"
  proof (rule inj_onI)
    fix e e'
    assume "e \<in> set (t_remediations s)" "e' \<in> set (t_remediations s)" "rr_seq (snd e) = rr_seq (snd e')"
    then have "fst e = fst e'" using unique_onD [OF u, of "fst e" "snd e" "fst e'" "snd e'"] by (simp add: get_in_set ok)
    then show "e = e'" using \<open>e \<in> _\<close> \<open>e' \<in> _\<close> ok
      by (cases e; cases e') (auto simp: gmap_ok_def dest: eq_key_imp_eq_value)
  qed
  moreover have "distinct (t_remediations s)" using ok by (simp add: gmap_ok_def distinct_map)
  ultimately show ?thesis by (auto simp: distinct_map intro: inj_on_subset)
qed

definition log_rows :: "string \<Rightarrow> tables \<Rightarrow> (string \<times> remediation_row) list" where
  "log_rows k s = sort_slice (\<lambda>a b. rr_seq (snd a) < rr_seq (snd b))
     (filter (\<lambda>e. rr_incident_id (snd e) = k) (t_remediations s))"

lemma pg_ListRemediations_quiet:
  assumes "pg_ok s" and "c_err c = None" and "is_order (c_order c)" and "get (t_incidents s) k \<noteq> None"
  shows "pg_ListRemediations d c k s = Inr (map (\<lambda>(q, r). scanRemediation q r) (log_rows k s))"
proof -
  have "sort_slice (\<lambda>a b. rr_seq (snd a) < rr_seq (snd b))
      (filter (\<lambda>e. rr_incident_id (snd e) = k) (in_order (c_order c) (t_remediations s))) = log_rows k s"
    unfolding log_rows_def
    by (rule by_seq.slice_unique [OF _ by_seq.sorted_slice distinct_seqs [OF assms(1)]])
      (simp add: mset_in_order assms(3))
  then show ?thesis using assms by (simp add: pg_ListRemediations_def listRemediationsTx_def)
qed

lemma log_rows_snoc:
  assumes "pg_ok s" and "t_remediations s' = t_remediations s @ [(q, row)]" and "rr_incident_id row = k"
    and "seq_remediations s < rr_seq row" and "pg_ok s'"
  shows "log_rows k s' = log_rows k s @ [(q, row)]"
proof -
  have low: "rr_seq (snd e) \<le> seq_remediations s" if "e \<in> set (t_remediations s)" for e
    using assms(1) that by (cases e) (auto simp: pg_ok_def log_ordered_def keys_unique_def get_in_set)
  have "sorted (map (\<lambda>e. rr_seq (snd e)) (log_rows k s))"
    unfolding log_rows_def by (rule by_seq.sorted_slice)
  then have "sorted (map (\<lambda>e. rr_seq (snd e)) (log_rows k s @ [(q, row)]))"
    using low assms(4) by (fastforce simp: sorted_append log_rows_def)
  moreover have "mset (log_rows k s @ [(q, row)]) = mset (filter (\<lambda>e. rr_incident_id (snd e) = k) (t_remediations s'))"
    by (simp add: log_rows_def assms(2,3))
  ultimately show ?thesis
    unfolding log_rows_def [of k s'] using by_seq.slice_unique distinct_seqs [OF assms(5)] by metis
qed

lemma pg_GetSBOM_quiet:
  assumes "pg_ok p" and "c_err c = None" and "is_order (c_order c)"
  shows "pg_GetSBOM d c k p = one_row (db_sboms (pg_abs p) k)"
  using assms by (simp add: pg_GetSBOM_def hydrateSBOMPackages_def package_rows_order pg_okD one_row_def split: option.split)

lemma stored_incident_bare: "stored_incident gran (bare n) = stored_incident gran n"
  by (simp add: stored_incident_def bare_def)

definition sample_pgsql :: pgsql where
  "sample_pgsql = \<lparr>pq_fault = (\<lambda>_ _. Some ''connection reset''), pq_collate = (\<lambda>x. x), pq_jsonb = Some\<rparr>"

definition sample_rem :: remediation where
  "sample_rem = \<lparr>rem_ID = ''r1'', rem_IncidentID = [], rem_Kind = ''pin'', rem_ExecutedAt = 1999,
     rem_ActorRef = ''me'', rem_Details = []\<rparr>"

definition sample_writes :: "(call \<times> db_write) list" where
  "sample_writes = map (Pair plain_call)
     [WComponent sample_component, WSBOM sample_sbom, WIoC sample_ioc, WIncident (sample_incident ''a'' 1999)]"

section \<open>Properties\<close>



text \<open>
  C4. The constraints of the schema hold in every state the backend can reach, whichever statements fail: keys are
  unique, every package row belongs to an SBOM, every remediation to an incident, every profile to a publisher, no
  two remediations share a place in the log, and no anomaly is stored twice.
\<close>

theorem schema_holds:
  assumes "pg_reachable d s"
  shows "keys_unique s \<and> packages_have_sbom s \<and> remediations_have_incident s \<and> profiles_have_publisher s \<and>
    unique_on rr_seq (t_remediations s) \<and> unique_on unique_key (t_anomalies s)"
  using pg_reachable_ok [OF assms] by (simp add: pg_ok_def log_ordered_def anomalies_unique_def)

theorem schema_holds_witness:
  "let c = \<lparr>c_err = Some ErrContext, c_order = (\<lambda>n. [0..<n]), c_now = 7\<rparr>;
       s = snd (pg_AppendRemediation sample_pgsql plain_call ''a'' sample_rem
         (snd (pg_UpsertIncident sample_pgsql plain_call (sample_incident ''a'' 1) migrated)));
       s' = snd (pg_AppendRemediation sample_pgsql c ''a'' (sample_rem\<lparr>rem_ID := ''r2''\<rparr>) s) in
     length (t_remediations s') = 1 \<and> remediations_have_incident s'"
proof -
  let ?s = "snd (pg_AppendRemediation sample_pgsql plain_call ''a'' sample_rem
      (snd (pg_UpsertIncident sample_pgsql plain_call (sample_incident ''a'' 1) migrated)))"
  let ?c = "\<lparr>c_err = Some ErrContext, c_order = (\<lambda>n. [0..<n]), c_now = 7\<rparr>"
  let ?s' = "snd (pg_AppendRemediation sample_pgsql ?c ''a'' (sample_rem\<lparr>rem_ID := ''r2''\<rparr>) ?s)"
  have "pg_reachable sample_pgsql ?s'" by (intro pg_reachable.intros)
  from schema_holds [OF this] have "remediations_have_incident ?s'" by simp
  moreover have "length (t_remediations ?s') = 1"
    by (simp add: pg_AppendRemediation_def pg_UpsertIncident_def exec_def wrapPgErr_def fault_def sample_pgsql_def
        migrated_def sample_incident_def put_new get_def Let_def)
  ultimately show ?thesis by (simp only: Let_def simp_thms)
qed

text \<open>
  C7. The log of an incident only grows. A remediation with a new identifier goes to the end of the log of its
  incident, as it was given but at microsecond resolution, and writing the incident itself, as a transition
  does, leaves the log alone.
\<close>

theorem log_append_only:
  assumes "pg_reachable d s" and "c_err c = None" and "is_order (c_order c)"
    and "get (t_incidents s) k \<noteq> None" and "get (t_remediations s) (rem_ID r) = None"
  shows "\<exists>log. pg_ListRemediations d c k s = Inr log \<and>
    pg_ListRemediations d c k (snd (pg_AppendRemediation d c k r s)) =
      Inr (log @ [r\<lparr>rem_IncidentID := k, rem_ExecutedAt := micro (rem_ExecutedAt r)\<rparr>]) \<and>
    (\<forall>n. pg_ListRemediations d c k (snd (pg_UpsertIncident d c n s)) = Inr log)"
proof -
  let ?row = "\<lparr>rr_incident_id = k, rr_kind = rem_Kind r, rr_executed_at = micro (rem_ExecutedAt r),
    rr_actor_ref = rem_ActorRef r, rr_details = rem_Details r, rr_seq = seq_remediations s + 1\<rparr>"
  let ?s = "snd (pg_AppendRemediation d c k r s)"
  have ok: "pg_ok s" "pg_ok ?s" using assms(1) by (simp_all add: pg_reachable_ok pg_ok_append)
  have app: "t_remediations ?s = t_remediations s @ [(rem_ID r, ?row)]" "t_incidents ?s = t_incidents s"
    using assms(2,4,5) by (simp_all add: pg_AppendRemediation_def Let_def put_new)
  have "log_rows k ?s = log_rows k s @ [(rem_ID r, ?row)]"
    by (rule log_rows_snoc [OF ok(1) app(1) _ _ ok(2)]) simp_all
  moreover have "scanRemediation (rem_ID r) ?row = r\<lparr>rem_IncidentID := k, rem_ExecutedAt := micro (rem_ExecutedAt r)\<rparr>"
    by (simp add: scanRemediation_def)
  moreover have "pg_ListRemediations d c k (snd (pg_UpsertIncident d c n s)) = pg_ListRemediations d c k s" for n
    using assms(2,4) by (simp add: pg_ListRemediations_def listRemediationsTx_def pg_UpsertIncident_def)
  ultimately show ?thesis
    using pg_ListRemediations_quiet [OF ok(1) assms(2,3,4)] pg_ListRemediations_quiet [OF ok(2) assms(2,3)] assms(4) app(2)
    by (simp add: Let_def)
qed

theorem log_append_only_witness:
  "let s = snd (pg_UpsertIncident sample_pgsql plain_call (sample_incident ''a'' 1) migrated) in
     pg_ListRemediations sample_pgsql plain_call ''a''
       (snd (pg_AppendRemediation sample_pgsql plain_call ''a'' sample_rem s)) =
     Inr [sample_rem\<lparr>rem_IncidentID := ''a'', rem_ExecutedAt := 1000\<rparr>]"
proof -
  let ?s = "snd (pg_UpsertIncident sample_pgsql plain_call (sample_incident ''a'' 1) migrated)"
  have r: "pg_reachable sample_pgsql ?s" by (intro pg_reachable.intros)
  have g: "get (t_incidents ?s) ''a'' \<noteq> None" "get (t_remediations ?s) (rem_ID sample_rem) = None"
    by (simp_all add: pg_UpsertIncident_def migrated_def sample_incident_def)
  have "pg_ListRemediations sample_pgsql plain_call ''a'' ?s = Inr []"
    by (simp add: pg_ListRemediations_def listRemediationsTx_def pg_UpsertIncident_def migrated_def
        sample_incident_def plain_call_def in_order_def sort_slice_def)
  with log_append_only [OF r plain_call_simps(1,3) g] show ?thesis by (simp add: sample_rem_def micro_def)
qed

text \<open>
  C8. The filtered list needs no caches. In an undisturbed call the loop over the rows of the \<^verbatim>\<open>SELECT\<close>, with its two
  caches and its early stop, returns the rows that pass the filters the in-memory backend applies, in the
  order of the query, cut at the limit.
\<close>

theorem filter_exact:
  assumes "c_err c = None"
  shows "pg_ListIncidentsFiltered d c f s =
    Inr (take (effectiveLimit (if_Limit f)) (filter (\<lambda>i. matchesEcosystemFilter i f (iocs_of s) \<and>
        matchesSearchFilter i f \<and> matchesOwnerFilter i f (t_components s))
      (map (\<lambda>(k, r). scanIncident k r) (sort_slice (\<lambda>a b. ir_opened_at (snd a) > ir_opened_at (snd b))
        (filter (\<lambda>e. incident_where f (snd e)) (in_order (c_order c) (t_incidents s)))))))"
proof -
  have "0 < effectiveLimit (if_Limit f)" by (simp add: effectiveLimit_def noLimitSentinel_def)
  moreover have "passes s f = (\<lambda>i. matchesEcosystemFilter i f (iocs_of s) \<and> matchesSearchFilter i f \<and>
      matchesOwnerFilter i f (t_components s))"
    by (simp add: passes_def fun_eq_iff)
  ultimately show ?thesis
    using assms by (simp add: pg_ListIncidentsFiltered_def filter_loop_exact)
qed

theorem filter_exact_witness:
  "pg_ListIncidentsFiltered sample_pgsql plain_call no_filter
     (snd (pg_UpsertIncident sample_pgsql plain_call (sample_incident ''a'' 1999) migrated)) =
   Inr [sample_incident ''a'' 1000]"
  unfolding filter_exact [OF plain_call_simps(1)]
  by (simp add: pg_UpsertIncident_def migrated_def sample_incident_def incident_row_of_def plain_call_def in_order_def
      sort_slice_def incident_where_def no_filter_def scanIncident_def micro_def matchesEcosystemFilter_def
      matchesSearchFilter_def matchesOwnerFilter_def put_new effectiveLimit_def noLimitSentinel_def Let_def)

end
