(* ===== verification/Detectors.thy ===== *)
theory Detectors
  imports Storage Matcher
begin

text \<open>
  \<^verbatim>\<open>engine/anomaly\<close>: the three detectors that turn the snapshot history of a package, newest first,
  into anomalies. The interface allows a detector to fail; the three here never do. A detector reads the clock when it classifies and when it stamps; both readings
  and the order of its map walk are arguments.
\<close>

record detector =
  Kind :: string
  Detect :: "order \<Rightarrow> time \<Rightarrow> time \<Rightarrow> string \<Rightarrow> publisher_snapshot list \<Rightarrow> string + anomaly list"

definition mk_anomaly :: "string \<Rightarrow> string \<Rightarrow> time \<Rightarrow> string \<Rightarrow> string \<Rightarrow> anymap \<Rightarrow> anomaly" where
  "mk_anomaly kind ref at conf expl ev = \<lparr>anom_ID = 0, anom_Kind = kind, anom_PackageRef = ref,
     anom_DetectedAt = at, anom_Confidence = conf, anom_Explanation = expl, anom_Evidence = ev\<rparr>"

section \<open>Maintainer e-mail drift\<close>

definition highWindow :: duration where
  "highWindow = 7 * 24 * Hour"

definition mediumWindow :: duration where
  "mediumWindow = 14 * 24 * Hour"

definition email_key :: "maintainer \<Rightarrow> string" where
  "email_key m = ToLower (TrimSpace (mt_Email m))"

text \<open>The set of addresses, as its elements in the order of insertion.\<close>

definition emailSet :: "maintainer list \<Rightarrow> string list" where
  "emailSet ms = uniq [] (filter (\<lambda>e. e \<noteq> []) (map email_key ms))"

definition classifyConfidence ::
    "time \<Rightarrow> time option \<Rightarrow> string list \<Rightarrow> string list \<Rightarrow> string \<times> duration" where
  "classifyConfidence now latestPublishedAt newEmails everSeen =
     (let ageHours = (case latestPublishedAt of None \<Rightarrow> - Hour | Some t \<Rightarrow> Sub now t);
          allFirstSeen = list_all (\<lambda>e. e \<notin> set everSeen) newEmails
      in case latestPublishedAt of
           None \<Rightarrow> (ConfidenceLow, ageHours)
         | Some t \<Rightarrow>
             if Sub now t \<le> highWindow \<and> allFirstSeen then (ConfidenceHigh, ageHours)
             else if Sub now t \<le> mediumWindow then (ConfidenceMedium, ageHours)
             else (ConfidenceLow, ageHours))"

definition drift_Detect ::
    "order \<Rightarrow> time \<Rightarrow> time \<Rightarrow> string \<Rightarrow> publisher_snapshot list \<Rightarrow> anomaly list" where
  "drift_Detect \<rho> now stamp packageRef history =
     (case history of
        latest # before # older \<Rightarrow>
          (let prior = emailSet (snap_Maintainers before);
               current = emailSet (snap_Maintainers latest);
               everSeen = concat (map (\<lambda>x. map email_key (snap_Maintainers x)) (before # older));
               newEmails = filter (\<lambda>e. e \<notin> set prior) (in_order \<rho> current)
           in if length newEmails = 0 then []
              else (let (conf, ageHours) = classifyConfidence now (snap_LatestVersionPublishedAt latest) newEmails everSeen;
                        expl = ''new maintainer email(s) ['' @ Join newEmails '' '' @
                          ''] appeared on the latest snapshot of '' @ packageRef
                    in [mk_anomaly AnomalyKindMaintainerEmailDrift packageRef stamp conf expl
                         [(''new_emails'', AStrs newEmails),
                          (''prior_email_count'', AInt (int (length prior))),
                          (''current_email_count'', AInt (int (length current))),
                          (''latest_version'', AStr (snap_LatestVersion latest)),
                          (''latest_publish_age_h'', AHours ageHours)]]))
      | _ \<Rightarrow> [])"

definition maintainerdrift :: detector where
  "maintainerdrift = \<lparr>Kind = AnomalyKindMaintainerEmailDrift, Detect = (\<lambda>\<rho> now stamp ref h. Inr (drift_Detect \<rho> now stamp ref h))\<rparr>"

section \<open>OIDC regression\<close>

definition publishMethodOIDC :: string where
  "publishMethodOIDC = ''oidc-trusted-publisher''"

definition publishMethodToken :: string where
  "publishMethodToken = ''token''"

fun oidc_index :: "nat \<Rightarrow> publisher_snapshot list \<Rightarrow> nat option" where
  "oidc_index i [] = None"
| "oidc_index i (x # xs) = (if snap_PublishMethod x = publishMethodOIDC then Some i else oidc_index (Suc i) xs)"

definition oidc_Detect ::
    "order \<Rightarrow> time \<Rightarrow> time \<Rightarrow> string \<Rightarrow> publisher_snapshot list \<Rightarrow> anomaly list" where
  "oidc_Detect \<rho> now stamp packageRef history =
     (case history of
        latest # before # older \<Rightarrow>
          if snap_PublishMethod latest \<noteq> publishMethodToken then []
          else (case oidc_index 1 (before # older) of
                  None \<Rightarrow> []
                | Some priorOIDCAtIndex \<Rightarrow>
                    (let conf = (if snap_PublishMethod before = publishMethodOIDC then ConfidenceHigh
                                 else ConfidenceMedium);
                         expl = packageRef @ '' publish_method regressed from \"'' @ publishMethodOIDC @
                           ''\" to \"'' @ publishMethodToken @ ''\" (latest version '' @ snap_LatestVersion latest @ '')''
                     in [mk_anomaly AnomalyKindOIDCPublishingRegression packageRef now conf expl
                          [(''newest_publish_method'', AStr (snap_PublishMethod latest)),
                           (''previous_publish_method'', AStr (snap_PublishMethod before)),
                           (''latest_version'', AStr (snap_LatestVersion latest)),
                           (''oidc_seen_at_index'', AInt (int priorOIDCAtIndex))]]))
      | _ \<Rightarrow> [])"

definition oidcregression :: detector where
  "oidcregression = \<lparr>Kind = AnomalyKindOIDCPublishingRegression, Detect = (\<lambda>\<rho> now stamp ref h. Inr (oidc_Detect \<rho> now stamp ref h))\<rparr>"

section \<open>Version jumps\<close>

text \<open>
  The source converts the unsigned components of a version to \<^verbatim>\<open>int64\<close>: values are 64-bit words here
  and comparisons read them as signed.
\<close>

fun extract_versions :: "('c, 'v) semver \<Rightarrow> 'v list \<Rightarrow> publisher_snapshot list \<Rightarrow> 'v list" where
  "extract_versions sv out [] = out"
| "extract_versions sv out (x # xs) =
     (let raw = snap_LatestVersion x in
      if raw = [] then extract_versions sv out xs
      else (case NewVersion sv raw of
              None \<Rightarrow> extract_versions sv out xs
            | Some v \<Rightarrow>
                if Prerelease sv v \<noteq> [] then extract_versions sv out xs
                else if out \<noteq> [] \<and> VersionEqual sv (last out) v then extract_versions sv out xs
                else extract_versions sv (out @ [v]) xs))"

definition extractVersionsOldestFirst :: "('c, 'v) semver \<Rightarrow> publisher_snapshot list \<Rightarrow> 'v list" where
  "extractVersionsOldestFirst sv history = extract_versions sv [] (rev history)"

definition breakingDelta :: "('c, 'v) semver \<Rightarrow> 'v \<Rightarrow> 'v \<Rightarrow> int64" where
  "breakingDelta sv prev this_v =
     (let prevMajor = Major sv prev; currMajor = Major sv this_v in
      if prevMajor = 0 \<and> currMajor = 0 then Minor sv this_v - Minor sv prev
      else if prevMajor = 0 \<and> sint currMajor \<ge> 1 then 1
      else currMajor - prevMajor)"

fun maxOrZero_from :: "int64 \<Rightarrow> int64 list \<Rightarrow> int64" where
  "maxOrZero_from m [] = m"
| "maxOrZero_from m (x # xs) = maxOrZero_from (if sint x > sint m then x else m) xs"

definition maxOrZero :: "int64 list \<Rightarrow> int64" where
  "maxOrZero xs = maxOrZero_from 0 xs"

definition isUnusualVsHistory :: "int64 \<Rightarrow> int64 list \<Rightarrow> bool" where
  "isUnusualVsHistory latestJump historical =
     (if sint latestJump < 2 then False
      else (let histMax = maxOrZero historical in
            sint latestJump \<ge> 2 \<and> sint latestJump > sint (2 * histMax)))"

definition classify :: "int64 \<Rightarrow> int64 list \<Rightarrow> string" where
  "classify latestJump historical =
     (let patchOrMinor = length (filter (\<lambda>j. j = 0) historical) in
      if patchOrMinor \<ge> 5 \<and> sint latestJump \<ge> 5 then ConfidenceHigh
      else if length historical \<ge> 2 \<and> sint latestJump \<ge> 2 then ConfidenceMedium
      else ConfidenceLow)"

fun jumps_of :: "('c, 'v) semver \<Rightarrow> 'v list \<Rightarrow> int64 list" where
  "jumps_of sv (a # b # vs) = breakingDelta sv a b # jumps_of sv (b # vs)"
| "jumps_of sv _ = []"

definition jump_Detect :: "('c, 'v) semver \<Rightarrow>
    order \<Rightarrow> time \<Rightarrow> time \<Rightarrow> string \<Rightarrow> publisher_snapshot list \<Rightarrow> anomaly list" where
  "jump_Detect sv \<rho> now stamp packageRef history =
     (let versions = extractVersionsOldestFirst sv history in
      if length versions < 2 then []
      else (let jumps = jumps_of sv versions;
                latestJump = last jumps in
        if sint latestJump \<le> 0 then []
        else (let historical = butlast jumps in
          if \<not> isUnusualVsHistory latestJump historical then []
          else (let conf = classify latestJump historical;
                    prev = versions ! (length versions - 2);
                    this_v = versions ! (length versions - 1);
                    expl = packageRef @ '' jumped from '' @ Original sv prev @ '' to '' @ Original sv this_v @
                      '' '' @ [CHR 0xE2, CHR 0x80, CHR 0x94] @ '' breaking-delta '' @ show_int (sint latestJump) @
                      '' vs historical max '' @ show_int (sint (maxOrZero historical)) @ '' over '' @
                      show_nat (length historical) @ '' prior jump(s)''
                in [mk_anomaly AnomalyKindVersionJump packageRef now conf expl
                     [(''previous_version'', AStr (Original sv prev)),
                      (''current_version'', AStr (Original sv this_v)),
                      (''breaking_delta'', AInt (sint latestJump)),
                      (''historical_max_delta'', AInt (sint (maxOrZero historical))),
                      (''historical_jump_count'', AInt (int (length historical)))]]))))"

definition versionjump :: "('c, 'v) semver \<Rightarrow> detector" where
  "versionjump sv = \<lparr>Kind = AnomalyKindVersionJump, Detect = (\<lambda>\<rho> now stamp ref h. Inr (jump_Detect sv \<rho> now stamp ref h))\<rparr>"

section \<open>Facts\<close>

lemma set_emailSet: "set (emailSet ms) = email_key ` set ms - {[]}"
  by (auto simp: emailSet_def)

lemma maxOrZero_from_max: "sint (maxOrZero_from m xs) = Max (insert (sint m) (sint ` set xs))"
proof (induction m xs rule: maxOrZero_from.induct)
  case (2 m x xs)
  have "Max (insert (sint (if sint x > sint m then x else m)) (sint ` set xs)) =
      Max (insert (sint m) (insert (sint x) (sint ` set xs)))"
    by (cases "xs = []") (auto simp: max_def)
  with 2 show ?case by simp
qed simp

lemma maxOrZero_max: "sint (maxOrZero xs) = Max (insert 0 (sint ` set xs))"
  by (simp add: maxOrZero_def maxOrZero_from_max)

lemma oidc_index_None: "oidc_index i xs = None \<longleftrightarrow> (\<forall>x\<in>set xs. snap_PublishMethod x \<noteq> publishMethodOIDC)"
  by (induction i xs rule: oidc_index.induct) auto

lemma oidc_index_Some:
  "oidc_index i xs = Some j \<Longrightarrow> i \<le> j \<and> j < i + length xs \<and> snap_PublishMethod (xs ! (j - i)) = publishMethodOIDC"
proof (induction i xs arbitrary: j rule: oidc_index.induct)
  case (2 i x xs)
  show ?case
  proof (cases "snap_PublishMethod x = publishMethodOIDC")
    case False
    with 2 have "Suc i \<le> j \<and> j < Suc i + length xs \<and> snap_PublishMethod (xs ! (j - Suc i)) = publishMethodOIDC"
      by simp
    then show ?thesis by (auto simp: nth_Cons')
  qed (use 2 in auto)
qed simp

section \<open>Specifications and properties\<close>

definition addresses :: "publisher_snapshot \<Rightarrow> string set" where
  "addresses x = email_key ` set (snap_Maintainers x) - {[]}"

text \<open>How recently the latest version was published, graded by the two windows.\<close>

definition drift_level :: "time \<Rightarrow> time option \<Rightarrow> bool \<Rightarrow> string" where
  "drift_level now published firstSeen =
     (case published of
        None \<Rightarrow> ConfidenceLow
      | Some t \<Rightarrow> if Sub now t \<le> highWindow \<and> firstSeen then ConfidenceHigh
                  else if Sub now t \<le> mediumWindow then ConfidenceMedium else ConfidenceLow)"

lemma classifyConfidence_level:
  "fst (classifyConfidence now p es seen) = drift_level now p (\<forall>e\<in>set es. e \<notin> set seen)"
  by (auto simp: classifyConfidence_def drift_level_def list_all_iff Let_def split: option.splits)

lemma never_seen:
  assumes "[] \<notin> F"
  shows "(\<forall>e\<in>F. e \<notin> set (concat (map (\<lambda>x. map email_key (snap_Maintainers x)) hs))) \<longleftrightarrow>
    (\<forall>x\<in>set hs. addresses x \<inter> F = {})"
proof -
  have "addresses x \<inter> F = email_key ` set (snap_Maintainers x) \<inter> F" for x
    using assms by (auto simp: addresses_def)
  then show ?thesis by (simp only: set_concat set_map image_image) blast
qed

lemma set_emailSet_addresses: "set (emailSet (snap_Maintainers x)) = addresses x"
  by (simp add: set_emailSet addresses_def)

text \<open>
  C27. Maintainer drift. On a history with a baseline the detector raises nothing when every
  non-empty address of the newest snapshot, trimmed and in lower case, was on the one before;
  otherwise it raises exactly one anomaly of its kind for the package, stamped with the clock, whose
  confidence is high only when the latest version is at most seven days old and none of the new
  addresses occurs in any earlier snapshot, medium up to fourteen days, and low otherwise or when
  the publishing time is unknown. The new addresses are listed in the evidence, each once.
\<close>

theorem drift_exact:
  assumes "is_order \<rho>"
  shows "case drift_Detect \<rho> now stamp ref (latest # before # older) of
     [] \<Rightarrow> addresses latest \<subseteq> addresses before
   | a # rest \<Rightarrow> rest = [] \<and> \<not> addresses latest \<subseteq> addresses before \<and>
       anom_Kind a = AnomalyKindMaintainerEmailDrift \<and> anom_PackageRef a = ref \<and> anom_DetectedAt a = stamp \<and>
       anom_Confidence a = drift_level now (snap_LatestVersionPublishedAt latest)
         (\<forall>x\<in>set (before # older). addresses x \<inter> (addresses latest - addresses before) = {}) \<and>
       (\<exists>es. get (anom_Evidence a) ''new_emails'' = Some (AStrs es) \<and> distinct es \<and>
             set es = addresses latest - addresses before)"
proof -
  let ?fresh = "filter (\<lambda>e. e \<notin> set (emailSet (snap_Maintainers before)))
      (in_order \<rho> (emailSet (snap_Maintainers latest)))"
  let ?seen = "concat (map (\<lambda>x. map email_key (snap_Maintainers x)) (before # older))"
  have fresh: "set ?fresh = addresses latest - addresses before"
    using assms by (auto simp: set_emailSet_addresses)
  have seen: "(\<forall>e\<in>set ?fresh. e \<notin> set ?seen) \<longleftrightarrow>
      (\<forall>x\<in>set (before # older). addresses x \<inter> (addresses latest - addresses before) = {})"
    unfolding fresh by (rule never_seen) (simp add: addresses_def)
  have dist: "distinct ?fresh"
    using distinct_in_order [OF assms, of "\<lambda>e :: string. e"] 
    by (intro distinct_filter) (simp add: emailSet_def)
  have nil: "?fresh = [] \<longleftrightarrow> addresses latest \<subseteq> addresses before"
    using fresh by (metis Diff_eq_empty_iff set_empty)
  show ?thesis
  proof (cases "?fresh = []")
    case True
    then show ?thesis using nil by (simp add: drift_Detect_def)
  next
    case False
    obtain conf age where c: "classifyConfidence now (snap_LatestVersionPublishedAt latest) ?fresh ?seen = (conf, age)"
      by (cases "classifyConfidence now (snap_LatestVersionPublishedAt latest) ?fresh ?seen") auto
    have conf: "conf = drift_level now (snap_LatestVersionPublishedAt latest)
        (\<forall>x\<in>set (before # older). addresses x \<inter> (addresses latest - addresses before) = {})"
      using classifyConfidence_level [of now "snap_LatestVersionPublishedAt latest" ?fresh ?seen] c
      unfolding seen by simp
    obtain expl ev where d: "drift_Detect \<rho> now stamp ref (latest # before # older) =
        [mk_anomaly AnomalyKindMaintainerEmailDrift ref stamp conf expl ((''new_emails'', AStrs ?fresh) # ev)]"
      using False c by (simp add: drift_Detect_def Let_def)
    show ?thesis
      unfolding d using False nil dist fresh by (simp add: mk_anomaly_def get_def conf)
  qed
qed

definition with_emails :: "string list \<Rightarrow> publisher_snapshot" where
  "with_emails es = sample_snapshot\<lparr>
     snap_Maintainers := map (\<lambda>e. \<lparr>mt_Email = e, mt_Name = [], mt_Username = []\<rparr>) es,
     snap_LatestVersionPublishedAt := Some 3\<rparr>"

theorem drift_exact_witness:
  "case drift_Detect (\<lambda>n. [0..<n]) 5 5 ''npm:axios'' [with_emails ['' Eve@x ''], with_emails [''ann@x'']] of
     [] \<Rightarrow> False
   | a # rest \<Rightarrow> rest = [] \<and> anom_Confidence a = ConfidenceHigh"
proof -
  have "is_order (\<lambda>n. [0..<n])" by (simp add: is_order_def)
  note p = drift_exact [OF this, where now = 5 and stamp = 5 and ref = "''npm:axios''" and older = "[]" and
      latest = "with_emails ['' Eve@x '']" and before = "with_emails [''ann@x'']"]
  have a: "addresses (with_emails ['' Eve@x '']) = {''eve@x''}" "addresses (with_emails [''ann@x'']) = {''ann@x''}"
    by (code_simp, code_simp)
  have l: "drift_level 5 (Some 3) True = ConfidenceHigh" by code_simp
  show ?thesis
    using p l by (simp add: a split: list.splits) (simp add: with_emails_def)
qed

text \<open>
  C28. OIDC regression. On a history with a baseline the detector raises an anomaly exactly when the
  newest snapshot was published with a token and some earlier one through the trusted publisher; it
  is then one anomaly, of high confidence when the snapshot just before was the trusted one and of
  medium confidence otherwise, and the recorded index points at a trusted snapshot.
\<close>

theorem oidc_exact:
  "case oidc_Detect \<rho> now stamp ref (latest # before # older) of
     [] \<Rightarrow> snap_PublishMethod latest = publishMethodToken \<longrightarrow>
             (\<forall>x\<in>set (before # older). snap_PublishMethod x \<noteq> publishMethodOIDC)
   | a # rest \<Rightarrow> rest = [] \<and> snap_PublishMethod latest = publishMethodToken \<and>
       anom_Kind a = AnomalyKindOIDCPublishingRegression \<and> anom_PackageRef a = ref \<and> anom_DetectedAt a = now \<and>
       anom_Confidence a = (if snap_PublishMethod before = publishMethodOIDC then ConfidenceHigh else ConfidenceMedium) \<and>
       (\<exists>i. get (anom_Evidence a) ''oidc_seen_at_index'' = Some (AInt (int i)) \<and>
            1 \<le> i \<and> i \<le> Suc (length older) \<and>
            snap_PublishMethod ((latest # before # older) ! i) = publishMethodOIDC)"
proof (cases "snap_PublishMethod latest = publishMethodToken")
  case True
  show ?thesis
  proof (cases "oidc_index 1 (before # older)")
    case None
    then show ?thesis using True oidc_index_None [of 1 "before # older"]
      by (simp add: oidc_Detect_def)
  next
    case (Some i)
    note s = oidc_index_Some [OF Some]
    have "(latest # before # older) ! i = (before # older) ! (i - 1)" using s by (simp add: nth_Cons')
    then show ?thesis using True Some s
      by (simp add: oidc_Detect_def Let_def mk_anomaly_def get_def)
  qed
qed (simp add: oidc_Detect_def)

theorem oidc_exact_witness:
  "case oidc_Detect (\<lambda>n. [0..<n]) 5 5 ''npm:axios''
      [sample_snapshot, sample_snapshot\<lparr>snap_PublishMethod := publishMethodOIDC\<rparr>] of
     [] \<Rightarrow> False
   | a # rest \<Rightarrow> rest = [] \<and> anom_Confidence a = ConfidenceHigh"
  using oidc_exact [where \<rho> = "\<lambda>n. [0..<n]" and now = 5 and stamp = 5 and ref = "''npm:axios''" and older = "[]" and
      latest = sample_snapshot and before = "sample_snapshot\<lparr>snap_PublishMethod := publishMethodOIDC\<rparr>"]
  by (simp add: sample_snapshot_def publishMethodToken_def split: list.splits)

section \<open>Version jumps without overflow\<close>

lemma sint_double:
  fixes w :: int64
  assumes "0 \<le> sint w" "sint w < 2 ^ 62"
  shows "sint (2 * w) = 2 * sint w"
proof -
  have "sint (2 * w) = signed_take_bit 63 (2 * sint w)"
    using sint_word_ariths(3) [of 2 w] by simp
  also have "\<dots> = 2 * sint w"
    using assms by (intro signed_take_bit_int_eq_self) simp_all
  finally show ?thesis .
qed

lemma maxOrZero_bounds:
  assumes "\<forall>j\<in>set hs. sint j < 2 ^ 62"
  shows "0 \<le> sint (maxOrZero hs) \<and> sint (maxOrZero hs) < 2 ^ 62"
  using assms by (auto simp: maxOrZero_max)

lemma unusual_exact:
  assumes "\<forall>j\<in>set hs. sint j < 2 ^ 62"
  shows "isUnusualVsHistory l hs \<longleftrightarrow> 2 \<le> sint l \<and> (\<forall>j\<in>set hs. 2 * sint j < sint l)"
proof -
  have d: "sint (2 * maxOrZero hs) = 2 * Max (insert 0 (sint ` set hs))"
    using maxOrZero_bounds [OF assms] sint_double by (simp add: maxOrZero_max)
  have "2 * Max (insert 0 (sint ` set hs)) < sint l \<longleftrightarrow> Max (insert 0 ((*) 2 ` sint ` set hs)) < sint l"
    by (subst mono_Max_commute [of "(*) (2 :: int)"]) (auto simp: mono_def)
  also have "\<dots> \<longleftrightarrow> 0 < sint l \<and> (\<forall>j\<in>set hs. 2 * sint j < sint l)"
    by auto
  finally show ?thesis using d by (auto simp: isUnusualVsHistory_def Let_def)
qed

lemma jumps_of_length: "length (jumps_of sv vs) = length vs - 1"
  by (induction sv vs rule: jumps_of.induct) auto

text \<open>
  C29. Version jumps. When the breaking deltas of the history stay below \<^verbatim>\<open>2^62\<close>, so that doubling them
  does not wrap around, the detector raises an anomaly exactly when the history holds two distinct
  stable versions and the last delta is at least two and more than twice every earlier one. The
  anomaly is then unique, and it is of high confidence only after five earlier deltas of zero and
  a jump of at least five. (The comment on the source offers the two conditions as alternatives; the
  code requires both.)
\<close>

theorem jump_exact:
  assumes "\<forall>j\<in>set (butlast (jumps_of sv (extractVersionsOldestFirst sv history))). sint j < 2 ^ 62"
  shows "let deltas = jumps_of sv (extractVersionsOldestFirst sv history) in
     case jump_Detect sv \<rho> now stamp ref history of
       [] \<Rightarrow> deltas = [] \<or> sint (last deltas) < 2 \<or> (\<exists>j\<in>set (butlast deltas). sint (last deltas) \<le> 2 * sint j)
     | a # rest \<Rightarrow> rest = [] \<and> deltas \<noteq> [] \<and> 2 \<le> sint (last deltas) \<and>
         (\<forall>j\<in>set (butlast deltas). 2 * sint j < sint (last deltas)) \<and>
         anom_Kind a = AnomalyKindVersionJump \<and> anom_PackageRef a = ref \<and>
         (anom_Confidence a = ConfidenceHigh \<longleftrightarrow>
            5 \<le> length (filter (\<lambda>j. j = 0) (butlast deltas)) \<and> 5 \<le> sint (last deltas))"
proof -
  let ?vs = "extractVersionsOldestFirst sv history"
  let ?ds = "jumps_of sv ?vs"
  have empty: "length ?vs < 2 \<longleftrightarrow> ?ds = []"
    using jumps_of_length [of sv ?vs] by (cases ?ds) auto
  note u = unusual_exact [OF assms, of "last ?ds"]
  have high: "classify l hs = ConfidenceHigh \<longleftrightarrow> 5 \<le> length (filter (\<lambda>j. j = 0) hs) \<and> 5 \<le> sint l" for l hs
    by (simp add: classify_def ConfidenceHigh_def ConfidenceMedium_def ConfidenceLow_def Let_def)
  consider "?ds = []" | "?ds \<noteq> []" "\<not> isUnusualVsHistory (last ?ds) (butlast ?ds)"
    | "?ds \<noteq> []" "isUnusualVsHistory (last ?ds) (butlast ?ds)" by blast
  then show ?thesis
  proof cases
    case 1
    then show ?thesis using empty by (simp add: jump_Detect_def Let_def)
  next
    case 2
    then have "jump_Detect sv \<rho> now stamp ref history = []" using empty by (simp add: jump_Detect_def Let_def)
    then show ?thesis using u 2 by (auto simp: not_le not_less Let_def)
  next
    case 3
    then have "2 \<le> sint (last ?ds)" using u by simp
    then obtain expl ev where "jump_Detect sv \<rho> now stamp ref history =
        [mk_anomaly AnomalyKindVersionJump ref now (classify (last ?ds) (butlast ?ds)) expl ev]"
      using 3 empty by (simp add: jump_Detect_def Let_def)
    then show ?thesis using u 3 high by (simp add: mk_anomaly_def Let_def)
  qed
qed

definition digit_semver :: "(string, string) semver" where
  "digit_semver = \<lparr>NewConstraint = Some, NewVersion = Some, Check = (=),
     Major = (\<lambda>v. case v of [] \<Rightarrow> 0 | c # _ \<Rightarrow> word_of_int (of_char c - 48)),
     Minor = (\<lambda>_. 0), Prerelease = (\<lambda>_. []), VersionEqual = (=), Original = (\<lambda>v. v)\<rparr>"

theorem jump_exact_witness:
  "case jump_Detect digit_semver (\<lambda>n. [0..<n]) 5 5 ''npm:axios''
      [sample_snapshot\<lparr>snap_LatestVersion := ''9.0.0''\<rparr>, sample_snapshot] of
     [] \<Rightarrow> False
   | a # rest \<Rightarrow> rest = [] \<and> anom_Kind a = AnomalyKindVersionJump"
proof -
  let ?h = "[sample_snapshot\<lparr>snap_LatestVersion := ''9.0.0''\<rparr>, sample_snapshot]"
  have d: "jumps_of digit_semver (extractVersionsOldestFirst digit_semver ?h) = [8]" by code_simp
  have "sint (8 :: int64) = 8" by code_simp
  then show ?thesis
    using jump_exact [where sv = digit_semver and history = ?h and \<rho> = "\<lambda>n. [0..<n]" and now = 5 and
        stamp = 5 and ref = "''npm:axios''"]
    by (simp add: d Let_def split: list.splits)
qed

text \<open>The bound of the previous theorem is needed: doubling a delta of \<^verbatim>\<open>2^62\<close> gives a negative number.\<close>

lemma unusual_wraps: "isUnusualVsHistory 2 [2 ^ 62]"
  by code_simp

end
