(* ===== verification/Orchestrator.thy ===== *)
theory Orchestrator
  imports Detectors Frames
begin

text \<open>
  \<^verbatim>\<open>engine/anomaly/orchestrator.go\<close>: the periodic job that runs the detectors over the recorded publisher
  histories, stores the anomalies they raise and turns each into an IoC that goes through the ordinary
  matching path. \<^verbatim>\<open>ulid.MustNew\<close> without entropy is a parameter, the function from milliseconds to
  the printed identifier.
\<close>

section \<open>Configuration\<close>

record orchestrator_config =
  oc_Storage :: bool
  oc_EventBus :: bool
  oc_Detectors :: "detector list"
  oc_TickInterval :: duration
  oc_BatchSize :: int
  oc_HistoryDepth :: int

record orchestrator =
  o_bus :: bool
  o_detectors :: "detector list"
  o_tickInterval :: duration
  o_batchSize :: int
  o_historyDepth :: int

definition NewOrchestrator :: "orchestrator_config \<Rightarrow> string + orchestrator" where
  "NewOrchestrator cfg =
     (if \<not> oc_Storage cfg then Inl ''anomaly orchestrator: Storage is required''
      else if length (oc_Detectors cfg) = 0 then Inl ''anomaly orchestrator: at least one detector required''
      else Inr \<lparr>o_bus = oc_EventBus cfg, o_detectors = oc_Detectors cfg,
        o_tickInterval = (if oc_TickInterval cfg \<le> 0 then Hour else oc_TickInterval cfg),
        o_batchSize = (if oc_BatchSize cfg \<le> 0 then 200 else oc_BatchSize cfg),
        o_historyDepth = (if oc_HistoryDepth cfg \<le> 0 then 50 else oc_HistoryDepth cfg)\<rparr>)"

section \<open>From an anomaly to an IoC\<close>

fun ecosystemFromPackageRef :: "string \<Rightarrow> string" where
  "ecosystemFromPackageRef [] = []"
| "ecosystemFromPackageRef (c # cs) = (if c = CHR '':'' then [] else c # ecosystemFromPackageRef cs)"

definition severityFromConfidence :: "string \<Rightarrow> string" where
  "severityFromConfidence c =
     (if c = ConfidenceHigh then SeverityCritical
      else if c = ConfidenceMedium then SeverityHigh
      else SeverityMedium)"

definition ulid_Timestamp :: "time \<Rightarrow> int" where
  "ulid_Timestamp t = t div 1000000"

definition deterministicIoCID :: "(int \<Rightarrow> string) \<Rightarrow> time \<Rightarrow> string" where
  "deterministicIoCID mustNew tickTime = mustNew (ulid_Timestamp tickTime)"

definition ioc_of_anomaly :: "(int \<Rightarrow> string) \<Rightarrow> anomaly \<Rightarrow> string \<Rightarrow> time \<Rightarrow> ioc" where
  "ioc_of_anomaly mustNew a packageRef tickTime =
     \<lparr>ioc_ID = deterministicIoCID mustNew tickTime, ioc_Kind = IoCKindPublisherAnomaly,
      ioc_Severity = severityFromConfidence (anom_Confidence a),
      ioc_Ecosystem = ecosystemFromPackageRef packageRef,
      ioc_Source = ''rampart-anomaly-orchestrator'', ioc_PublishedAt = tickTime,
      ioc_Description = anom_Explanation a,
      ioc_PackageVersion = None, ioc_PackageRange = None, ioc_PublisherAnomaly = None,
      ioc_AnomalyBody = Some \<lparr>iba_Kind = anom_Kind a, iba_Confidence = anom_Confidence a,
        iba_Explanation = anom_Explanation a, iba_PackageRef = packageRef, iba_Evidence = anom_Evidence a\<rparr>\<rparr>"

definition emitIoC :: "('c, 'v) semver \<Rightarrow> env \<Rightarrow> 's storage \<Rightarrow> bool \<Rightarrow> (int \<Rightarrow> string) \<Rightarrow>
    anomaly \<Rightarrow> string \<Rightarrow> time \<Rightarrow> ('s, (submit_stage \<times> error) option) act" where
  "emitIoC sv env ops bus mustNew a packageRef tickTime = do {
     (res, err) \<leftarrow> Submit sv env ops bus (ioc_of_anomaly mustNew a packageRef tickTime);
     ret err
   }"

section \<open>One tick\<close>

text \<open>The counters of the summary line.\<close>

record tick_counts =
  tc_raised :: nat
  tc_skipped :: nat
  tc_failed :: nat

abbreviation zero_counts :: tick_counts where
  "zero_counts \<equiv> \<lparr>tc_raised = 0, tc_skipped = 0, tc_failed = 0\<rparr>"

abbreviation count_raised :: "tick_counts \<Rightarrow> tick_counts" where
  "count_raised n \<equiv> n\<lparr>tc_raised := Suc (tc_raised n)\<rparr>"

abbreviation count_skipped :: "tick_counts \<Rightarrow> tick_counts" where
  "count_skipped n \<equiv> n\<lparr>tc_skipped := Suc (tc_skipped n)\<rparr>"

abbreviation count_failed :: "tick_counts \<Rightarrow> tick_counts" where
  "count_failed n \<equiv> n\<lparr>tc_failed := Suc (tc_failed n)\<rparr>"

definition run_detector :: "env \<Rightarrow> detector \<Rightarrow> string \<Rightarrow> publisher_snapshot list \<Rightarrow>
    ('s, string + anomaly list) act" where
  "run_detector env det ref history = State (\<lambda>s.
     (Detect det (e_order env (sys_tick s)) (e_now env (sys_tick s)) (e_now env (Suc (sys_tick s))) ref history,
      s\<lparr>sys_tick := Suc (Suc (sys_tick s))\<rparr>))"

fun raise_all :: "('c, 'v) semver \<Rightarrow> env \<Rightarrow> 's storage \<Rightarrow> bool \<Rightarrow> (int \<Rightarrow> string) \<Rightarrow> time \<Rightarrow> string \<Rightarrow>
    anomaly list \<Rightarrow> tick_counts \<Rightarrow> ('s, tick_counts) act" where
  "raise_all sv env ops bus mustNew tickTime ref [] n = ret n"
| "raise_all sv env ops bus mustNew tickTime ref (a # as) n = do {
     let a' = a\<lparr>anom_DetectedAt := tickTime\<rparr>;
     saved \<leftarrow> write_call env (\<lambda>c. SaveAnomaly ops c a');
     case saved of
       Inl e \<Rightarrow> raise_all sv env ops bus mustNew tickTime ref as (count_failed n)
     | Inr _ \<Rightarrow> do {
         _ \<leftarrow> emitIoC sv env ops bus mustNew a' ref tickTime;
         raise_all sv env ops bus mustNew tickTime ref as (count_raised n)
       }
   }"

fun run_detectors :: "('c, 'v) semver \<Rightarrow> env \<Rightarrow> 's storage \<Rightarrow> bool \<Rightarrow> (int \<Rightarrow> string) \<Rightarrow> time \<Rightarrow> string \<Rightarrow>
    publisher_snapshot list \<Rightarrow> detector list \<Rightarrow> tick_counts \<Rightarrow> ('s, tick_counts) act" where
  "run_detectors sv env ops bus mustNew tickTime ref history [] n = ret n"
| "run_detectors sv env ops bus mustNew tickTime ref history (det # dets) n = do {
     found \<leftarrow> run_detector env det ref history;
     case found of
       Inl e \<Rightarrow> run_detectors sv env ops bus mustNew tickTime ref history dets (count_failed n)
     | Inr as \<Rightarrow> do {
         n' \<leftarrow> raise_all sv env ops bus mustNew tickTime ref as n;
         run_detectors sv env ops bus mustNew tickTime ref history dets n'
       }
   }"

fun tick_refs :: "('c, 'v) semver \<Rightarrow> env \<Rightarrow> 's storage \<Rightarrow> orchestrator \<Rightarrow> (int \<Rightarrow> string) \<Rightarrow> time \<Rightarrow>
    string list \<Rightarrow> tick_counts \<Rightarrow> ('s, error option \<times> tick_counts) act" where
  "tick_refs sv env ops orc mustNew tickTime [] n = ret (None, n)"
| "tick_refs sv env ops orc mustNew tickTime (ref # refs) n = do {
     stop \<leftarrow> ctx_Err env;
     case stop of
       Some e \<Rightarrow> ret (Some e, n)
     | None \<Rightarrow> do {
         h \<leftarrow> read_call env (\<lambda>c. GetPublisherHistory ops c ref (o_historyDepth orc));
         case h of
           Inl e \<Rightarrow> tick_refs sv env ops orc mustNew tickTime refs (count_failed n)
         | Inr history \<Rightarrow>
             if length history < 2 then tick_refs sv env ops orc mustNew tickTime refs (count_skipped n)
             else do {
               n' \<leftarrow> run_detectors sv env ops (o_bus orc) mustNew tickTime ref history (o_detectors orc) n;
               tick_refs sv env ops orc mustNew tickTime refs n'
             }
       }
   }"

definition orchestrator_Tick :: "('c, 'v) semver \<Rightarrow> env \<Rightarrow> 's storage \<Rightarrow> orchestrator \<Rightarrow> (int \<Rightarrow> string) \<Rightarrow>
    ('s, error option \<times> tick_counts) act" where
  "orchestrator_Tick sv env ops orc mustNew = do {
     tickTime \<leftarrow> time_Now env;
     refs \<leftarrow> read_call env (\<lambda>c. ListPackagesNeedingRefresh ops c (tickTime + Hour) (o_batchSize orc));
     case refs of
       Inl e \<Rightarrow> ret (Some e, zero_counts)
     | Inr rs \<Rightarrow>
         if length rs = 0 then ret (None, zero_counts)
         else tick_refs sv env ops orc mustNew tickTime rs zero_counts
   }"

section \<open>What the orchestrator relies on\<close>

text \<open>
  The orchestrator needs more of a backend than the handlers do: saving an anomaly succeeds, records its
  key and leaves everything the matching path reads alone, the other calls of the tick never forget
  a recorded key, and histories can be read.
\<close>

definition anomaly_key :: "anomaly \<Rightarrow> string \<times> string \<times> time" where
  "anomaly_key a = (anom_Kind a, anom_PackageRef a, anom_DetectedAt a)"

locale anomaly_storage = storage_contract +
  fixes recorded :: "'a \<Rightarrow> (string \<times> string \<times> time) set"
    and history :: "'a \<Rightarrow> string \<Rightarrow> int \<Rightarrow> publisher_snapshot list"
  assumes save_anomaly: "invar s \<Longrightarrow> c_err c = None \<Longrightarrow>
      (\<exists>k. fst (SaveAnomaly ops c a s) = Inr k) \<and> invar (snd (SaveAnomaly ops c a s)) \<and>
      abs (snd (SaveAnomaly ops c a s)) = abs s"
    and save_recorded: "invar s \<Longrightarrow> \<not> IsZero (anom_DetectedAt a) \<Longrightarrow>
      recorded (snd (SaveAnomaly ops c a s)) = insert (anomaly_key a) (recorded s)"
    and save_history: "history (snd (SaveAnomaly ops c a s)) = history s"
    and requests_frame: "frame ops (\<lambda>s. recorded s = R \<and> history s = H)"
    and list_refresh: "c_err c = None \<Longrightarrow> \<exists>refs. ListPackagesNeedingRefresh ops c t limit s = Inr refs"
    and get_history: "c_err c = None \<Longrightarrow> GetPublisherHistory ops c ref limit s = Inr (history s ref limit)"
begin

text \<open>
  The state between two steps of a tick: the engine is in good order, histories are untouched, and
  at least the keys \<open>R\<close> are recorded.
\<close>

definition ticking where
  "ticking sv env H R s \<longleftrightarrow> good sv env s \<and> history (sys_store s) = H \<and> R \<subseteq> recorded (sys_store s)"

lemma ticking_tick [simp]:
  "ticking sv env H R s \<Longrightarrow> sys_tick s \<le> t \<Longrightarrow> ticking sv env H R (s\<lparr>sys_tick := t\<rparr>)"
  by (simp add: ticking_def)

lemma emit_ticking:
  assumes "quiet env" and "ticking sv env H R s"
  shows "wp (emitIoC sv env ops bus mustNew a ref t) (\<lambda>err s'. err = None \<and> ticking sv env H R s') s"
proof -
  let ?i = "ioc_of_anomaly mustNew a ref t"
  have f: "wp (Submit sv env ops bus ?i)
      (\<lambda>_ s'. recorded (sys_store s') = recorded (sys_store s) \<and> history (sys_store s') = H) s"
    by (rule keeps_wp [OF frame.keeps_Submit [OF requests_frame]]) (use assms(2) in \<open>simp add: ticking_def\<close>)
  have g: "wp (Submit sv env ops bus ?i) (\<lambda>(res, err) s'. err = None \<and> good sv env s') s"
    by (rule orchestrator_submit_good [OF assms(1)]) (use assms(2) in \<open>simp add: ticking_def\<close>)
  have "wp (Submit sv env ops bus ?i) (\<lambda>(res, err). wp (ret err) (\<lambda>err s'. err = None \<and> ticking sv env H R s')) s"
    by (rule wp_mono [OF wp_conj [OF f g]]) (use assms(2) in \<open>auto simp: ticking_def\<close>)
  then show ?thesis
    unfolding emitIoC_def wp_bind by (rule wp_mono) (auto split: prod.splits)
qed

lemma save_ticking:
  assumes "quiet env" and "ticking sv env H R s" and "\<not> IsZero (anom_DetectedAt a)"
  shows "wp (write_call env (\<lambda>c. SaveAnomaly ops c a))
    (\<lambda>r s'. (\<exists>k. r = Inr k) \<and> ticking sv env H (insert (anomaly_key a) R) s') s"
  using assms save_anomaly [of "sys_store s" "call_at env (sys_tick s)" a]
  by (auto simp: ticking_def good_def ready_def ids_fresh_def save_history save_recorded [of "sys_store s"])

lemma raise_all_ticking:
  assumes "quiet env" and "\<not> IsZero t"
  shows "ticking sv env H R s \<Longrightarrow> wp (raise_all sv env ops bus mustNew t ref as n)
    (\<lambda>n' s'. n' = n\<lparr>tc_raised := tc_raised n + length as\<rparr> \<and>
      ticking sv env H (R \<union> (\<lambda>a. (anom_Kind a, anom_PackageRef a, t)) ` set as) s') s"
proof (induction as arbitrary: n R s)
  case (Cons a as)
  let ?a = "a\<lparr>anom_DetectedAt := t\<rparr>"
  let ?Q = "\<lambda>n' s'. n' = n\<lparr>tc_raised := tc_raised n + length (a # as)\<rparr> \<and>
      ticking sv env H (R \<union> (\<lambda>a. (anom_Kind a, anom_PackageRef a, t)) ` set (a # as)) s'"
  have loop: "wp (raise_all sv env ops bus mustNew t ref as (count_raised n)) ?Q s'"
    if "ticking sv env H (insert (anomaly_key ?a) R) s'" for s'
    by (rule wp_mono [OF Cons.IH [OF that]]) (auto simp: anomaly_key_def insert_commute)
  have "wp (emitIoC sv env ops bus mustNew ?a ref t)
      (\<lambda>_. wp (raise_all sv env ops bus mustNew t ref as (count_raised n)) ?Q) s'"
    if "ticking sv env H (insert (anomaly_key ?a) R) s'" for s'
    by (rule wp_mono [OF emit_ticking [OF assms(1) that]]) (rule loop, simp)
  then have "wp (write_call env (\<lambda>c. SaveAnomaly ops c ?a))
      (\<lambda>saved. wp (case saved of
          Inl e \<Rightarrow> raise_all sv env ops bus mustNew t ref as (count_failed n)
        | Inr _ \<Rightarrow> do {
            _ \<leftarrow> emitIoC sv env ops bus mustNew ?a ref t;
            raise_all sv env ops bus mustNew t ref as (count_raised n)
          }) ?Q) s"
    by (intro wp_mono [OF save_ticking [OF assms(1) Cons.prems]]) (use assms(2) in auto)
  then show ?case by (simp only: raise_all.simps Let_def wp_bind)
qed simp

text \<open>
  The keys a detector owes the store for one package: some run of it, with the clock and the map
  order of the moment, raised only recorded anomalies.
\<close>

definition reported where
  "reported R t ref h det \<longleftrightarrow> (\<exists>\<rho> now stamp. is_order \<rho> \<and>
     (\<forall>as. Detect det \<rho> now stamp ref h = Inr as \<longrightarrow> (\<forall>a\<in>set as. (anom_Kind a, anom_PackageRef a, t) \<in> R)))"

lemma reported_mono: "reported R t ref h det \<Longrightarrow> R \<subseteq> R' \<Longrightarrow> reported R' t ref h det"
  by (auto simp: reported_def) blast

lemma wp_run_detector [simp]:
  "wp (run_detector env det ref h) Q s \<longleftrightarrow>
     Q (Detect det (e_order env (sys_tick s)) (e_now env (sys_tick s)) (e_now env (Suc (sys_tick s))) ref h)
       (s\<lparr>sys_tick := Suc (Suc (sys_tick s))\<rparr>)"
  by (simp add: wp_def run_detector_def)

lemma ticking_mono: "ticking sv env H R s \<Longrightarrow> R' \<subseteq> R \<Longrightarrow> ticking sv env H R' s"
  by (auto simp: ticking_def)

lemma run_detectors_ticking:
  assumes "quiet env" and "\<not> IsZero t"
  shows "ticking sv env H R s \<Longrightarrow> wp (run_detectors sv env ops bus mustNew t ref h dets n)
    (\<lambda>n' s'. \<exists>R'. R \<subseteq> R' \<and> ticking sv env H R' s' \<and> (\<forall>det\<in>set dets. reported R' t ref h det)) s"
proof (induction dets arbitrary: n R s)
  case (Cons det dets)
  let ?s = "s\<lparr>sys_tick := Suc (Suc (sys_tick s))\<rparr>"
  let ?out = "Detect det (e_order env (sys_tick s)) (e_now env (sys_tick s)) (e_now env (Suc (sys_tick s))) ref h"
  have s: "ticking sv env H R ?s" using Cons.prems by simp
  have rep: "reported R' t ref h det"
    if "\<And>as. ?out = Inr as \<Longrightarrow> (\<lambda>a. (anom_Kind a, anom_PackageRef a, t)) ` set as \<subseteq> R'" for R'
    unfolding reported_def
    by (rule exI [of _ "e_order env (sys_tick s)"], rule exI [of _ "e_now env (sys_tick s)"],
        rule exI [of _ "e_now env (Suc (sys_tick s))"]) (use assms(1) that in \<open>auto simp: image_subset_iff\<close>)
  show ?case
  proof (cases ?out)
    case (Inl e)
    have "wp (run_detectors sv env ops bus mustNew t ref h dets (count_failed n))
        (\<lambda>n' s'. \<exists>R'. R \<subseteq> R' \<and> ticking sv env H R' s' \<and> (\<forall>d\<in>set (det # dets). reported R' t ref h d)) ?s"
    proof (rule wp_mono [OF Cons.IH [OF s]])
      fix r s'
      assume "\<exists>R'. R \<subseteq> R' \<and> ticking sv env H R' s' \<and> (\<forall>det\<in>set dets. reported R' t ref h det)"
      then obtain R' where "R \<subseteq> R'" "ticking sv env H R' s'" "\<forall>det\<in>set dets. reported R' t ref h det" by blast
      moreover have "reported R' t ref h det" by (rule rep) (simp add: Inl)
      ultimately show "\<exists>R'. R \<subseteq> R' \<and> ticking sv env H R' s' \<and> (\<forall>d\<in>set (det # dets). reported R' t ref h d)"
        by auto
    qed
    then show ?thesis using Inl by simp
  next
    case (Inr as)
    let ?R = "R \<union> (\<lambda>a. (anom_Kind a, anom_PackageRef a, t)) ` set as"
    have loop: "wp (run_detectors sv env ops bus mustNew t ref h dets n')
        (\<lambda>n' s'. \<exists>R'. R \<subseteq> R' \<and> ticking sv env H R' s' \<and> (\<forall>d\<in>set (det # dets). reported R' t ref h d)) s'"
      if "ticking sv env H ?R s'" for n' s'
    proof (rule wp_mono [OF Cons.IH [OF that]])
      fix r s''
      assume "\<exists>R'. ?R \<subseteq> R' \<and> ticking sv env H R' s'' \<and> (\<forall>det\<in>set dets. reported R' t ref h det)"
      then obtain R' where R': "?R \<subseteq> R'" "ticking sv env H R' s''" "\<forall>det\<in>set dets. reported R' t ref h det"
        by blast
      have "reported R' t ref h det" by (rule rep) (use R'(1) Inr in auto)
      with R' show "\<exists>R'. R \<subseteq> R' \<and> ticking sv env H R' s'' \<and> (\<forall>d\<in>set (det # dets). reported R' t ref h d)"
        by (intro exI [of _ R']) auto
    qed
    have "wp (raise_all sv env ops bus mustNew t ref as n)
        (\<lambda>n'. wp (run_detectors sv env ops bus mustNew t ref h dets n')
        (\<lambda>n' s'. \<exists>R'. R \<subseteq> R' \<and> ticking sv env H R' s' \<and> (\<forall>d\<in>set (det # dets). reported R' t ref h d))) ?s"
      by (rule wp_mono [OF raise_all_ticking [OF assms s]]) (rule loop, simp)
    then show ?thesis using Inr by simp
  qed
qed auto

lemma tick_refs_ticking:
  assumes "quiet env" and "\<not> IsZero t"
  shows "ticking sv env H R s \<Longrightarrow> wp (tick_refs sv env ops orc mustNew t refs n)
    (\<lambda>(err, n') s'. err = None \<and> (\<exists>R'. R \<subseteq> R' \<and> ticking sv env H R' s' \<and>
      (\<forall>ref\<in>set refs. 2 \<le> length (H ref (o_historyDepth orc)) \<longrightarrow>
        (\<forall>det\<in>set (o_detectors orc). reported R' t ref (H ref (o_historyDepth orc)) det)))) s"
proof (induction refs arbitrary: n R s)
  case (Cons ref refs)
  let ?s = "s\<lparr>sys_tick := Suc (Suc (sys_tick s))\<rparr>"
  let ?h = "H ref (o_historyDepth orc)"
  let ?ok = "\<lambda>R' ref. 2 \<le> length (H ref (o_historyDepth orc)) \<longrightarrow>
      (\<forall>det\<in>set (o_detectors orc). reported R' t ref (H ref (o_historyDepth orc)) det)"
  let ?Q = "\<lambda>(err, n' :: tick_counts) s'. err = None \<and> (\<exists>R'. R \<subseteq> R' \<and> ticking sv env H R' s' \<and> (\<forall>r\<in>set (ref # refs). ?ok R' r))"
  have h: "GetPublisherHistory ops (call_at env (Suc (sys_tick s))) ref (o_historyDepth orc) (sys_store s) = Inr ?h"
    using get_history assms(1) Cons.prems by (simp add: ticking_def)
  have s: "ticking sv env H R ?s" using Cons.prems by simp
  have loop: "wp (tick_refs sv env ops orc mustNew t refs n') ?Q s'"
    if "ticking sv env H R' s'" "R \<subseteq> R'" "?ok R' ref" for n' s' R'
  proof (rule wp_mono [OF Cons.IH [OF that(1)]], clarsimp)
    fix s'' R''
    assume "R' \<subseteq> R''" "ticking sv env H R'' s''" "\<forall>ref\<in>set refs. ?ok R'' ref"
    then show "\<exists>R'. R \<subseteq> R' \<and> ticking sv env H R' s'' \<and> ?ok R' ref \<and> (\<forall>ref\<in>set refs. ?ok R' ref)"
      using that(2,3) by (intro exI [of _ R'']) (blast intro: reported_mono)
  qed
  show ?case
  proof (cases "length ?h < 2")
    case True
    then have "wp (tick_refs sv env ops orc mustNew t refs (count_skipped n)) ?Q ?s"
      using s by (intro loop [of R]) auto
    then show ?thesis using True h assms(1) by (simp add: quiet_def)
  next
    case False
    have "wp (run_detectors sv env ops (o_bus orc) mustNew t ref ?h (o_detectors orc) n)
        (\<lambda>n'. wp (tick_refs sv env ops orc mustNew t refs n') ?Q) ?s"
      by (rule wp_mono [OF run_detectors_ticking [OF assms s]]) (elim exE conjE, rule loop, assumption+, blast)
    then show ?thesis using False h assms(1) by (simp add: quiet_def)
  qed
qed auto

lemma tick_ticking:
  assumes "quiet env" and "\<not> IsZero (e_now env (sys_tick s))" and "good sv env s"
  shows "wp (orchestrator_Tick sv env ops orc mustNew)
    (\<lambda>(err, n') s'. err = None \<and> good sv env s' \<and> history (sys_store s') = history (sys_store s) \<and>
      (\<exists>refs. ListPackagesNeedingRefresh ops (call_at env (Suc (sys_tick s)))
          (e_now env (sys_tick s) + Hour) (o_batchSize orc) (sys_store s) = Inr refs \<and>
        (\<forall>ref\<in>set refs. 2 \<le> length (history (sys_store s) ref (o_historyDepth orc)) \<longrightarrow>
          (\<forall>det\<in>set (o_detectors orc). reported (recorded (sys_store s')) (e_now env (sys_tick s)) ref
             (history (sys_store s) ref (o_historyDepth orc)) det)))) s"
proof -
  let ?t = "e_now env (sys_tick s)"
  let ?H = "history (sys_store s)"
  let ?s = "s\<lparr>sys_tick := Suc (Suc (sys_tick s))\<rparr>"
  obtain refs where r: "ListPackagesNeedingRefresh ops (call_at env (Suc (sys_tick s))) (?t + Hour)
      (o_batchSize orc) (sys_store s) = Inr refs"
    using list_refresh assms(1) by (metis quiet_call(1))
  have k: "ticking sv env ?H {} ?s" using assms(3) by (simp add: ticking_def)
  show ?thesis
  proof (cases "refs = []")
    case True
    then show ?thesis using r k by (simp add: orchestrator_Tick_def ticking_def)
  next
    case False
    have "wp (tick_refs sv env ops orc mustNew ?t refs zero_counts)
      (\<lambda>(err, n') s'. err = None \<and> good sv env s' \<and> history (sys_store s') = ?H \<and>
        (\<forall>ref\<in>set refs. 2 \<le> length (?H ref (o_historyDepth orc)) \<longrightarrow>
          (\<forall>det\<in>set (o_detectors orc). reported (recorded (sys_store s')) ?t ref (?H ref (o_historyDepth orc)) det))) ?s"
      by (rule wp_mono [OF tick_refs_ticking [OF assms(1,2) k]])
        (clarsimp simp: ticking_def, meson reported_mono)
    then show ?thesis using r False by (simp add: orchestrator_Tick_def)
  qed
qed

end

section \<open>The in-memory backend provides it\<close>

definition mem_recorded :: "store \<Rightarrow> (string \<times> string \<times> time) set" where
  "mem_recorded s = anomaly_key ` ran (get (anomalies s))"

definition mem_history :: "store \<Rightarrow> string \<Rightarrow> int \<Rightarrow> publisher_snapshot list" where
  "mem_history s ref limit =
     (case get (publisherHistory s) ref of
        None \<Rightarrow> []
      | Some all \<Rightarrow> cap limit (sort_slice (\<lambda>a b. snap_SnapshotAt a > snap_SnapshotAt b) all))"

lemma mem_save_recorded:
  assumes "store_ok s" and "\<not> IsZero (anom_DetectedAt a)"
  shows "mem_recorded (snd (mem_SaveAnomaly c a s)) = insert (anomaly_key a) (mem_recorded s)"
proof (cases "get (anomalyDedup s) (anomaly_key a)")
  case None
  have "get (anomalies s) (nextAnomalyID s + 1) = None"
  proof (rule ccontr)
    assume "get (anomalies s) (nextAnomalyID s + 1) \<noteq> None"
    then obtain b where "get (anomalies s) (nextAnomalyID s + 1) = Some b" by auto
    then have "nextAnomalyID s + 1 \<le> nextAnomalyID s"
      using assms(1) unfolding store_ok_def dedup_ok_def by blast
    then show False by simp
  qed
  then show ?thesis
    using None assms(2)
    by (simp add: mem_recorded_def mem_SaveAnomaly_def anomaly_key_def Let_def get_put_fun ran_map_upd)
next
  case (Some k)
  then have "\<exists>b. get (anomalies s) k = Some b \<and> anomaly_key b = anomaly_key a"
    using assms(1) by (fastforce simp: store_ok_def dedup_ok_def anomaly_key_def)
  then have "anomaly_key a \<in> mem_recorded s"
    unfolding mem_recorded_def by (metis image_eqI ranI)
  then show ?thesis using Some assms(2) by (simp add: mem_SaveAnomaly_def anomaly_key_def Let_def insert_absorb)
qed

lemma mem_save_frame:
  "publisherHistory (snd (mem_SaveAnomaly c a s)) = publisherHistory s"
  "mem_abs (snd (mem_SaveAnomaly c a s)) = mem_abs s"
  "\<exists>k. fst (mem_SaveAnomaly c a s) = with_err c k"
  by (auto simp: mem_SaveAnomaly_def mem_abs_def Let_def split: option.split)

interpretation anom: anomaly_storage memory store_ok mem_abs "\<lambda>t. t" mem_recorded mem_history
proof (unfold_locales, goal_cases)
  case (1 s c a)
  then show ?case
    using mem_save_frame(2,3) [of c a s] store_ok_SaveAnomaly [of s c a] by (auto simp: with_err_def)
next
  case (2 s a c)
  then show ?case using mem_save_recorded by simp
qed (simp_all add: mem_save_frame(1) mem_history_def mem_recorded_def mem_upsert_defs with_err_def
      mem_AppendRemediation_def mem_ListPackagesNeedingRefresh_def mem_GetPublisherHistory_def Let_def
      fun_eq_iff split: option.split)

section \<open>Properties\<close>


definition ticked_store :: store where
  "ticked_store = snd (mem_SavePublisherSnapshot plain_call (with_emails [''eve@x''])
     (snd (mem_SavePublisherSnapshot plain_call (with_emails [''ann@x'']) mem_New)))"

definition sample_orchestrator :: orchestrator where
  "sample_orchestrator = \<lparr>o_bus = True, o_detectors = [maintainerdrift, oidcregression], o_tickInterval = Hour,
     o_batchSize = 200, o_historyDepth = 50\<rparr>"


text \<open>
  C24. One IoC per tick. Whatever the environment answers and however many anomalies a tick raises,
  it adds at most one IoC identifier to the store: the identifier is a function of the tick's time only, because
  the entropy source of the ULID is empty, so the IoCs of one tick overwrite each other. (The comment
  on the identifier says that two anomalies of a tick get distinct random suffixes.)
\<close>

theorem one_ioc_per_tick:
  "wp (orchestrator_Tick sv env memory orc mustNew)
    (\<lambda>_ s'. dom (get (iocs (sys_store s'))) \<subseteq>
      insert (deterministicIoCID mustNew (e_now env (sys_tick s))) (dom (get (iocs (sys_store s))))) s"
proof -
  let ?t = "e_now env (sys_tick s)"
  let ?P = "\<lambda>st. dom (get (iocs st)) \<subseteq> insert (deterministicIoCID mustNew ?t) (dom (get (iocs (sys_store s))))"
  have f: "incident_frame memory ?P"
    by unfold_locales (simp add: mem_upsert_defs)
  have emit: "keeps ?P (emitIoC sv env memory b mustNew a ref ?t)" for b a ref
    unfolding emitIoC_def
    by (intro keeps_intros incident_frame.keeps_Submit_of [OF f])
      (auto simp: mem_upsert_defs ioc_of_anomaly_def get_put_fun)
  have save: "keeps ?P (write_call env (\<lambda>c. mem_SaveAnomaly c a))" for a
    by (rule keeps_write) (simp add: mem_SaveAnomaly_def Let_def split: option.split)
  have raise: "keeps ?P (raise_all sv env memory b mustNew ?t ref as n)" for b ref as n
    by (induction as arbitrary: n) (auto intro!: keeps_intros emit save simp: Let_def)
  have run: "keeps ?P (run_detector env det ref h)" for det ref h
    by (simp add: keeps_def wp_def run_detector_def)
  have dets: "keeps ?P (run_detectors sv env memory b mustNew ?t ref h ds n)" for b ref h ds n
    by (induction ds arbitrary: n) (auto intro!: keeps_intros raise run)
  have refs: "keeps ?P (tick_refs sv env memory orc mustNew ?t rs n)" for rs n
    by (induction rs arbitrary: n) (auto intro!: keeps_intros dets)
  have "wp (tick_refs sv env memory orc mustNew ?t rs n) (\<lambda>_ s'. ?P (sys_store s')) (s\<lparr>sys_tick := k\<rparr>)" for rs n k
    by (rule keeps_wp [OF refs]) auto
  then show ?thesis by (auto simp: orchestrator_Tick_def split: sum.split)
qed

end
