(* ===== verification/Settings.thy ===== *)
theory Settings
  imports Access Publisher Orchestrator
begin

text \<open>
  \<^verbatim>\<open>engine/internal/config\<close> and the composition root \<^verbatim>\<open>engine/internal/app\<close>: the configuration read from the process
  environment, and what \<^verbatim>\<open>New\<close> and the two \<^verbatim>\<open>start\<close> functions build from it. The process environment is a
  function from names to values. \<^verbatim>\<open>time.ParseDuration\<close> and the outcome of migrating and opening the database are
  parameters. Starting goroutines and serving are left to the jobs and requests of the root theory.
\<close>

section \<open>Configuration\<close>

record config =
  HTTPAddr :: string
  LogLevel :: string
  TrustEngine :: string
  ParserStrategy :: string
  NativeSocketPath :: string
  SSEHeartbeatInterval :: duration
  SSESubscriberBuffer :: int
  StorageBackend :: string
  DBDSN :: string
  DBMaxConns :: int
  AuthEnabled :: bool
  AuthSigningKey :: string
  AuthAlgorithm :: string
  AuthAudience :: string
  CORSOrigins :: "string list"
  CORSAllowAll :: bool
  PublisherEnabled :: bool
  PublisherRefreshInterval :: duration
  PublisherBatchSize :: int
  GithubToken :: string
  AnomalyEnabled :: bool
  AnomalyDetectInterval :: duration
  AnomalyBatchSize :: int

definition Default :: config where
  "Default = \<lparr>HTTPAddr = '':8080'', LogLevel = ''info'', TrustEngine = ''always_trust'', ParserStrategy = ''go'',
     NativeSocketPath = ''/var/run/rampart/native.sock'', SSEHeartbeatInterval = 15 * Second,
     SSESubscriberBuffer = 256, StorageBackend = ''postgres'', DBDSN = [], DBMaxConns = 10, AuthEnabled = False,
     AuthSigningKey = [], AuthAlgorithm = ''HS256'', AuthAudience = [], CORSOrigins = [], CORSAllowAll = True,
     PublisherEnabled = False, PublisherRefreshInterval = Hour, PublisherBatchSize = 50, GithubToken = [],
     AnomalyEnabled = False, AnomalyDetectInterval = Hour, AnomalyBatchSize = 200\<rparr>"

type_synonym environ = "string \<Rightarrow> string option"

definition Getenv :: "environ \<Rightarrow> string \<Rightarrow> string" where
  "Getenv env k = (case env k of None \<Rightarrow> [] | Some v \<Rightarrow> v)"

text \<open>
  \<^verbatim>\<open>fmt.Sscanf(v, "%d", &n)\<close> for an integer of the given width: leading blanks but no line feed, an optional
  sign, digits as far as they go. What follows the digits is not looked at.
\<close>

definition Sscanf_d :: "nat \<Rightarrow> string \<Rightarrow> int option" where
  "Sscanf_d bits s =
     (let t = dropWhile (\<lambda>c. isSpace c \<and> c \<noteq> CHR 0x0A) s;
          sgn = (if t \<noteq> [] \<and> hd t \<in> {CHR ''+'', CHR ''-''} then [hd t] else []);
          ds = takeWhile is_digit (drop (length sgn) t)
      in case Atoi (sgn @ ds) of
           None \<Rightarrow> None
         | Some n \<Rightarrow> if - (2 ^ (bits - 1)) \<le> n \<and> n < 2 ^ (bits - 1) then Some n else None)"

definition splitAndTrim :: "string \<Rightarrow> string list" where
  "splitAndTrim s = (if s = [] then [] else filter (\<lambda>t. t \<noteq> []) (map TrimSpace (Split s '','')))"

text \<open>The assignments of \<^verbatim>\<open>FromEnv\<close>: a string, a switch, a positive integer and a positive duration.\<close>

definition env_string :: "environ \<Rightarrow> string \<Rightarrow> (string \<Rightarrow> config \<Rightarrow> config) \<Rightarrow> config \<Rightarrow> config" where
  "env_string env k upd c = (if Getenv env k \<noteq> [] then upd (Getenv env k) c else c)"

definition truthy :: "string \<Rightarrow> bool" where
  "truthy v \<longleftrightarrow> ToLower v = ''true'' \<or> v = ''1''"

definition env_int :: "nat \<Rightarrow> environ \<Rightarrow> string \<Rightarrow> (int \<Rightarrow> config \<Rightarrow> config) \<Rightarrow> config \<Rightarrow> config" where
  "env_int bits env k upd =
     env_string env k (\<lambda>v c. case Sscanf_d bits v of Some n \<Rightarrow> if n > 0 then upd n c else c | None \<Rightarrow> c)"

definition env_duration :: "(string \<Rightarrow> duration option) \<Rightarrow> environ \<Rightarrow> string \<Rightarrow> (duration \<Rightarrow> config \<Rightarrow> config) \<Rightarrow>
    config \<Rightarrow> config" where
  "env_duration parse_duration env k upd =
     env_string env k (\<lambda>v c. case parse_duration v of Some d \<Rightarrow> if d > 0 then upd d c else c | None \<Rightarrow> c)"

definition env_origins :: "environ \<Rightarrow> config \<Rightarrow> config" where
  "env_origins env c =
     (case env ''RAMPART_CORS_ORIGINS'' of
        None \<Rightarrow> c
      | Some v \<Rightarrow> c\<lparr>CORSOrigins := splitAndTrim v, CORSAllowAll := False\<rparr>)"

definition FromEnv :: "(string \<Rightarrow> duration option) \<Rightarrow> environ \<Rightarrow> config" where
  "FromEnv parse_duration env =
     (let c = Default;
          c = env_string env ''RAMPART_PARSER_STRATEGY'' (\<lambda>v c. c\<lparr>ParserStrategy := v\<rparr>) c;
          c = env_string env ''RAMPART_NATIVE_SOCKET'' (\<lambda>v c. c\<lparr>NativeSocketPath := v\<rparr>) c;
          c = env_string env ''RAMPART_STORAGE'' (\<lambda>v c. c\<lparr>StorageBackend := v\<rparr>) c;
          c = env_string env ''RAMPART_DB_DSN'' (\<lambda>v c. c\<lparr>DBDSN := v\<rparr>) c;
          c = env_int 32 env ''RAMPART_DB_MAX_CONNS'' (\<lambda>n c. c\<lparr>DBMaxConns := n\<rparr>) c;
          c = env_string env ''RAMPART_AUTH_ENABLED'' (\<lambda>v c. c\<lparr>AuthEnabled := truthy v\<rparr>) c;
          c = env_string env ''RAMPART_AUTH_SIGNING_KEY'' (\<lambda>v c. c\<lparr>AuthSigningKey := v\<rparr>) c;
          c = env_string env ''RAMPART_AUTH_ALGORITHM'' (\<lambda>v c. c\<lparr>AuthAlgorithm := v\<rparr>) c;
          c = env_string env ''RAMPART_AUTH_AUDIENCE'' (\<lambda>v c. c\<lparr>AuthAudience := v\<rparr>) c;
          c = env_origins env c;
          c = env_string env ''RAMPART_CORS_ALLOW_ALL'' (\<lambda>v c. c\<lparr>CORSAllowAll := truthy v\<rparr>) c;
          c = env_string env ''RAMPART_PUBLISHER_ENABLED'' (\<lambda>v c. c\<lparr>PublisherEnabled := truthy v\<rparr>) c;
          c = env_duration parse_duration env ''RAMPART_PUBLISHER_REFRESH_INTERVAL'' (\<lambda>d c. c\<lparr>PublisherRefreshInterval := d\<rparr>) c;
          c = env_int 64 env ''RAMPART_PUBLISHER_BATCH_SIZE'' (\<lambda>n c. c\<lparr>PublisherBatchSize := n\<rparr>) c;
          c = env_string env ''GITHUB_TOKEN'' (\<lambda>v c. c\<lparr>GithubToken := v\<rparr>) c;
          c = env_string env ''RAMPART_ANOMALY_ENABLED'' (\<lambda>v c. c\<lparr>AnomalyEnabled := truthy v\<rparr>) c;
          c = env_duration parse_duration env ''RAMPART_ANOMALY_DETECT_INTERVAL'' (\<lambda>d c. c\<lparr>AnomalyDetectInterval := d\<rparr>) c;
          c = env_int 64 env ''RAMPART_ANOMALY_BATCH_SIZE'' (\<lambda>n c. c\<lparr>AnomalyBatchSize := n\<rparr>) c
      in c)"

section \<open>Wiring\<close>

datatype backend = Memory | PostgresDB string int

datatype boot_error = MissingDSN | MigrateFailed string | OpenFailed string | UnknownStorage string

definition openStorage :: "(string \<Rightarrow> string option) \<Rightarrow> (string \<Rightarrow> int \<Rightarrow> string option) \<Rightarrow> config \<Rightarrow> boot_error + backend" where
  "openStorage migrate pg_open cfg =
     (if StorageBackend cfg = [] \<or> StorageBackend cfg = ''memory'' then Inr Memory
      else if StorageBackend cfg = ''postgres'' then
        (if DBDSN cfg = [] then Inl MissingDSN
         else (case migrate (DBDSN cfg) of
                 Some e \<Rightarrow> Inl (MigrateFailed e)
               | None \<Rightarrow>
                   (case pg_open (DBDSN cfg) (DBMaxConns cfg) of
                      Some e \<Rightarrow> Inl (OpenFailed e)
                    | None \<Rightarrow> Inr (PostgresDB (DBDSN cfg) (DBMaxConns cfg)))))
      else Inl (UnknownStorage (StorageBackend cfg)))"

record app =
  a_cfg :: config
  a_storage :: backend
  a_events :: bus
  a_auth :: auth_options
  a_cors :: cors_options
  a_heartbeat :: duration
  a_addr :: string
  a_effectiveStrategy :: string

text \<open>The probe of the native parser is an argument, as in \<open>EffectiveStrategy\<close>.\<close>

definition New :: "(string \<Rightarrow> string option) \<Rightarrow> (string \<Rightarrow> int \<Rightarrow> string option) \<Rightarrow> bool option \<Rightarrow> config \<Rightarrow> boot_error + app" where
  "New migrate pg_open ping cfg =
     (case openStorage migrate pg_open cfg of
        Inl e \<Rightarrow> Inl e
      | Inr store \<Rightarrow>
          Inr \<lparr>a_cfg = cfg, a_storage = store, a_events = NewBus (SSESubscriberBuffer cfg),
            a_auth = SetAuth \<lparr>Enabled = AuthEnabled cfg, SigningKey = AuthSigningKey cfg, Algorithm = AuthAlgorithm cfg,
              Audience = AuthAudience cfg, ExemptPaths = DefaultExemptPaths\<rparr>,
            a_cors = DefaultCORSOptions\<lparr>AllowAll := CORSAllowAll cfg, Origins := CORSOrigins cfg\<rparr>,
            a_heartbeat = SSEHeartbeatInterval cfg, a_addr = HTTPAddr cfg,
            a_effectiveStrategy = EffectiveStrategy (ParserStrategy cfg) ping\<rparr>)"

text \<open>The scheduler and the orchestrator that \<^verbatim>\<open>Run\<close> starts, if any.\<close>

definition startPublisherScheduler :: "order \<Rightarrow> (ingestor \<Rightarrow> ingest) \<Rightarrow> (ingestor \<Rightarrow> ingest) \<Rightarrow> app \<Rightarrow> scheduler option" where
  "startPublisherScheduler \<rho> npm_of github_of a =
     (if \<not> PublisherEnabled (a_cfg a) then None
      else (let github = github_ingestor_New \<lparr>gic_APIBase = [], gic_Token = GithubToken (a_cfg a), gic_Timeout = 0, gic_UserAgent = []\<rparr>;
                ings = engine_ingestors
                  (npm_of (npm_ingestor_New \<lparr>nic_RegistryBase = [], nic_Timeout = 0, nic_UserAgent = []\<rparr>))
                  (github_of github) (github_of github)
            in case NewScheduler \<rho> \<lparr>sc_Storage = True, sc_Ingestors = ings,
                   sc_RefreshInterval = PublisherRefreshInterval (a_cfg a), sc_BatchSize = PublisherBatchSize (a_cfg a)\<rparr> of
                 Inl _ \<Rightarrow> None
               | Inr sch \<Rightarrow> Some sch))"

definition startAnomalyOrchestrator :: "('c, 'v) semver \<Rightarrow> app \<Rightarrow> orchestrator option" where
  "startAnomalyOrchestrator sv a =
     (if \<not> AnomalyEnabled (a_cfg a) then None
      else (case NewOrchestrator \<lparr>oc_Storage = True, oc_EventBus = True,
                   oc_Detectors = [maintainerdrift, oidcregression, versionjump sv],
                   oc_TickInterval = AnomalyDetectInterval (a_cfg a), oc_BatchSize = AnomalyBatchSize (a_cfg a),
                   oc_HistoryDepth = 0\<rparr> of
              Inl _ \<Rightarrow> None
            | Inr orch \<Rightarrow> Some orch))"

section \<open>Facts\<close>

lemma Sscanf_d_range: "Sscanf_d bits s = Some n \<Longrightarrow> - (2 ^ (bits - 1)) \<le> n \<and> n < 2 ^ (bits - 1)"
  by (auto simp: Sscanf_d_def Let_def split: option.splits if_splits)

text \<open>What the assignments keep: a predicate of the configuration, and the fields they do not set.\<close>

lemma env_string_keeps: "P c \<Longrightarrow> (\<And>v c. P c \<Longrightarrow> P (upd v c)) \<Longrightarrow> P (env_string env k upd c)"
  by (simp add: env_string_def)

lemma env_int_keeps:
  assumes "P c" and "\<And>n c. P c \<Longrightarrow> 0 < n \<Longrightarrow> n < 2 ^ (bits - 1) \<Longrightarrow> P (upd n c)"
  shows "P (env_int bits env k upd c)"
  unfolding env_int_def
  by (rule env_string_keeps) (use assms Sscanf_d_range in \<open>auto split: option.split\<close>)

lemma env_duration_keeps:
  "P c \<Longrightarrow> (\<And>d c. P c \<Longrightarrow> 0 < d \<Longrightarrow> P (upd d c)) \<Longrightarrow> P (env_duration parse_duration env k upd c)"
  unfolding env_duration_def by (rule env_string_keeps) (auto split: option.split)

lemma env_origins_keeps: "P c \<Longrightarrow> (\<And>v c. P c \<Longrightarrow> P (c\<lparr>CORSOrigins := v, CORSAllowAll := False\<rparr>)) \<Longrightarrow> P (env_origins env c)"
  by (simp add: env_origins_def split: option.split)

lemma field_kept:
  "(\<And>v c. F (upd v c) = F c) \<Longrightarrow> F (env_string env k upd c) = F c"
  "(\<And>n c. F (updn n c) = F c) \<Longrightarrow> F (env_int bits env k updn c) = F c"
  "(\<And>n c. F (updn n c) = F c) \<Longrightarrow> F (env_duration pd env k updn c) = F c"
  "(\<And>v c. F (c\<lparr>CORSOrigins := v, CORSAllowAll := False\<rparr>) = F c) \<Longrightarrow> F (env_origins env c) = F c"
  by (auto simp: env_string_def env_int_def env_duration_def env_origins_def split: option.split)

lemmas access_kept =
  field_kept [of AuthEnabled] field_kept [of AuthSigningKey] field_kept [of AuthAlgorithm] field_kept [of AuthAudience]
  field_kept [of CORSAllowAll] field_kept [of CORSOrigins]

lemma access_set:
  "AuthEnabled (env_string env k (\<lambda>v c. c\<lparr>AuthEnabled := f v\<rparr>) c) = (if Getenv env k = [] then AuthEnabled c else f (Getenv env k))"
  "AuthSigningKey (env_string env k (\<lambda>v c. c\<lparr>AuthSigningKey := v\<rparr>) c) = (if Getenv env k = [] then AuthSigningKey c else Getenv env k)"
  "AuthAlgorithm (env_string env k (\<lambda>v c. c\<lparr>AuthAlgorithm := v\<rparr>) c) = (if Getenv env k = [] then AuthAlgorithm c else Getenv env k)"
  "AuthAudience (env_string env k (\<lambda>v c. c\<lparr>AuthAudience := v\<rparr>) c) = (if Getenv env k = [] then AuthAudience c else Getenv env k)"
  "CORSAllowAll (env_string env k (\<lambda>v c. c\<lparr>CORSAllowAll := f v\<rparr>) c) = (if Getenv env k = [] then CORSAllowAll c else f (Getenv env k))"
  "CORSAllowAll (env_origins env c) = (if env ''RAMPART_CORS_ORIGINS'' = None then CORSAllowAll c else False)"
  "CORSOrigins (env_origins env c) = (case env ''RAMPART_CORS_ORIGINS'' of None \<Rightarrow> CORSOrigins c | Some v \<Rightarrow> splitAndTrim v)"
  by (auto simp: env_string_def env_origins_def split: option.split)

lemma New_Inr:
  assumes "New migrate pg_open ping cfg = Inr a"
  shows "a_cfg a = cfg" "a_events a = NewBus (SSESubscriberBuffer cfg)" "a_heartbeat a = SSEHeartbeatInterval cfg"
    "a_auth a = \<lparr>Enabled = AuthEnabled cfg, SigningKey = AuthSigningKey cfg, Algorithm = AuthAlgorithm cfg,
       Audience = AuthAudience cfg, ExemptPaths = DefaultExemptPaths\<rparr>"
    "a_cors a = DefaultCORSOptions\<lparr>AllowAll := CORSAllowAll cfg, Origins := CORSOrigins cfg\<rparr>" "a_addr a = HTTPAddr cfg"
  using assms by (auto simp: New_def SetAuth_def DefaultExemptPaths_def split: sum.splits)

definition in_bounds :: "config \<Rightarrow> bool" where
  "in_bounds c \<longleftrightarrow> 0 < DBMaxConns c \<and> DBMaxConns c < 2 ^ 31 \<and>
     0 < PublisherBatchSize c \<and> PublisherBatchSize c < 2 ^ 63 \<and> 0 < AnomalyBatchSize c \<and> AnomalyBatchSize c < 2 ^ 63 \<and>
     0 < PublisherRefreshInterval c \<and> 0 < AnomalyDetectInterval c \<and>
     0 < SSEHeartbeatInterval c \<and> 0 < SSESubscriberBuffer c"

lemmas bounds_kept = env_string_keeps [of in_bounds] env_int_keeps [of in_bounds] env_duration_keeps [of in_bounds]
  env_origins_keeps [of in_bounds]

lemma FromEnv_in_bounds: "in_bounds (FromEnv parse_duration env)"
  unfolding FromEnv_def Let_def
  by (intro bounds_kept) (simp_all add: in_bounds_def Default_def Second_def Hour_def)

lemma booted_loops:
  assumes "New migrate pg_open ping (FromEnv parse_duration env) = Inr a" and "is_order \<rho>"
  shows "map_option (\<lambda>s. (sch_refreshInterval s, sch_batchSize s)) (startPublisherScheduler \<rho> npm_of github_of a) =
      (if PublisherEnabled (a_cfg a) then Some (PublisherRefreshInterval (a_cfg a), PublisherBatchSize (a_cfg a)) else None)"
    and "map_option (\<lambda>o'. (o_tickInterval o', o_batchSize o')) (startAnomalyOrchestrator sv a) =
      (if AnomalyEnabled (a_cfg a) then Some (AnomalyDetectInterval (a_cfg a), AnomalyBatchSize (a_cfg a)) else None)"
proof -
  have b: "in_bounds (a_cfg a)" by (simp add: New_Inr [OF assms(1)] FromEnv_in_bounds)
  have keys: "find (\<lambda>p. \<not> HasSuffix p '':'') (keys_in \<rho> (engine_ingestors x y z)) = None" for x y z
    by (auto simp: find_None_iff set_keys_in [OF assms(2)] engine_ingestors_def HasSuffix_def)
  have ne: "engine_ingestors x y z \<noteq> []" for x y z by (simp add: engine_ingestors_def)
  show "map_option (\<lambda>s. (sch_refreshInterval s, sch_batchSize s)) (startPublisherScheduler \<rho> npm_of github_of a) =
      (if PublisherEnabled (a_cfg a) then Some (PublisherRefreshInterval (a_cfg a), PublisherBatchSize (a_cfg a)) else None)"
    using b by (simp add: startPublisherScheduler_def NewScheduler_def keys ne in_bounds_def Let_def)
  show "map_option (\<lambda>o'. (o_tickInterval o', o_batchSize o')) (startAnomalyOrchestrator sv a) =
      (if AnomalyEnabled (a_cfg a) then Some (AnomalyDetectInterval (a_cfg a), AnomalyBatchSize (a_cfg a)) else None)"
    using b by (simp add: startAnomalyOrchestrator_def NewOrchestrator_def in_bounds_def)
qed

definition npm_none :: "ingestor \<Rightarrow> ingest" where
  "npm_none i = (\<lambda>_ _. Inl (IngHttp HxServerFailure))"

section \<open>Properties\<close>

text \<open>
  C36. No environment breaks the engine's timers and limits. Whatever the environment variables hold, malformed, negative and
  huge numbers included, the heartbeat and the intervals are positive, the batch sizes and the pool size are positive and fit
  their types; and the scheduler and the orchestrator are built exactly when they are enabled, with the configured values.
\<close>

theorem boot_in_bounds:
  assumes "New migrate pg_open ping (FromEnv parse_duration env) = Inr a" and "is_order \<rho>"
  shows "in_bounds (a_cfg a) \<and> bufferSize (a_events a) = SSESubscriberBuffer (a_cfg a) \<and>
    map_option (\<lambda>s. (sch_refreshInterval s, sch_batchSize s)) (startPublisherScheduler \<rho> npm_of github_of a) =
      (if PublisherEnabled (a_cfg a) then Some (PublisherRefreshInterval (a_cfg a), PublisherBatchSize (a_cfg a)) else None) \<and>
    map_option (\<lambda>o'. (o_tickInterval o', o_batchSize o')) (startAnomalyOrchestrator sv a) =
      (if AnomalyEnabled (a_cfg a) then Some (AnomalyDetectInterval (a_cfg a), AnomalyBatchSize (a_cfg a)) else None)"
proof -
  note a = New_Inr [OF assms(1)]
  have b: "in_bounds (a_cfg a)" by (simp add: a FromEnv_in_bounds)
  then have "bufferSize (a_events a) = SSESubscriberBuffer (a_cfg a)" by (simp add: a NewBus_def in_bounds_def)
  with b booted_loops(1) [OF assms, of npm_of github_of] booted_loops(2) [OF assms, of sv] show ?thesis by simp
qed

theorem boot_in_bounds_witness:
  "let env = [''RAMPART_STORAGE'' \<mapsto> ''memory'', ''RAMPART_PUBLISHER_ENABLED'' \<mapsto> ''TRUE'',
         ''RAMPART_PUBLISHER_BATCH_SIZE'' \<mapsto> ''-7'', ''RAMPART_ANOMALY_BATCH_SIZE'' \<mapsto> ''9223372036854775808''] in
   (case New (\<lambda>_. None) (\<lambda>_ _. None) None (FromEnv (\<lambda>_. None) env) of
      Inl _ \<Rightarrow> False
    | Inr a \<Rightarrow> in_bounds (a_cfg a) \<and>
        map_option (\<lambda>s. (sch_refreshInterval s, sch_batchSize s))
          (startPublisherScheduler (\<lambda>n. [0..<n]) npm_none npm_none a) = Some (Hour, 50))"
proof -
  let ?env = "[''RAMPART_STORAGE'' \<mapsto> ''memory'', ''RAMPART_PUBLISHER_ENABLED'' \<mapsto> ''TRUE'',
    ''RAMPART_PUBLISHER_BATCH_SIZE'' \<mapsto> ''-7'', ''RAMPART_ANOMALY_BATCH_SIZE'' \<mapsto> ''9223372036854775808'']"
  let ?cfg = "FromEnv (\<lambda>_. None) ?env"
  have f: "StorageBackend ?cfg = ''memory''" "PublisherEnabled ?cfg" "PublisherBatchSize ?cfg = 50"
      "PublisherRefreshInterval ?cfg = Hour"
    by code_simp+
  obtain a where a: "New (\<lambda>_. None) (\<lambda>_ _. None) None ?cfg = Inr a" by (simp add: New_def openStorage_def f(1))
  show ?thesis
    using boot_in_bounds [OF a is_order_upt, of npm_none npm_none sample_semver] New_Inr(1) [OF a] f by (simp add: a)
qed



end
