(* ===== verification/Streaming.thy ===== *)
theory Streaming
  imports EventBus
begin

text \<open>
  The event stream from the bus to its readers: \<^verbatim>\<open>engine/internal/api/sse.go\<close> and \<^verbatim>\<open>Server.Stream\<close> on the
  engine's side, the receiver, the webhook sender and the handler of \<^verbatim>\<open>integrations/slack-notifier\<close> on the
  other.

  The connection is the bytes of the response body. A write may fail after any number of bytes, and the reader may
  see any part of the body, so that dropped connections are covered. The alternatives of the loop's
  \<^verbatim>\<open>select\<close> are an input of each turn: the request's context is done, the heartbeat ticks, or the channel is ready.
  JSON encoding is a parameter, with what the stream relies on as named hypotheses: an encoded value is one non-empty line,
  and the strings of an envelope can be read back from it.
\<close>

section \<open>Envelopes\<close>

datatype json = JString string | JInt int | JTime time | JStrings "string list"
  | JObject "(string \<times> json) list" | JArray "json list"

type_synonym envelope = "(string, json) gomap"

record json_lib =
  j_marshal :: "json \<Rightarrow> string option"
  j_unmarshal :: "string \<Rightarrow> envelope option"

text \<open>The engine publishes incidents with a non-empty list of components; an empty list stands for a nil slice.\<close>

definition toStreamEnvelope :: "event \<Rightarrow> envelope" where
  "toStreamEnvelope e =
     [(''type'', JString (EventType e)), (''occurredAt'', JTime (OccurredAt e))] @
     (case e of
        IncidentOpened i k refs _ \<Rightarrow>
          [(''incidentId'', JString i), (''iocId'', JString k)] @
          (if refs \<noteq> [] then [(''affectedComponentsSnapshot'', JStrings refs)] else [])
      | IncidentTransitioned i f t _ \<Rightarrow>
          [(''incidentId'', JString i), (''from'', JString f), (''to'', JString t)]
      | RemediationAdded i r k _ \<Rightarrow>
          [(''incidentId'', JString i), (''remediationId'', JString r), (''kind'', JString k)]
      | SBOMIngested b c _ \<Rightarrow> [(''sbomId'', JString b), (''componentRef'', JString c)]
      | IoCMatched i refs _ \<Rightarrow> [(''iocId'', JString i), (''matchedComponentRefs'', JStrings refs)])"

section \<open>The writer\<close>

record response =
  rs_header :: "(string, string) gomap"
  rs_status :: int
  rs_body :: string
  rs_writes :: nat
  rs_flushed :: nat

definition new_response :: response where
  "new_response = \<lparr>rs_header = [], rs_status = 0, rs_body = [], rs_writes = 0, rs_flushed = 0\<rparr>"

text \<open>For each write, how many bytes pass before it fails, if it fails.\<close>

type_synonym write_faults = "nat \<Rightarrow> nat option"

datatype sse_error = ErrMarshal | ErrWrite

abbreviation LF :: char where
  "LF \<equiv> CHR 0x0A"

definition Fprint :: "write_faults \<Rightarrow> string \<Rightarrow> response \<Rightarrow> sse_error option \<times> response" where
  "Fprint w bs r =
     (case w (rs_writes r) of
        None \<Rightarrow> (None, r\<lparr>rs_body := rs_body r @ bs, rs_writes := Suc (rs_writes r)\<rparr>)
      | Some n \<Rightarrow> (Some ErrWrite, r\<lparr>rs_body := rs_body r @ take n bs, rs_writes := Suc (rs_writes r)\<rparr>))"

definition Flush :: "response \<Rightarrow> response" where
  "Flush r = r\<lparr>rs_flushed := length (rs_body r)\<rparr>"

text \<open>The flag says whether the response writer can flush.\<close>

definition newSSEWriter :: "bool \<Rightarrow> response \<Rightarrow> response option" where
  "newSSEWriter flusher r =
     (if \<not> flusher then None
      else Some (Flush (r\<lparr>rs_header :=
        put ''X-Accel-Buffering'' ''no'' (put ''Connection'' ''keep-alive''
          (put ''Cache-Control'' ''no-cache'' (put ''Content-Type'' ''text/event-stream'' (rs_header r)))),
        rs_status := 200\<rparr>)))"

definition WriteEvent :: "json_lib \<Rightarrow> write_faults \<Rightarrow> string \<Rightarrow> string \<Rightarrow> envelope \<Rightarrow> response \<Rightarrow>
    sse_error option \<times> response" where
  "WriteEvent lib w eventType eventID data r =
     (case j_marshal lib (JObject data) of
        None \<Rightarrow> (Some ErrMarshal, r)
      | Some payload \<Rightarrow>
          (case (if eventID \<noteq> [] then Fprint w (''id: '' @ eventID @ [LF]) r else (None, r)) of
             (Some e, r1) \<Rightarrow> (Some e, r1)
           | (None, r1) \<Rightarrow>
               (case Fprint w (''event: '' @ eventType @ [LF]) r1 of
                  (Some e, r2) \<Rightarrow> (Some e, r2)
                | (None, r2) \<Rightarrow>
                    (case Fprint w (''data: '' @ payload @ [LF, LF]) r2 of
                       (Some e, r3) \<Rightarrow> (Some e, r3)
                     | (None, r3) \<Rightarrow> (None, Flush r3)))))"

definition WriteComment :: "write_faults \<Rightarrow> string \<Rightarrow> response \<Rightarrow> sse_error option \<times> response" where
  "WriteComment w txt r =
     (case Fprint w ('': '' @ txt @ [LF, LF]) r of
        (Some e, r') \<Rightarrow> (Some e, r')
      | (None, r') \<Rightarrow> (None, Flush r'))"

section \<open>The loop\<close>

datatype ready = CtxDone | TickC | ChanReady

text \<open>
  One turn of the loop of subscription \<open>k\<close>: whether the loop goes on, the event received, the bus and the response. A
  channel is ready when it holds an event or is closed.
\<close>

definition stream_turn :: "json_lib \<Rightarrow> write_faults \<Rightarrow> nat \<Rightarrow> ready \<Rightarrow> bus \<Rightarrow> response \<Rightarrow>
    bool \<times> event option \<times> bus \<times> response" where
  "stream_turn lib w k x b r =
     (case x of
        CtxDone \<Rightarrow> (False, None, b, r)
      | TickC \<Rightarrow> (case WriteComment w ''keep-alive'' r of (err, r') \<Rightarrow> (err = None, None, b, r'))
      | ChanReady \<Rightarrow>
          (case receive k b of
             None \<Rightarrow> (False, None, b, r)
           | Some (e, b') \<Rightarrow>
               (case WriteEvent lib w (EventType e) (AggregateID e) (toStreamEnvelope e) r of
                  (err, r') \<Rightarrow> (err = None, Some e, b', r'))))"

definition chan_ready :: "nat \<Rightarrow> bus \<Rightarrow> bool" where
  "chan_ready k b \<longleftrightarrow> (\<exists>ch. get (chans b) k = Some ch \<and> (ch_buf ch \<noteq> [] \<or> ch_closed ch))"

text \<open>
  The life of one stream: \<^verbatim>\<open>Server.Stream\<close> opens the response and subscribes, then \<^verbatim>\<open>streamLoop\<close> takes its turns while
  everything else goes on at the bus, and when the loop has ended the deferred cancel runs, which is one of the cancels
  below. The histories are those of the bus.
\<close>

inductive streaming :: "json_lib \<Rightarrow> write_faults \<Rightarrow> nat \<Rightarrow> bus \<Rightarrow> (nat \<Rightarrow> event list) \<Rightarrow> (nat \<Rightarrow> event list) \<Rightarrow>
    response \<Rightarrow> bool \<Rightarrow> bool" for lib w where
  opened: "bus_run b rcv off \<Longrightarrow> newSSEWriter True new_response = Some r \<Longrightarrow> Subscribe b = (k, b') \<Longrightarrow>
    streaming lib w k b' rcv off r True"
| subscribe: "streaming lib w k b rcv off r goes \<Longrightarrow> streaming lib w k (snd (Subscribe b)) rcv off r goes"
| cancelled: "streaming lib w k b rcv off r goes \<Longrightarrow> streaming lib w k (cancel k' b) rcv off r goes"
| publish: "streaming lib w k b rcv off r goes \<Longrightarrow> is_order \<rho> \<Longrightarrow>
    streaming lib w k (Publish \<rho> e b) rcv (\<lambda>k. if k < nextID b then off k @ [e] else off k) r goes"
| received: "streaming lib w k b rcv off r goes \<Longrightarrow> k' \<noteq> k \<Longrightarrow> receive k' b = Some (e, b') \<Longrightarrow>
    streaming lib w k b' (rcv(k' := rcv k' @ [e])) off r goes"
| turn: "streaming lib w k b rcv off r True \<Longrightarrow> (x = ChanReady \<Longrightarrow> chan_ready k b) \<Longrightarrow>
    stream_turn lib w k x b r = (goes, got, b', r') \<Longrightarrow>
    streaming lib w k b' (case got of None \<Rightarrow> rcv | Some e \<Rightarrow> rcv(k := rcv k @ [e])) off r' goes"

section \<open>The receiver\<close>

record frame =
  fr_ID :: string
  fr_EventType :: string
  fr_Data :: string

definition empty_frame :: frame where
  "empty_frame = \<lparr>fr_ID = [], fr_EventType = [], fr_Data = []\<rparr>"

definition read_field :: "frame \<Rightarrow> string \<Rightarrow> frame" where
  "read_field fr line =
     (if HasPrefix line '':'' then fr
      else if HasPrefix line ''id: '' then fr\<lparr>fr_ID := TrimPrefix line ''id: ''\<rparr>
      else if HasPrefix line ''event: '' then fr\<lparr>fr_EventType := TrimPrefix line ''event: ''\<rparr>
      else if HasPrefix line ''data: '' then fr\<lparr>fr_Data := TrimPrefix line ''data: ''\<rparr>
      else fr)"

text \<open>The frames passed to the handler, in order.\<close>

fun read_frames :: "frame \<Rightarrow> string list \<Rightarrow> frame list" where
  "read_frames fr [] = []"
| "read_frames fr (line # ls) =
     (if line = []
      then (if fr_EventType fr \<noteq> [] \<or> fr_Data fr \<noteq> [] then fr # read_frames empty_frame ls else read_frames fr ls)
      else read_frames (read_field fr line) ls)"

datatype stream_error = ErrTooLong | ErrRead string

text \<open>The body up to the point where reading it ends, and the error it ends with, if any.\<close>

definition ReadStream :: "string \<Rightarrow> string option \<Rightarrow> frame list \<times> stream_error option" where
  "ReadStream body rerr =
     (case scan_lines scanBufferMax body of (ls, ok) \<Rightarrow>
        (read_frames empty_frame ls, if \<not> ok then Some ErrTooLong else map_option ErrRead rerr))"

datatype connection = Refused string | Answered int string "string option"

datatype once_error = Unreachable string | UnexpectedStatus int | Broken stream_error

definition once :: "connection \<Rightarrow> frame list \<times> once_error option" where
  "once conn =
     (case conn of
        Refused e \<Rightarrow> ([], Some (Unreachable e))
      | Answered status body rerr \<Rightarrow>
          if status \<noteq> 200 then ([], Some (UnexpectedStatus status))
          else (case ReadStream body rerr of (fs, err) \<Rightarrow> (fs, map_option Broken err)))"

text \<open>
  The connections made until the context is done: the frames handled and the number of times the client waited a
  second before it connected again.
\<close>

fun receiver_Run :: "connection list \<Rightarrow> frame list \<times> nat" where
  "receiver_Run [] = ([], 0)"
| "receiver_Run (conn # conns) =
     (case once conn of (fs, err) \<Rightarrow>
        case receiver_Run conns of (fs', n) \<Rightarrow> (fs @ fs', if err = None then n else Suc n))"

section \<open>Slack messages\<close>

definition slack_message :: "string \<Rightarrow> string \<Rightarrow> envelope" where
  "slack_message incidentID iocID =
     [(''text'', JString ('':warning: rampart incident opened: *'' @ incidentID @ ''*'')),
      (''blocks'', JArray
        [JObject [(''type'', JString ''header''),
           (''text'', JObject [(''type'', JString ''plain_text''), (''text'', JString ''Supply-chain incident opened'')])],
         JObject [(''type'', JString ''section''),
           (''fields'', JArray
             [JObject [(''type'', JString ''mrkdwn''), (''text'', JString (''*Incident*'' @ [LF] @ ''`'' @ incidentID @ ''`''))],
              JObject [(''type'', JString ''mrkdwn''), (''text'', JString (''*IoC*'' @ [LF] @ ''`'' @ iocID @ ''`''))]])]])]"

text \<open>A type assertion to string that fails gives the empty string, as does an absent key or an undecodable body.\<close>

definition string_field :: "envelope \<Rightarrow> string \<Rightarrow> string" where
  "string_field ev k = (case get ev k of Some (JString s) \<Rightarrow> s | _ \<Rightarrow> [])"

definition BuildSlackPayload :: "json_lib \<Rightarrow> frame \<Rightarrow> envelope" where
  "BuildSlackPayload lib fr =
     (let ev = (case j_unmarshal lib (fr_Data fr) of None \<Rightarrow> [] | Some m \<Rightarrow> m);
          incidentID = (if string_field ev ''incidentId'' = [] then fr_ID fr else string_field ev ''incidentId'');
          iocID = (if string_field ev ''iocId'' = [] then ''(unknown)'' else string_field ev ''iocId'')
      in slack_message incidentID iocID)"

text \<open>
  The sender's requests: the body posted to the webhook, which answers with a status or not at all. The handler
  logs a failure and goes on.
\<close>

datatype send_error = ErrPayload | ErrPost | ErrWebhook int

definition Send :: "json_lib \<Rightarrow> (string \<Rightarrow> int option) \<Rightarrow> frame \<Rightarrow> string option \<times> send_error option" where
  "Send lib webhook fr =
     (case j_marshal lib (JObject (BuildSlackPayload lib fr)) of
        None \<Rightarrow> (None, Some ErrPayload)
      | Some body \<Rightarrow>
          (Some body,
           case webhook body of
             None \<Rightarrow> Some ErrPost
           | Some status \<Rightarrow> if status \<ge> 300 then Some (ErrWebhook status) else None))"

definition on_frame :: "json_lib \<Rightarrow> (string \<Rightarrow> int option) \<Rightarrow> frame \<Rightarrow> string list" where
  "on_frame lib webhook fr =
     (if fr_EventType fr \<noteq> ''incident.opened'' then []
      else (case fst (Send lib webhook fr) of None \<Rightarrow> [] | Some body \<Rightarrow> [body]))"

definition notifier :: "json_lib \<Rightarrow> (string \<Rightarrow> int option) \<Rightarrow> connection list \<Rightarrow> string list" where
  "notifier lib webhook conns = concat (map (on_frame lib webhook) (fst (receiver_Run conns)))"

section \<open>The bytes of a stream and the frames read from them\<close>

abbreviation CR :: char where
  "CR \<equiv> CHR 0x0D"

definition json_one_line :: "json_lib \<Rightarrow> bool" where
  "json_one_line lib \<longleftrightarrow> (\<forall>v p. j_marshal lib v = Some p \<longrightarrow> p \<noteq> [] \<and> LF \<notin> set p \<and> CR \<notin> set p)"

definition event_json :: "json_lib \<Rightarrow> event \<Rightarrow> string option" where
  "event_json lib e = j_marshal lib (JObject (toStreamEnvelope e))"

text \<open>An event whose lines the scanner of the receiver can hold, under an identifier without line breaks.\<close>

definition fits :: "json_lib \<Rightarrow> event \<Rightarrow> bool" where
  "fits lib e \<longleftrightarrow> LF \<notin> set (AggregateID e) \<and> CR \<notin> set (AggregateID e) \<and>
     length (AggregateID e) + 4 < scanBufferMax \<and>
     (\<forall>p. event_json lib e = Some p \<longrightarrow> length p + 6 < scanBufferMax)"

datatype sent = Beat | Ev event

fun lines_of :: "json_lib \<Rightarrow> sent \<Rightarrow> string list" where
  "lines_of lib Beat = ['': keep-alive'']"
| "lines_of lib (Ev e) = (if AggregateID e \<noteq> [] then [''id: '' @ AggregateID e] else []) @
     [''event: '' @ EventType e, ''data: '' @ the (event_json lib e)]"

definition ended :: "string list \<Rightarrow> string" where
  "ended ls = concat (map (\<lambda>l. l @ [LF]) ls)"

definition bytes_of :: "json_lib \<Rightarrow> sent \<Rightarrow> string" where
  "bytes_of lib x = ended (lines_of lib x) @ [LF]"

definition frame_of :: "json_lib \<Rightarrow> event \<Rightarrow> frame" where
  "frame_of lib e = \<lparr>fr_ID = AggregateID e, fr_EventType = EventType e, fr_Data = the (event_json lib e)\<rparr>"

fun events_of :: "sent list \<Rightarrow> event list" where
  "events_of [] = []"
| "events_of (Beat # xs) = events_of xs"
| "events_of (Ev e # xs) = e # events_of xs"

lemma events_of_append [simp]: "events_of (xs @ ys) = events_of xs @ events_of ys"
  by (induction xs rule: events_of.induct) simp_all

definition clean :: "string \<Rightarrow> bool" where
  "clean l \<longleftrightarrow> LF \<notin> set l \<and> CR \<notin> set l \<and> length l < scanBufferMax"

definition sendable :: "json_lib \<Rightarrow> sent \<Rightarrow> bool" where
  "sendable lib x \<longleftrightarrow> (case x of Beat \<Rightarrow> True | Ev e \<Rightarrow> event_json lib e \<noteq> None \<and> fits lib e)"

lemma type_clean: "EventType e \<noteq> [] \<and> LF \<notin> set (EventType e) \<and> CR \<notin> set (EventType e) \<and> length (EventType e) < 30"
  by (cases e) (simp_all add: EventType_def)

lemma lines_clean:
  assumes "json_one_line lib" and "sendable lib x" and "l \<in> set (lines_of lib x)"
  shows "clean l \<and> l \<noteq> []"
proof (cases x)
  case Beat
  then show ?thesis using assms(3) by (simp add: clean_def scanBufferMax_def)
next
  case (Ev e)
  then obtain p where p: "event_json lib e = Some p" using assms(2) by (auto simp: sendable_def)
  then have "LF \<notin> set p" "CR \<notin> set p" using assms(1) by (auto simp: json_one_line_def event_json_def)
  then show ?thesis
    using assms(2,3) Ev p type_clean [of e]
    by (auto simp: sendable_def fits_def clean_def scanBufferMax_def split: if_splits)
qed

lemma raw_lines_line: "LF \<notin> set l \<Longrightarrow> raw_lines acc (l @ LF # rest) = (acc @ l) # raw_lines [] rest"
  by (induction l arbitrary: acc) auto

lemma raw_lines_last: "LF \<notin> set l \<Longrightarrow> raw_lines acc l = (if acc @ l = [] then [] else [acc @ l])"
  by (induction l arbitrary: acc) auto

lemma raw_lines_ended:
  "(\<And>l. l \<in> set ls \<Longrightarrow> LF \<notin> set l) \<Longrightarrow> raw_lines [] (ended ls @ rest) = ls @ raw_lines [] rest"
  by (induction ls) (simp_all add: ended_def raw_lines_line)

text \<open>Of an incomplete frame the scanner delivers parts of its lines, and never the empty line that ends it.\<close>

lemma raw_lines_partial:
  "(\<And>l. l \<in> set ls \<Longrightarrow> LF \<notin> set l \<and> l \<noteq> []) \<Longrightarrow> n \<le> length (ended ls) \<Longrightarrow> x \<in> set (raw_lines [] (take n (ended ls))) \<Longrightarrow>
   x \<noteq> [] \<and> (\<exists>l \<in> set ls. prefix x l)"
proof (induction ls arbitrary: n)
  case (Cons l ls)
  have l: "LF \<notin> set l" "l \<noteq> []" using Cons.prems(1) by simp_all
  have e: "ended (l # ls) = l @ LF # ended ls" by (simp add: ended_def)
  show ?case
  proof (cases "n \<le> length l")
    case True
    moreover have "LF \<notin> set (take n l)" using l(1) by (meson in_set_takeD)
    ultimately show ?thesis
      using Cons.prems(3) by (auto simp: e raw_lines_last take_is_prefix split: if_splits)
  next
    case False
    then have "take n (ended (l # ls)) = l @ LF # take (n - Suc (length l)) (ended ls)"
      by (simp add: e take_Cons' )
    then have "x = l \<or> x \<in> set (raw_lines [] (take (n - Suc (length l)) (ended ls)))"
      using Cons.prems(3) by (auto simp: raw_lines_line l(1))
    moreover have "n - Suc (length l) \<le> length (ended ls)" using Cons.prems(2) by (simp add: e)
    ultimately show ?thesis using Cons.IH Cons.prems(1) l(2) by auto
  qed
qed (simp add: ended_def)

lemma scan_clean: "(\<And>l. l \<in> set ls \<Longrightarrow> clean l) \<Longrightarrow> scan_raw scanBufferMax ls = (ls, True)"
proof (induction ls)
  case (Cons l ls)
  have "CR \<notin> set l" "length l < scanBufferMax" using Cons.prems by (simp_all add: clean_def)
  then have "dropCR l = l" by (metis dropCR_def last_in_set)
  with Cons \<open>length l < _\<close> show ?case by simp
qed simp

lemma read_no_blank: "[] \<notin> set ls \<Longrightarrow> read_frames fr ls = []"
  by (induction ls arbitrary: fr) auto

lemma read_sent:
  assumes "json_one_line lib" and "sendable lib x"
  shows "read_frames empty_frame (lines_of lib x @ [] # rest) =
    map (frame_of lib) (events_of [x]) @ read_frames empty_frame rest"
proof (cases x)
  case (Ev e)
  then show ?thesis using type_clean [of e]
    by (simp add: read_field_def HasPrefix_def TrimPrefix_def empty_frame_def frame_of_def)
qed (simp add: read_field_def HasPrefix_def empty_frame_def)

definition body_of :: "json_lib \<Rightarrow> sent list \<Rightarrow> string" where
  "body_of lib xs = concat (map (bytes_of lib) xs)"

lemma body_of_simps [simp]:
  "body_of lib [] = []" "body_of lib (x # xs) = bytes_of lib x @ body_of lib xs"
  "body_of lib (xs @ ys) = body_of lib xs @ body_of lib ys"
  by (simp_all add: body_of_def)

text \<open>A body of complete frames, followed by part of one more: the complete frames are read.\<close>

lemma read_partial:
  assumes "json_one_line lib" and "sendable lib x" and "n \<le> length (ended (lines_of lib x))"
  shows "scan_raw scanBufferMax (raw_lines [] (take n (bytes_of lib x))) = (raw_lines [] (take n (bytes_of lib x)), True)"
    and "[] \<notin> set (raw_lines [] (take n (bytes_of lib x)))"
proof -
  have t: "take n (bytes_of lib x) = take n (ended (lines_of lib x))" using assms(3) by (simp add: bytes_of_def)
  have ls: "clean l" "LF \<notin> set l \<and> l \<noteq> []" if "l \<in> set (lines_of lib x)" for l
    using lines_clean [OF assms(1,2) that] by (simp_all add: clean_def)
  have parts: "y \<noteq> [] \<and> (\<exists>l \<in> set (lines_of lib x). prefix y l)"
    if "y \<in> set (raw_lines [] (take n (bytes_of lib x)))" for y
    using raw_lines_partial [OF _ assms(3), of y] ls(2) that by (auto simp: t)
  then show "[] \<notin> set (raw_lines [] (take n (bytes_of lib x)))" by blast
  have "clean y" if "y \<in> set (raw_lines [] (take n (bytes_of lib x)))" for y
    using parts [OF that] ls(1) prefix_length_le set_mono_prefix unfolding clean_def by (meson le_less_trans subsetD)
  then show "scan_raw scanBufferMax (raw_lines [] (take n (bytes_of lib x))) = (raw_lines [] (take n (bytes_of lib x)), True)"
    by (rule scan_clean)
qed

lemma scan_append:
  "scan_raw mx ls = (ls, True) \<Longrightarrow> scan_raw mx (ls @ ls') = (ls @ fst (scan_raw mx ls'), snd (scan_raw mx ls'))"
  by (induction ls) (auto split: if_splits prod.splits)

lemma ReadStream_alt:
  "ReadStream body rerr = (read_frames empty_frame (fst (scan_raw scanBufferMax (raw_lines [] body))),
     if \<not> snd (scan_raw scanBufferMax (raw_lines [] body)) then Some ErrTooLong else map_option ErrRead rerr)"
  by (simp add: ReadStream_def scan_lines_def split: prod.split)

lemma read_body:
  assumes "json_one_line lib" and "list_all (sendable lib) xs"
  shows "ReadStream (body_of lib xs @ rest) rerr =
    (map (frame_of lib) (events_of xs) @ fst (ReadStream rest rerr), snd (ReadStream rest rerr))"
  using assms(2)
proof (induction xs)
  case (Cons x xs)
  have lc: "clean l \<and> LF \<notin> set l" if "l \<in> set (lines_of lib x)" for l
    using lines_clean [OF assms(1) _ that] Cons.prems by (simp add: clean_def)
  then have cl: "scan_raw scanBufferMax (lines_of lib x @ [[]]) = (lines_of lib x @ [[]], True)"
    by (intro scan_clean) (auto simp: clean_def scanBufferMax_def)
  have "raw_lines [] (body_of lib (x # xs) @ rest) = (lines_of lib x @ [[]]) @ raw_lines [] (body_of lib xs @ rest)"
    using raw_lines_ended [of "lines_of lib x" "LF # body_of lib xs @ rest"] lc by (simp add: bytes_of_def)
  then have "ReadStream (body_of lib (x # xs) @ rest) rerr =
      (map (frame_of lib) (events_of [x]) @ fst (ReadStream (body_of lib xs @ rest) rerr),
       snd (ReadStream (body_of lib xs @ rest) rerr))"
    using read_sent [OF assms(1), of x] Cons.prems scan_append [OF cl, of "raw_lines [] (body_of lib xs @ rest)"]
    by (simp add: ReadStream_alt del: body_of_simps lines_of.simps)
  then show ?case using Cons events_of_append [of "[x]" xs] by simp
qed simp

lemma read_rest:
  assumes "json_one_line lib" and "sendable lib x"
  shows "\<exists>ys. prefix ys [x] \<and> ReadStream (take n (bytes_of lib x)) rerr =
    (map (frame_of lib) (events_of ys), map_option ErrRead rerr)"
proof (cases "n \<le> length (ended (lines_of lib x))")
  case True
  show ?thesis
    using read_partial [OF assms True] by (intro exI [of _ "[]"]) (simp add: ReadStream_def scan_lines_def read_no_blank)
next
  case False
  then have "take n (bytes_of lib x) = body_of lib [x] @ []" by (simp add: bytes_of_def)
  then have "ReadStream (take n (bytes_of lib x)) rerr = (map (frame_of lib) (events_of [x]), map_option ErrRead rerr)"
    using read_body [OF assms(1), of "[x]" "[]" rerr] assms(2) by (simp add: ReadStream_def scan_lines_def)
  then show ?thesis by blast
qed

text \<open>Wherever the body is cut, what is read is the frames of its first events, and no scanner error.\<close>

lemma read_cut:
  assumes "json_one_line lib"
  shows "list_all (sendable lib) xs \<Longrightarrow>
    \<exists>ys. prefix ys xs \<and> ReadStream (take n (body_of lib xs)) rerr = (map (frame_of lib) (events_of ys), map_option ErrRead rerr)"
proof (induction xs arbitrary: n)
  case (Cons x xs)
  show ?case
  proof (cases "n \<le> length (bytes_of lib x)")
    case True
    obtain ys where "prefix ys [x]"
        "ReadStream (take n (bytes_of lib x)) rerr = (map (frame_of lib) (events_of ys), map_option ErrRead rerr)"
      using read_rest [OF assms, of x n rerr] Cons.prems by auto
    with True show ?thesis by (intro exI [of _ ys]) (auto intro: prefix_order.trans)
  next
    case False
    then have t: "take n (body_of lib (x # xs)) = body_of lib [x] @ take (n - length (bytes_of lib x)) (body_of lib xs)"
      by simp
    obtain ys where ys: "prefix ys xs"
        "ReadStream (take (n - length (bytes_of lib x)) (body_of lib xs)) rerr = (map (frame_of lib) (events_of ys), map_option ErrRead rerr)"
      using Cons by auto
    have "ReadStream (take n (body_of lib (x # xs))) rerr = (map (frame_of lib) (events_of (x # ys)), map_option ErrRead rerr)"
      unfolding t using read_body [OF assms, of "[x]"] Cons.prems ys(2) by (cases x) simp_all
    then show ?thesis using ys(1) by (intro exI [of _ "x # ys"]) simp
  qed
qed (simp add: ReadStream_def scan_lines_def)

section \<open>What a stream has written\<close>

lemma Fprint_body:
  "\<exists>n. rs_body (snd (Fprint w bs r)) = rs_body r @ take n bs \<and> (fst (Fprint w bs r) = None \<longrightarrow> n = length bs)"
  by (cases "w (rs_writes r)") (auto simp: Fprint_def)

lemma Flush_body [simp]: "rs_body (Flush r) = rs_body r"
  by (simp add: Flush_def)

lemma WriteComment_body:
  assumes "WriteComment w ''keep-alive'' r = (err, r')"
  shows "\<exists>n. rs_body r' = rs_body r @ take n (bytes_of lib Beat) \<and> (err = None \<longrightarrow> n = length (bytes_of lib Beat))"
  using assms Fprint_body [of w "'': keep-alive'' @ [LF, LF]" r]
  by (auto simp: WriteComment_def bytes_of_def ended_def split: prod.splits option.splits)

lemma WriteEvent_body:
  assumes "WriteEvent lib w (EventType e) (AggregateID e) (toStreamEnvelope e) r = (err, r')"
  shows "\<exists>n. rs_body r' = rs_body r @ take n (bytes_of lib (Ev e)) \<and>
    (err = None \<longrightarrow> n = length (bytes_of lib (Ev e)) \<and> event_json lib e \<noteq> None) \<and> (event_json lib e = None \<longrightarrow> n = 0)"
proof (cases "event_json lib e")
  case None
  then show ?thesis using assms by (auto simp: WriteEvent_def event_json_def)
next
  case (Some p)
  define i where "i = (if AggregateID e \<noteq> [] then ''id: '' @ AggregateID e @ [LF] else [])"
  define t where "t = ''event: '' @ EventType e @ [LF]"
  define d where "d = ''data: '' @ p @ [LF, LF]"
  have b: "bytes_of lib (Ev e) = i @ t @ d" using Some by (simp add: bytes_of_def ended_def i_def t_def d_def)
  define w1 where "w1 = (if AggregateID e \<noteq> [] then Fprint w i r else (None, r))"
  have w1: "\<exists>n. rs_body (snd w1) = rs_body r @ take n i \<and> (fst w1 = None \<longrightarrow> n = length i)"
    using Fprint_body [of w i r] by (cases "AggregateID e = []") (simp add: w1_def i_def, simp add: w1_def)
  have run: "WriteEvent lib w (EventType e) (AggregateID e) (toStreamEnvelope e) r =
      (case w1 of (Some x, r1) \<Rightarrow> (Some x, r1) | (None, r1) \<Rightarrow>
        (case Fprint w t r1 of (Some x, r2) \<Rightarrow> (Some x, r2) | (None, r2) \<Rightarrow>
          (case Fprint w d r2 of (Some x, r3) \<Rightarrow> (Some x, r3) | (None, r3) \<Rightarrow> (None, Flush r3))))"
    using Some unfolding WriteEvent_def event_json_def w1_def i_def t_def d_def by simp
  obtain e1 r1 where w1_eq: "w1 = (e1, r1)" by force
  obtain n1 where n1: "rs_body r1 = rs_body r @ take n1 i" "e1 = None \<longrightarrow> n1 = length i" using w1 w1_eq by auto
  obtain e2 r2 where w2_eq: "Fprint w t r1 = (e2, r2)" by force
  obtain n2 where n2: "rs_body r2 = rs_body r1 @ take n2 t" "e2 = None \<longrightarrow> n2 = length t"
    using Fprint_body [of w t r1] w2_eq by auto
  obtain e3 r3 where w3_eq: "Fprint w d r2 = (e3, r3)" by force
  obtain n3 where n3: "rs_body r3 = rs_body r2 @ take n3 d" "e3 = None \<longrightarrow> n3 = length d"
    using Fprint_body [of w d r2] w3_eq by auto
  consider "e1 \<noteq> None" | "e1 = None" "e2 \<noteq> None" | "e1 = None" "e2 = None" by blast
  then show ?thesis
  proof cases
    case 1
    then have "err \<noteq> None" "rs_body r' = rs_body r @ take (min n1 (length i)) (i @ t @ d)"
      using assms n1 by (auto simp: run w1_eq min_def split: option.splits)
    then show ?thesis using Some unfolding b by (intro exI [of _ "min n1 (length i)"]) auto
  next
    case 2
    then have "err \<noteq> None" "rs_body r' = rs_body r @ take (length i + min n2 (length t)) (i @ t @ d)"
      using assms n1 n2 by (auto simp: run w1_eq w2_eq min_def split: option.splits)
    then show ?thesis using Some unfolding b by (intro exI [of _ "length i + min n2 (length t)"]) auto
  next
    case 3
    then have "err = e3" "rs_body r' = rs_body r @ take (length i + (length t + n3)) (i @ t @ d)"
      using assms n1 n2 n3 by (auto simp: run w1_eq w2_eq w3_eq split: option.splits)
    then show ?thesis using Some n3(2) unfolding b by (intro exI [of _ "length i + (length t + n3)"]) simp
  qed
qed

definition carries :: "json_lib \<Rightarrow> string \<Rightarrow> event list \<Rightarrow> bool \<Rightarrow> bool" where
  "carries lib body es goes \<longleftrightarrow>
     (\<exists>xs. body = body_of lib xs \<and> events_of xs = es \<and> (\<forall>e \<in> set es. event_json lib e \<noteq> None)) \<or>
     \<not> goes \<and> (\<exists>xs x n. body = body_of lib xs @ take n (bytes_of lib x) \<and> events_of (xs @ [x]) = es \<and>
       (\<forall>e \<in> set (events_of xs). event_json lib e \<noteq> None) \<and>
       (\<forall>e. x = Ev e \<and> event_json lib e = None \<longrightarrow> n = 0))"

lemma carries_step:
  assumes "carries lib body es True" and "body' = body @ take n (bytes_of lib x)"
    and "goes \<Longrightarrow> n = length (bytes_of lib x) \<and> (\<forall>e. x = Ev e \<longrightarrow> event_json lib e \<noteq> None)"
    and "\<forall>e. x = Ev e \<and> event_json lib e = None \<longrightarrow> n = 0"
  shows "carries lib body' (es @ events_of [x]) goes"
proof -
  obtain xs where xs: "body = body_of lib xs" "events_of xs = es" "\<forall>e \<in> set es. event_json lib e \<noteq> None"
    using assms(1) by (auto simp: carries_def)
  show ?thesis
  proof (cases goes)
    case True
    with assms(2,3) xs show ?thesis
      unfolding carries_def by (intro disjI1 exI [of _ "xs @ [x]"]) (cases x, auto)
  next
    case False
    with assms(2,4) xs show ?thesis
      unfolding carries_def by (intro disjI2 conjI exI [of _ xs] exI [of _ x] exI [of _ n]) auto
  qed
qed

lemma carries_stop: "carries lib body es True \<Longrightarrow> carries lib body es False"
  by (auto simp: carries_def)

lemma turn_carries:
  assumes "carries lib (rs_body r) es True" and "stream_turn lib w k x b r = (goes, got, b', r')"
  shows "carries lib (rs_body r') (es @ (case got of None \<Rightarrow> [] | Some e \<Rightarrow> [e])) goes"
proof (cases x)
  case CtxDone
  then show ?thesis using assms carries_stop by (auto simp: stream_turn_def)
next
  case TickC
  obtain err where w: "WriteComment w ''keep-alive'' r = (err, r')" and eq: "goes = (err = None)" "got = None"
    using assms(2) TickC by (auto simp: stream_turn_def split: prod.splits)
  obtain n where "rs_body r' = rs_body r @ take n (bytes_of lib Beat)" "err = None \<longrightarrow> n = length (bytes_of lib Beat)"
    using WriteComment_body [OF w, of lib] by blast
  then show ?thesis using carries_step [OF assms(1), of _ n Beat goes] eq by simp
next
  case ChanReady
  show ?thesis
  proof (cases "receive k b")
    case None
    then show ?thesis using assms ChanReady carries_stop by (auto simp: stream_turn_def)
  next
    case (Some eb)
    obtain e err where w: "WriteEvent lib w (EventType e) (AggregateID e) (toStreamEnvelope e) r = (err, r')"
        and eq: "goes = (err = None)" "got = Some e"
      using assms(2) ChanReady Some by (auto simp: stream_turn_def split: prod.splits)
    from WriteEvent_body [OF w] obtain n where "rs_body r' = rs_body r @ take n (bytes_of lib (Ev e)) \<and>
        (err = None \<longrightarrow> n = length (bytes_of lib (Ev e)) \<and> event_json lib e \<noteq> None) \<and> (event_json lib e = None \<longrightarrow> n = 0)" ..
    then show ?thesis using carries_step [OF assms(1), of _ n "Ev e" goes] eq by simp
  qed
qed

lemma turn_receives:
  "stream_turn lib w k x b r = (goes, got, b', r') \<Longrightarrow> (case got of None \<Rightarrow> b' = b | Some e \<Rightarrow> receive k b = Some (e, b'))"
  by (auto simp: stream_turn_def split: ready.splits option.splits prod.splits)

lemma streaming_inv:
  "streaming lib w k b rcv off r goes \<Longrightarrow> bus_run b rcv off \<and> carries lib (rs_body r) (rcv k) goes"
proof (induction rule: streaming.induct)
  case (opened b rcv off r k b')
  have "get (chans b) (nextID b) = None" using run_ok [OF opened(1)] by (auto simp: bus_ok_def)
  then have "rcv k = []" using run_delivered [OF opened(1), of k] opened(3) by (auto simp: delivered_def Subscribe_def Let_def)
  moreover have "rs_body r = []" using opened(2) by (auto simp: newSSEWriter_def new_response_def)
  ultimately have "carries lib (rs_body r) (rcv k) True" by (auto simp: carries_def intro: exI [of _ "[]"])
  moreover have "bus_run b' rcv off" using bus_run.subscribe [OF opened(1)] opened(3) by simp
  ultimately show ?case by simp
next
  case (turn k b rcv off r x goes got b' r')
  have "bus_run b' (case got of None \<Rightarrow> rcv | Some e \<Rightarrow> rcv(k := rcv k @ [e])) off"
    using turn.IH turn_receives [OF turn(3)] bus_run.received by (cases got) auto
  moreover have "carries lib (rs_body r') (rcv k @ (case got of None \<Rightarrow> [] | Some e \<Rightarrow> [e])) goes"
    using turn.IH turn_carries [OF _ turn(3)] by blast
  ultimately show ?case by (cases got) (simp_all del: fun_upd_apply add: fun_upd_same)
next
  case (received k b rcv off r goes k' e b')
  then have "bus_run b' (rcv(k' := rcv k' @ [e])) off" by (intro bus_run.received) simp_all
  with received show ?case by (metis fun_upd_other)
qed (simp_all add: bus_run.subscribe bus_run.cancelled bus_run.publish)

lemma sendable_all:
  "\<forall>e \<in> set (events_of xs). event_json lib e \<noteq> None \<Longrightarrow> \<forall>e \<in> set (events_of xs). fits lib e \<Longrightarrow> list_all (sendable lib) xs"
  by (induction xs rule: events_of.induct) (auto simp: sendable_def)

lemma sendable_json: "list_all (sendable lib) xs \<Longrightarrow> \<forall>e \<in> set (events_of xs). event_json lib e \<noteq> None"
  by (induction xs rule: events_of.induct) (auto simp: sendable_def)

lemma events_of_prefix: "prefix ys xs \<Longrightarrow> prefix (events_of ys) (events_of xs)"
  by (auto simp: prefix_def)

lemma read_carried:
  assumes "json_one_line lib" and "carries lib body es goes" and "\<forall>e \<in> set es. fits lib e"
  shows "\<exists>ds. prefix ds es \<and> (\<forall>e \<in> set ds. event_json lib e \<noteq> None) \<and>
      ReadStream (take n body) rerr = (map (frame_of lib) ds, map_option ErrRead rerr)"
    and "goes \<Longrightarrow> (\<forall>e \<in> set es. event_json lib e \<noteq> None) \<and> fst (ReadStream body rerr) = map (frame_of lib) es"
proof -
  have "\<exists>xs m. list_all (sendable lib) xs \<and> take n body = take m (body_of lib xs) \<and> prefix (events_of xs) es"
    using assms(2) unfolding carries_def
  proof (elim disjE exE conjE)
    fix xs
    assume "body = body_of lib xs" "events_of xs = es" "\<forall>e \<in> set es. event_json lib e \<noteq> None"
    then show ?thesis using assms(3) sendable_all by blast
  next
    fix xs x l
    assume b: "body = body_of lib xs @ take l (bytes_of lib x)" and e: "events_of (xs @ [x]) = es"
      and j: "\<forall>e \<in> set (events_of xs). event_json lib e \<noteq> None" "\<forall>e. x = Ev e \<and> event_json lib e = None \<longrightarrow> l = 0"
    have xs: "list_all (sendable lib) xs" using j(1) e assms(3) sendable_all by auto
    show ?thesis
    proof (cases "sendable lib x")
      case True
      have "body = take (length (body_of lib xs) + l) (body_of lib (xs @ [x]))" by (simp add: b)
      then have "take n body = take (min n (length (body_of lib xs) + l)) (body_of lib (xs @ [x]))" by (metis take_take)
      with True xs e show ?thesis by (intro exI [of _ "xs @ [x]"]) auto
    next
      case False
      then have "l = 0" using j(2) assms(3) e by (cases x) (auto simp: sendable_def)
      with xs e b show ?thesis by auto
    qed
  qed
  then obtain xs m where xs: "list_all (sendable lib) xs" "take n body = take m (body_of lib xs)" "prefix (events_of xs) es" by blast
  obtain ys where ys: "prefix ys xs" "ReadStream (take n body) rerr = (map (frame_of lib) (events_of ys), map_option ErrRead rerr)"
    using read_cut [OF assms(1) xs(1), of m rerr] xs(2) by auto
  have "prefix (events_of ys) es" using events_of_prefix [OF ys(1)] xs(3) prefix_order.trans by blast
  moreover have "\<forall>e \<in> set (events_of ys). event_json lib e \<noteq> None"
    using ys(1) xs(1) sendable_json by (auto simp: prefix_def)
  ultimately show "\<exists>ds. prefix ds es \<and> (\<forall>e \<in> set ds. event_json lib e \<noteq> None) \<and>
      ReadStream (take n body) rerr = (map (frame_of lib) ds, map_option ErrRead rerr)"
    using ys(2) by blast
next
  assume goes
  then obtain xs where "body = body_of lib xs" "events_of xs = es" "\<forall>e \<in> set es. event_json lib e \<noteq> None"
    using assms(2) by (auto simp: carries_def)
  then show "(\<forall>e \<in> set es. event_json lib e \<noteq> None) \<and> fst (ReadStream body rerr) = map (frame_of lib) es"
    using read_body [OF assms(1), of xs "[]" rerr] sendable_all assms(3) by (simp add: ReadStream_def scan_lines_def)
qed

section \<open>Notifications\<close>

definition forged_id :: "string \<Rightarrow> string" where
  "forged_id x = x @ LF # ''event: incident.opened'' @ [LF]"

definition reads_back :: "json_lib \<Rightarrow> event \<Rightarrow> bool" where
  "reads_back lib e \<longleftrightarrow> (\<forall>p. event_json lib e = Some p \<longrightarrow> (\<exists>m. j_unmarshal lib p = Some m \<and>
     (\<forall>key \<in> {''incidentId'', ''iocId''}. string_field m key = string_field (toStreamEnvelope e) key)))"

definition posted :: "json_lib \<Rightarrow> envelope \<Rightarrow> string list" where
  "posted lib m = (case j_marshal lib (JObject m) of None \<Rightarrow> [] | Some body \<Rightarrow> [body])"

definition notification :: "json_lib \<Rightarrow> event \<Rightarrow> string list" where
  "notification lib e =
     (case e of
        IncidentOpened i k _ _ \<Rightarrow> posted lib (slack_message i (if k = [] then ''(unknown)'' else k))
      | _ \<Rightarrow> [])"

lemma on_frame_event:
  assumes "event_json lib e \<noteq> None" and "reads_back lib e"
  shows "on_frame lib webhook (frame_of lib e) = notification lib e"
proof (cases e)
  case (IncidentOpened i k refs t)
  obtain p m where "event_json lib e = Some p" "j_unmarshal lib p = Some m"
      "string_field m ''incidentId'' = string_field (toStreamEnvelope e) ''incidentId''"
      "string_field m ''iocId'' = string_field (toStreamEnvelope e) ''iocId''"
    using assms by (auto simp: reads_back_def)
  moreover have "string_field (toStreamEnvelope e) ''incidentId'' = i" "string_field (toStreamEnvelope e) ''iocId'' = k"
    by (simp_all add: IncidentOpened string_field_def toStreamEnvelope_def get_def)
  ultimately have "BuildSlackPayload lib (frame_of lib e) = slack_message i (if k = [] then ''(unknown)'' else k)"
    by (simp add: BuildSlackPayload_def frame_of_def IncidentOpened AggregateID_def)
  moreover have "fr_EventType (frame_of lib e) = ''incident.opened''" by (simp add: IncidentOpened frame_of_def EventType_def)
  ultimately show ?thesis
    by (simp add: IncidentOpened notification_def on_frame_def Send_def posted_def split: option.split)
qed (simp_all add: on_frame_def notification_def frame_of_def EventType_def)

lemma notifier_once:
  "notifier lib webhook [Answered 200 body rerr] = concat (map (on_frame lib webhook) (fst (ReadStream body rerr)))"
  by (simp add: notifier_def once_def split: prod.split)

lemma concat_notifications:
  assumes "\<forall>e \<in> set es. event_json lib e \<noteq> None \<and> reads_back lib e"
  shows "concat (map (on_frame lib webhook) (map (frame_of lib) es)) = concat (map (notification lib) es)"
  using assms by (induction es) (simp_all add: on_frame_event)

text \<open>A JSON library small enough to compute with: it keeps the two names a message needs.\<close>

definition sample_json :: json_lib where
  "sample_json = \<lparr>j_marshal = (\<lambda>v. case v of
       JObject m \<Rightarrow> Some (filter (\<lambda>c. c \<noteq> LF \<and> c \<noteq> CR)
         (string_field m ''text'' @ string_field m ''incidentId'' @ '','' @ string_field m ''iocId''))
     | _ \<Rightarrow> Some ''0''),
     j_unmarshal = (\<lambda>s. map_option (\<lambda>(a, b). [(''incidentId'', JString a), (''iocId'', JString b)]) (Cut s '',''))\<rparr>"

lemma sample_json_one_line: "json_one_line sample_json"
  by (auto simp: json_one_line_def sample_json_def split: json.splits)

definition sample_events :: "event list" where
  "sample_events = [SBOMIngested ''s1'' ''web'' 1, IncidentOpened ''i1'' ''ioc1'' [''web''] 2]"

text \<open>A stream that has received and written both events, with a heartbeat in between.\<close>

lemma sample_streaming:
  "\<exists>b rcv off r. streaming sample_json (\<lambda>_. None) 0 b rcv off r True \<and> rcv 0 = sample_events \<and>
     rs_body r = body_of sample_json [Ev (hd sample_events), Beat, Ev (last sample_events)]"
proof -
  let ?ord = "\<lambda>n. [0..<n] :: nat list" and ?w = "\<lambda>_ :: nat. None :: nat option"
  let ?e = "hd sample_events" and ?f = "last sample_events"
  let ?b0 = "snd (Subscribe (NewBus 4))"
  obtain r0 where r0: "newSSEWriter True new_response = Some r0" by (simp add: newSSEWriter_def)
  then have body: "rs_body r0 = []" by (auto simp: newSSEWriter_def new_response_def)
  have "streaming sample_json ?w 0 ?b0 (\<lambda>_. []) (\<lambda>_. []) r0 True"
    by (rule streaming.opened [OF bus_run.start [of 4] r0]) (simp add: Subscribe_def NewBus_def)
  from streaming.publish [OF streaming.publish [OF this is_order_upt, of ?e] is_order_upt, of ?f]
  obtain off where run: "streaming sample_json ?w 0 (Publish ?ord ?f (Publish ?ord ?e ?b0)) (\<lambda>_. []) off r0 True" by blast
  have chan: "get (chans (Publish ?ord ?f (Publish ?ord ?e ?b0))) 0 = Some \<lparr>ch_buf = [?e, ?f], ch_closed = False\<rparr>"
    by (simp add: Publish_def Subscribe_def NewBus_def deliver_def)
  have step: "\<exists>b' r'. streaming sample_json ?w 0 b' (rcv(0 := rcv 0 @ [x])) off r' True \<and>
      rs_body r' = rs_body r @ bytes_of sample_json (Ev x) \<and> get (chans b') 0 = Some \<lparr>ch_buf = xs, ch_closed = False\<rparr>"
    if run: "streaming sample_json ?w 0 b rcv off r True"
      and c: "get (chans b) 0 = Some \<lparr>ch_buf = x # xs, ch_closed = False\<rparr>" and x: "AggregateID x \<noteq> []" for b rcv r x xs
  proof -
    obtain p where p: "event_json sample_json x = Some p" by (simp add: event_json_def sample_json_def)
    let ?b = "b\<lparr>chans := put 0 \<lparr>ch_buf = xs, ch_closed = False\<rparr> (chans b)\<rparr>"
    obtain r' where t: "stream_turn sample_json ?w 0 ChanReady b r = (True, Some x, ?b, r')"
        and "rs_body r' = rs_body r @ bytes_of sample_json (Ev x)"
      using p x c by (simp add: stream_turn_def receive_def WriteEvent_def Fprint_def event_json_def bytes_of_def ended_def)
    moreover have "streaming sample_json ?w 0 ?b (rcv(0 := rcv 0 @ [x])) off r' True"
      using streaming.turn [OF run _ t] c by (simp add: chan_ready_def del: fun_upd_apply)
    ultimately show ?thesis by (intro exI [of _ ?b] exI [of _ r']) (simp del: fun_upd_apply)
  qed
  have ids: "AggregateID ?e \<noteq> []" "AggregateID ?f \<noteq> []" by (simp_all add: sample_events_def AggregateID_def)
  define rcv1 :: "nat \<Rightarrow> event list" where "rcv1 = (\<lambda>_. [])(0 := [] @ [?e])"
  obtain b1 r1 where 1: "streaming sample_json ?w 0 b1 rcv1 off r1 True"
      "rs_body r1 = bytes_of sample_json (Ev ?e)" "get (chans b1) 0 = Some \<lparr>ch_buf = [?f], ch_closed = False\<rparr>"
    using step [OF run chan ids(1)] body unfolding rcv1_def by auto
  obtain r2 where t: "stream_turn sample_json ?w 0 TickC b1 r1 = (True, None, b1, r2)"
      and r2: "rs_body r2 = rs_body r1 @ bytes_of sample_json Beat"
    by (simp add: stream_turn_def WriteComment_def Fprint_def bytes_of_def ended_def)
  have 2: "streaming sample_json ?w 0 b1 rcv1 off r2 True" using streaming.turn [OF 1(1) _ t] by simp
  obtain b3 r3 where 3: "streaming sample_json ?w 0 b3 (rcv1(0 := rcv1 0 @ [?f])) off r3 True"
      "rs_body r3 = rs_body r2 @ bytes_of sample_json (Ev ?f)"
    using step [OF 2 1(3) ids(2)] by blast
  have "(rcv1(0 := rcv1 0 @ [?f])) 0 = sample_events" by (simp add: rcv1_def sample_events_def)
  then show ?thesis using 1(2) r2 3
    by (intro exI [of _ b3] exI [of _ "rcv1(0 := rcv1 0 @ [?f])"] exI [of _ off] exI [of _ r3]) (simp del: fun_upd_apply)
qed

lemma sample_fits: "\<forall>e \<in> set sample_events. fits sample_json e \<and> reads_back sample_json e"
  by (simp add: sample_events_def fits_def reads_back_def event_json_def sample_json_def AggregateID_def scanBufferMax_def
      toStreamEnvelope_def EventType_def string_field_def get_def Cut_def HasPrefix_def)

section \<open>Properties\<close>





text \<open>
  C19. An IoC's identifier can forge an incident. The identifier is not validated and goes to the stream verbatim, so that one
  with line breaks writes a frame of its own: publishing the match of an IoC named like this makes the notifier
  announce an incident of any name, although none was opened.
\<close>

theorem forged_incident:
  assumes "e = IoCMatched (forged_id x) refs t"
    and "json_one_line lib" and "j_unmarshal lib [] = None" and "event_json lib e = Some p"
    and "LF \<notin> set x" and "CR \<notin> set x" and "length x + 4 < scanBufferMax" and "length p + 6 < scanBufferMax"
  shows "ioc_Validate (i\<lparr>ioc_ID := forged_id x\<rparr>) = ioc_Validate i \<and>
    notifier lib webhook [Answered 200 (rs_body (snd (WriteEvent lib (\<lambda>_. None) (EventType e) (AggregateID e)
      (toStreamEnvelope e) new_response))) rerr] = posted lib (slack_message x ''(unknown)'')"
proof -
  let ?ls = "[''id: '' @ x, ''event: incident.opened'', [], ''event: ioc.matched'', ''data: '' @ p, []]"
  have p: "LF \<notin> set p" "CR \<notin> set p" using assms(2,4) by (auto simp: json_one_line_def event_json_def)
  have "rs_body (snd (WriteEvent lib (\<lambda>_. None) (EventType e) (AggregateID e) (toStreamEnvelope e) new_response)) = ended ?ls @ []"
    using assms(4) by (simp add: WriteEvent_def event_json_def Fprint_def new_response_def ended_def assms(1) forged_id_def
        AggregateID_def EventType_def)
  moreover have "raw_lines [] (ended ?ls @ []) = ?ls" using assms(5) p by (subst raw_lines_ended) auto
  moreover have "scan_raw scanBufferMax ?ls = (?ls, True)"
    by (rule scan_clean) (use assms(5-8) p in \<open>auto simp: clean_def scanBufferMax_def\<close>)
  moreover have "read_frames empty_frame ?ls =
      [\<lparr>fr_ID = x, fr_EventType = ''incident.opened'', fr_Data = []\<rparr>,
       \<lparr>fr_ID = [], fr_EventType = ''ioc.matched'', fr_Data = p\<rparr>]"
    by (simp add: read_field_def HasPrefix_def TrimPrefix_def empty_frame_def)
  ultimately have "notifier lib webhook [Answered 200 (rs_body (snd (WriteEvent lib (\<lambda>_. None) (EventType e) (AggregateID e)
      (toStreamEnvelope e) new_response))) rerr] = posted lib (slack_message x ''(unknown)'')"
    using assms(3) by (simp add: notifier_once ReadStream_alt on_frame_def Send_def posted_def BuildSlackPayload_def
        string_field_def split: option.split)
  moreover have "ioc_Validate (i\<lparr>ioc_ID := forged_id x\<rparr>) = ioc_Validate i"
    by (simp add: ioc_Validate_def Let_def split del: if_split cong: if_cong)
  ultimately show ?thesis by simp
qed

theorem forged_incident_witness:
  "notifier sample_json (\<lambda>_. Some 200) [Answered 200 (rs_body (snd (WriteEvent sample_json (\<lambda>_. None) ''ioc.matched''
     (forged_id ''ceo'') (toStreamEnvelope (IoCMatched (forged_id ''ceo'') [''web''] 3)) new_response))) None] =
   ['':warning: rampart incident opened: *ceo*,'']"
proof -
  let ?e = "IoCMatched (forged_id ''ceo'') [''web''] 3"
  have p: "event_json sample_json ?e = Some '',ceoevent: incident.opened''"
    by (simp add: event_json_def sample_json_def toStreamEnvelope_def string_field_def get_def forged_id_def)
  have "j_unmarshal sample_json [] = None" by (simp add: sample_json_def Cut_def)
  from forged_incident [OF refl sample_json_one_line this p, of _ "\<lambda>_. Some 200" None]
  have "notifier sample_json (\<lambda>_. Some 200) [Answered 200 (rs_body (snd (WriteEvent sample_json (\<lambda>_. None) (EventType ?e)
      (AggregateID ?e) (toStreamEnvelope ?e) new_response))) None] = posted sample_json (slack_message ''ceo'' ''(unknown)'')"
    by (simp add: scanBufferMax_def)
  moreover have "posted sample_json (slack_message ''ceo'' ''(unknown)'') = ['':warning: rampart incident opened: *ceo*,'']"
    by (simp add: posted_def slack_message_def sample_json_def string_field_def get_def)
  ultimately show ?thesis by (simp add: EventType_def AggregateID_def)
qed

end
