(* ===== verification/Cli.thy ===== *)
theory Cli
  imports Handlers Streaming Paths
begin

text \<open>
  The command line: \<^verbatim>\<open>cli/internal/commands\<close> and \<^verbatim>\<open>cli/internal/output\<close> (\<^verbatim>\<open>rampart scan\<close>), the \<^verbatim>\<open>parse-sbom\<close>
  subcommand of the engine (\<^verbatim>\<open>engine/internal/app\<close>) and the pre-commit hook. What they use of package \<^verbatim>\<open>flag\<close> is defined here. The file system is a function from paths to contents; identifiers and
  the time come from the environment as in the engine; the JSON encoder is a parameter.
\<close>

section \<open>Flags\<close>

datatype flag_error = BadFlagSyntax string | HelpRequested | FlagNotDefined string | FlagNeedsArgument string

text \<open>\<^verbatim>\<open>FlagSet.Parse\<close> for string flags: the values and the remaining arguments.\<close>

fun flag_Parse :: "string list \<Rightarrow> (string, string) gomap \<Rightarrow> string list \<Rightarrow> flag_error + ((string, string) gomap \<times> string list)" where
  "flag_Parse names vs [] = Inr (vs, [])"
| "flag_Parse names vs (s # args) =
     (if length s < 2 \<or> hd s \<noteq> CHR ''-'' then Inr (vs, s # args)
      else if s = ''--'' then Inr (vs, args)
      else (let name = (if s ! 1 = CHR ''-'' then drop 2 s else drop 1 s) in
            if name = [] \<or> hd name = CHR ''-'' \<or> hd name = CHR ''='' then Inl (BadFlagSyntax s)
            else (let (key, val) = (case Index (drop 1 name) ''='' of
                      None \<Rightarrow> (name, None)
                    | Some i \<Rightarrow> (take (i + 1) name, Some (drop (i + 2) name)))
                  in if key \<notin> set names
                     then Inl (if key = ''help'' \<or> key = ''h'' then HelpRequested else FlagNotDefined key)
                     else (case val of
                             Some v \<Rightarrow> flag_Parse names (put key v vs) args
                           | None \<Rightarrow>
                               (case args of
                                  [] \<Rightarrow> Inl (FlagNeedsArgument key)
                                | v # args' \<Rightarrow> flag_Parse names (put key v vs) args')))))"

definition flag_value :: "(string, string) gomap \<Rightarrow> string \<Rightarrow> string" where
  "flag_value vs k = (case get vs k of None \<Rightarrow> [] | Some v \<Rightarrow> v)"

section \<open>Output\<close>

record out_sbom =
  os_ID :: string
  os_ComponentRef :: string
  os_CommitSHA :: string
  os_Ecosystem :: string
  os_GeneratedAt :: "time option"
  os_SourceFormat :: string
  os_SourceBytes :: int
  os_Packages :: "package_version list"

definition package_line :: "package_version \<Rightarrow> string" where
  "package_line p = ''  '' @ pv_Name p @ ''@'' @ pv_Version p @
     (if length (pv_Scope p) > 0 then ''  ['' @ Join (pv_Scope p) '','' @ '']'' else [])"

definition text_Write :: "out_sbom \<Rightarrow> string" where
  "text_Write b =
     ''Ecosystem:      '' @ os_Ecosystem b @ [LF] @
     ''Source format:  '' @ os_SourceFormat b @ [LF] @
     ''Source bytes:   '' @ show_int (os_SourceBytes b) @ [LF] @
     (if os_ComponentRef b \<noteq> [] then ''Component ref:  '' @ os_ComponentRef b @ [LF] else []) @
     (if os_CommitSHA b \<noteq> [] then ''Commit SHA:     '' @ os_CommitSHA b @ [LF] else []) @
     ''Packages:       '' @ show_int (int (length (os_Packages b))) @ [LF, LF] @
     concat (map (\<lambda>p. package_line p @ [LF]) (os_Packages b))"

definition json_package :: "package_version \<Rightarrow> json" where
  "json_package p = JObject [(''Ecosystem'', JString (pv_Ecosystem p)), (''Name'', JString (pv_Name p)),
     (''Version'', JString (pv_Version p)), (''PURL'', JString (pv_PURL p)), (''Scope'', JStrings (pv_Scope p)),
     (''Integrity'', JString (pv_Integrity p))]"

definition json_Write :: "out_sbom \<Rightarrow> json" where
  "json_Write b = JObject (
     (if os_ID b \<noteq> [] then [(''ID'', JString (os_ID b))] else []) @
     (if os_ComponentRef b \<noteq> [] then [(''ComponentRef'', JString (os_ComponentRef b))] else []) @
     (if os_CommitSHA b \<noteq> [] then [(''CommitSHA'', JString (os_CommitSHA b))] else []) @
     [(''Ecosystem'', JString (os_Ecosystem b))] @
     (case os_GeneratedAt b of None \<Rightarrow> [] | Some t \<Rightarrow> [(''GeneratedAt'', JTime t)]) @
     [(''SourceFormat'', JString (os_SourceFormat b)), (''SourceBytes'', JInt (os_SourceBytes b)),
      (''Packages'', JArray (map json_package (os_Packages b)))])"

definition sarif_Write :: "out_sbom \<Rightarrow> json" where
  "sarif_Write b = JObject
     [(''version'', JString ''2.1.0''), (''$schema'', JString ''https://json.schemastore.org/sarif-2.1.0.json''),
      (''runs'', JArray [JObject
        [(''tool'', JObject [(''driver'', JObject [(''name'', JString ''rampart''), (''version'', JString ''0.1.0''),
            (''informationUri'', JString ''https://github.com/ugurcan-aytar/rampart''), (''rules'', JArray [])])]),
         (''results'', JArray []),
         (''properties'', JObject [(''scanned_ecosystem'', JString (os_Ecosystem b)),
            (''scanned_source_format'', JString (os_SourceFormat b)),
            (''scanned_package_count'', JInt (int (length (os_Packages b)))),
            (''scanned_component_ref'', JString (os_ComponentRef b))])]])]"

datatype formatter = Text | JSON | SARIF

definition output_Get :: "string \<Rightarrow> formatter option" where
  "output_Get format =
     (if format = [] \<or> format = ''text'' then Some Text
      else if format = ''json'' then Some JSON
      else if format = ''sarif'' then Some SARIF
      else None)"

section \<open>Scan\<close>

definition resolveEcosystem :: "string \<Rightarrow> string \<Rightarrow> string option" where
  "resolveEcosystem explicit path =
     (if explicit \<noteq> [] then
        (if explicit \<in> {''npm'', ''gomod'', ''cargo'', ''pypi'', ''maven''} then Some explicit else None)
      else (let base = Base path in
            if base = ''go.sum'' then Some ''gomod''
            else if base = ''Cargo.lock'' then Some ''cargo''
            else if base = ''poetry.lock'' \<or> base = ''uv.lock'' then Some ''pypi''
            else if base = ''pom.xml'' then Some ''maven''
            else if base = ''gradle.lockfile'' then Some ''maven''
            else if base = ''requirements.txt'' \<or> (HasPrefix base ''requirements'' \<and> HasSuffix base ''.txt'') then Some ''pypi''
            else Some ''npm''))"

definition pypiFormatFor :: "string \<Rightarrow> string" where
  "pypiFormatFor path =
     (if Base path = ''poetry.lock'' then ''poetry'' else if Base path = ''uv.lock'' then ''uv'' else ''requirements'')"

definition mavenFormatFor :: "string \<Rightarrow> string" where
  "mavenFormatFor path = (if Base path = ''gradle.lockfile'' then ''gradle-lock'' else ''pom'')"

record decoders =
  dec_npm :: "string \<Rightarrow> npm_lockfile option"
  dec_cargo :: "string \<Rightarrow> cargo_package list option"
  dec_pypi :: "string \<Rightarrow> (string \<times> string) list option"
  dec_pom :: "string \<Rightarrow> pomDoc option"

type_synonym files = "string \<Rightarrow> string option"

definition ReadSibling :: "files \<Rightarrow> string \<Rightarrow> string" where
  "ReadSibling fs path =
     (if Base path = ''go.sum'' then (case fs (Join2 (Dir path) ''go.mod'') of None \<Rightarrow> [] | Some b \<Rightarrow> b) else [])"

definition parse_as :: "decoders \<Rightarrow> call \<Rightarrow> files \<Rightarrow> string \<Rightarrow> string \<Rightarrow> string \<Rightarrow> parse_error + parsed_sbom" where
  "parse_as dec cl fs path eco content =
     (if eco = ''npm'' then npm_Parse (c_err cl) (c_order cl) (dec_npm dec) content
      else if eco = ''gomod'' then gomod_Parse (c_err cl) (c_order cl) content (ReadSibling fs path)
      else if eco = ''cargo'' then cargo_Parse (c_err cl) (dec_cargo dec) content
      else if eco = ''pypi'' then pypi_Parse (c_err cl) (dec_pypi dec) content (pypiFormatFor path)
      else maven_Parse (c_err cl) (dec_pom dec) content (mavenFormatFor path))"

definition ingested :: "env \<Rightarrow> parsed_sbom \<Rightarrow> string \<Rightarrow> string \<Rightarrow> sbom" where
  "ingested env parsed ref sha =
     fst (run_state (Ingest env parsed ref sha) \<lparr>sys_store = (), sys_bus = NewBus 1, sys_tick = 0\<rparr>)"

definition out_shape :: "env \<Rightarrow> string \<Rightarrow> string \<Rightarrow> parsed_sbom \<Rightarrow> out_sbom" where
  "out_shape env ref sha parsed =
     (let shape = \<lparr>os_ID = [], os_ComponentRef = [], os_CommitSHA = [], os_Ecosystem = ps_Ecosystem parsed,
            os_GeneratedAt = None, os_SourceFormat = ps_SourceFormat parsed, os_SourceBytes = ps_SourceBytes parsed,
            os_Packages = ps_Packages parsed\<rparr>
      in if ref \<noteq> [] \<or> sha \<noteq> [] then
           (let full = ingested env parsed ref sha in
            if sbom_ID full \<noteq> []
            then shape\<lparr>os_ID := sbom_ID full, os_ComponentRef := sbom_ComponentRef full,
                   os_CommitSHA := sbom_CommitSHA full, os_GeneratedAt := Some (sbom_GeneratedAt full)\<rparr>
            else shape)
         else shape)"

datatype scan_error = BadFlags flag_error | MissingPath | UnknownEcosystem string | OpenError string
  | ParseError string parse_error | UnknownOutputFormat string | EncodeError

definition scan_flags :: "string list" where
  "scan_flags = [''format'', ''component-ref'', ''commit-sha'', ''ecosystem'']"

definition Scan :: "env \<Rightarrow> (json \<Rightarrow> string option) \<Rightarrow> decoders \<Rightarrow> call \<Rightarrow> files \<Rightarrow> string list \<Rightarrow> scan_error + string" where
  "Scan env encode dec cl fs args =
     (case flag_Parse scan_flags [(''format'', ''text'')] args of
        Inl e \<Rightarrow> Inl (BadFlags e)
      | Inr (vs, []) \<Rightarrow> Inl MissingPath
      | Inr (vs, path # _) \<Rightarrow>
          (case resolveEcosystem (flag_value vs ''ecosystem'') path of
             None \<Rightarrow> Inl (UnknownEcosystem (flag_value vs ''ecosystem''))
           | Some eco \<Rightarrow>
               (case fs path of
                  None \<Rightarrow> Inl (OpenError path)
                | Some content \<Rightarrow>
                    (case parse_as dec cl fs path eco content of
                       Inl e \<Rightarrow> Inl (ParseError path e)
                     | Inr parsed \<Rightarrow>
                         (let shape = out_shape env (flag_value vs ''component-ref'') (flag_value vs ''commit-sha'') parsed in
                          case output_Get (flag_value vs ''format'') of
                            None \<Rightarrow> Inl (UnknownOutputFormat (flag_value vs ''format''))
                          | Some Text \<Rightarrow> Inr (text_Write shape)
                          | Some JSON \<Rightarrow> (case encode (json_Write shape) of None \<Rightarrow> Inl EncodeError | Some s \<Rightarrow> Inr s)
                          | Some SARIF \<Rightarrow> (case encode (sarif_Write shape) of None \<Rightarrow> Inl EncodeError | Some s \<Rightarrow> Inr s))))))"

datatype dispatch_error = MissingSubcommand | UnknownSubcommand string | ScanError scan_error

definition usage :: string where
  "usage = ''usage: rampart <subcommand> [args]'' @ [LF, LF] @ ''subcommands:'' @ [LF] @
     ''  scan    Parse a lockfile and print the SBOM (text | json | sarif)'' @ [LF] @
     ''  help    Print this message'' @ [LF]"

text \<open>The error, if any, and what goes to the standard output and the standard error.\<close>

definition Dispatch :: "(string list \<Rightarrow> scan_error + string) \<Rightarrow> string list \<Rightarrow> dispatch_error option \<times> string \<times> string" where
  "Dispatch scan args =
     (case args of
        [] \<Rightarrow> (Some MissingSubcommand, [], usage)
      | sub # rest \<Rightarrow>
          if sub = ''scan'' then (case scan rest of Inl e \<Rightarrow> (Some (ScanError e), [], []) | Inr out \<Rightarrow> (None, out, []))
          else if sub \<in> {''help'', ''-h'', ''--help''} then (None, usage, [])
          else (Some (UnknownSubcommand sub), [], usage))"

section \<open>The parse-sbom subcommand\<close>

definition defaultNativeSocket :: "(string \<Rightarrow> string option) \<Rightarrow> string" where
  "defaultNativeSocket getenv =
     (case getenv ''RAMPART_NATIVE_SOCKET'' of
        None \<Rightarrow> ''/tmp/rampart-native.sock''
      | Some s \<Rightarrow> if s \<noteq> [] then s else ''/tmp/rampart-native.sock'')"

definition json_parsed :: "parsed_sbom \<Rightarrow> json" where
  "json_parsed p = JObject [(''Ecosystem'', JString (ps_Ecosystem p)),
     (''Packages'', JArray (map json_package (ps_Packages p))), (''SourceFormat'', JString (ps_SourceFormat p)),
     (''SourceBytes'', JInt (ps_SourceBytes p))]"

definition json_sbom :: "sbom \<Rightarrow> json" where
  "json_sbom b = JObject [(''ID'', JString (sbom_ID b)), (''ComponentRef'', JString (sbom_ComponentRef b)),
     (''CommitSHA'', JString (sbom_CommitSHA b)), (''Ecosystem'', JString (sbom_Ecosystem b)),
     (''GeneratedAt'', JTime (sbom_GeneratedAt b)), (''Packages'', JArray (map json_package (sbom_Packages b))),
     (''SourceFormat'', JString (sbom_SourceFormat b)), (''SourceBytes'', JInt (sbom_SourceBytes b))]"

definition parse_sbom_flags :: "string list" where
  "parse_sbom_flags = [''parser'', ''component-ref'', ''commit-sha'', ''native-socket'']"

definition runParseSBOM :: "env \<Rightarrow> (string \<Rightarrow> string option) \<Rightarrow> (json \<Rightarrow> string option) \<Rightarrow> (string \<Rightarrow> parse_error + parsed_sbom) \<Rightarrow>
    (string \<Rightarrow> string \<Rightarrow> parse_error + parsed_sbom) \<Rightarrow> files \<Rightarrow> string list \<Rightarrow> scan_error + string" where
  "runParseSBOM env getenv encode goParser native fs args =
     (case flag_Parse parse_sbom_flags [(''parser'', ''go''), (''native-socket'', defaultNativeSocket getenv)] args of
        Inl e \<Rightarrow> Inl (BadFlags e)
      | Inr (vs, []) \<Rightarrow> Inl MissingPath
      | Inr (vs, path # _) \<Rightarrow>
          (case fs path of
             None \<Rightarrow> Inl (OpenError path)
           | Some content \<Rightarrow>
               (case strategy_Parse (flag_value vs ''parser'') goParser (Some (native (flag_value vs ''native-socket''))) content of
                  Inl e \<Rightarrow> Inl (ParseError path e)
                | Inr parsed \<Rightarrow>
                    (let ref = flag_value vs ''component-ref''; sha = flag_value vs ''commit-sha'';
                         doc = (if ref = [] \<and> sha = [] then json_parsed parsed else json_sbom (ingested env parsed ref sha))
                     in case encode doc of None \<Rightarrow> Inl EncodeError | Some s \<Rightarrow> Inr s))))"

section \<open>The pre-commit hook\<close>

datatype hook_error = HookRead | HookMalformed | HookVersion int

text \<open>The decoder reads the one field of \<^verbatim>\<open>minimalLockfile\<close>.\<close>

definition hook_check :: "(string \<Rightarrow> int option) \<Rightarrow> files \<Rightarrow> string \<Rightarrow> hook_error option" where
  "hook_check minimal fs path =
     (case fs path of
        None \<Rightarrow> Some HookRead
      | Some body \<Rightarrow>
          (case minimal body of
             None \<Rightarrow> Some HookMalformed
           | Some v \<Rightarrow> if v \<noteq> 3 then Some (HookVersion v) else None))"

text \<open>The exit status.\<close>

definition hook_main :: "(string \<Rightarrow> int option) \<Rightarrow> files \<Rightarrow> string list \<Rightarrow> int" where
  "hook_main minimal fs paths =
     (if length (filter (\<lambda>p. hook_check minimal fs p \<noteq> None) paths) > 0 then 1 else 0)"

section \<open>Facts\<close>

lemma parse_as_sorted:
  assumes "parse_as dec cl fs path eco content = Inr p" and "eco \<in> {''npm'', ''gomod'', ''cargo'', ''pypi'', ''maven''}"
  shows "ps_Ecosystem p = eco \<and> (\<forall>q \<in> set (ps_Packages p). pv_Ecosystem q = eco) \<and>
    sorted (map (\<lambda>q. (pv_Name q, pv_Version q)) (ps_Packages p))"
  using assms npm.parsed gomod.parsed cargo.parsed pypi.parsed maven.parsed
  by (auto simp: parse_as_def split: if_splits)

lemma resolveEcosystem_known: "resolveEcosystem explicit path = Some eco \<Longrightarrow> eco \<in> {''npm'', ''gomod'', ''cargo'', ''pypi'', ''maven''}"
  by (auto simp: resolveEcosystem_def Let_def split: if_splits)

lemma TrimRight_id: "s \<noteq> [] \<Longrightarrow> last s \<noteq> c \<Longrightarrow> TrimRight s c = s"
  by (simp add: TrimRight_def rev_dropWhile_fix)

lemma Base_append:
  assumes "CHR ''/'' \<notin> set name" and "name \<noteq> []"
  shows "Base (dir @ ''/'' @ name) = name"
proof -
  have "last name \<noteq> CHR ''/''" using assms by (metis last_in_set)
  then have "TrimRight (dir @ ''/'' @ name) CHR ''/'' = dir @ ''/'' @ name" using assms(2) by (simp add: TrimRight_id)
  moreover have "after_slash (dir @ ''/'' @ name) = name"
    using assms(1) by (simp add: after_slash_def takeWhile_append)
  ultimately show ?thesis using assms(2) by (simp add: Base_def)
qed

lemma show_nat_digits: "c \<in> set (show_nat n) \<Longrightarrow> \<exists>k :: nat. k < 10 \<and> c = char_of (48 + k)"
proof (induction n rule: show_nat.induct)
  case (1 n)
  show ?case
  proof (cases "n < 10")
    case True
    then have "c = char_of (48 + n)" using 1(2) by (subst (asm) show_nat.simps) simp
    with True show ?thesis by blast
  next
    case False
    then have "c \<in> set (show_nat (n div 10)) \<or> c = char_of (48 + n mod 10)"
      using 1(2) by (subst (asm) show_nat.simps) auto
    moreover have "n mod 10 < 10" by simp
    ultimately show ?thesis using 1(1) [OF False] by blast
  qed
qed

lemma show_int_no_LF: "LF \<notin> set (show_int i)"
proof -
  have "char_of (48 + k) \<noteq> LF" if "k < 10" for k :: nat
  proof
    assume "char_of (48 + k) = LF"
    then have "of_char (char_of (48 + k) :: char) = (10 :: nat)" by simp
    then show False using that by (simp add: of_char_of take_bit_eq_mod)
  qed
  then have "LF \<notin> set (show_nat n)" for n using show_nat_digits by metis
  then show ?thesis by (simp add: show_int_def)
qed

lemma Join_set: "c \<in> set (Join xs sep) \<Longrightarrow> c \<in> set sep \<or> (\<exists>x \<in> set xs. c \<in> set x)"
  by (induction xs sep rule: Join.induct) auto

definition one_line_package :: "package_version \<Rightarrow> bool" where
  "one_line_package p \<longleftrightarrow> LF \<notin> set (pv_Name p) \<and> LF \<notin> set (pv_Version p) \<and> (\<forall>x \<in> set (pv_Scope p). LF \<notin> set x)"

lemma package_line_no_LF: "one_line_package p \<Longrightarrow> LF \<notin> set (package_line p)"
  by (auto simp: one_line_package_def package_line_def dest!: Join_set)

definition header_lines :: "out_sbom \<Rightarrow> string list" where
  "header_lines b =
     [''Ecosystem:      '' @ os_Ecosystem b, ''Source format:  '' @ os_SourceFormat b,
      ''Source bytes:   '' @ show_int (os_SourceBytes b)] @
     (if os_ComponentRef b \<noteq> [] then [''Component ref:  '' @ os_ComponentRef b] else []) @
     (if os_CommitSHA b \<noteq> [] then [''Commit SHA:     '' @ os_CommitSHA b] else []) @
     [''Packages:       '' @ show_int (int (length (os_Packages b)))]"

lemma text_Write_ended: "text_Write b = ended (header_lines b @ [] # map package_line (os_Packages b))"
  by (simp add: text_Write_def header_lines_def ended_def comp_def)

definition one_line_sbom :: "out_sbom \<Rightarrow> bool" where
  "one_line_sbom b \<longleftrightarrow> LF \<notin> set (os_Ecosystem b) \<and> LF \<notin> set (os_SourceFormat b) \<and> LF \<notin> set (os_ComponentRef b) \<and>
     LF \<notin> set (os_CommitSHA b) \<and> (\<forall>p \<in> set (os_Packages b). one_line_package p)"

lemma text_lines:
  assumes "one_line_sbom b"
  shows "raw_lines [] (text_Write b) = header_lines b @ [] # map package_line (os_Packages b)"
proof -
  have "LF \<notin> set l" if "l \<in> set (header_lines b @ [] # map package_line (os_Packages b))" for l
    using that assms show_int_no_LF package_line_no_LF
    by (auto simp: header_lines_def one_line_sbom_def split: if_splits)
  then show ?thesis
    using raw_lines_ended [of "header_lines b @ [] # map package_line (os_Packages b)" "[]"]
    by (simp add: text_Write_ended)
qed

lemma Scan_Inr:
  assumes "Scan env encode dec cl fs args = Inr out"
  obtains vs path rest eco content parsed where
    "flag_Parse scan_flags [(''format'', ''text'')] args = Inr (vs, path # rest)"
    "resolveEcosystem (flag_value vs ''ecosystem'') path = Some eco" "fs path = Some content"
    "parse_as dec cl fs path eco content = Inr parsed"
    "case output_Get (flag_value vs ''format'') of
       None \<Rightarrow> False
     | Some Text \<Rightarrow> out = text_Write (out_shape env (flag_value vs ''component-ref'') (flag_value vs ''commit-sha'') parsed)
     | Some JSON \<Rightarrow> encode (json_Write (out_shape env (flag_value vs ''component-ref'') (flag_value vs ''commit-sha'') parsed)) = Some out
     | Some SARIF \<Rightarrow> encode (sarif_Write (out_shape env (flag_value vs ''component-ref'') (flag_value vs ''commit-sha'') parsed)) = Some out"
  using assms unfolding Scan_def Let_def
  by (auto split: sum.splits prod.splits list.splits option.splits formatter.splits)

lemma out_shape_simps [simp]:
  "os_Packages (out_shape env ref sha parsed) = ps_Packages parsed" "os_Ecosystem (out_shape env ref sha parsed) = ps_Ecosystem parsed"
  "os_SourceFormat (out_shape env ref sha parsed) = ps_SourceFormat parsed"
  by (simp_all add: out_shape_def Let_def)

lemma ingested_simps:
  "ingested env parsed ref sha = \<lparr>sbom_ID = e_ulid env 0, sbom_ComponentRef = ref, sbom_CommitSHA = sha,
     sbom_Ecosystem = ps_Ecosystem parsed, sbom_GeneratedAt = e_now env 1, sbom_Packages = ps_Packages parsed,
     sbom_SourceFormat = ps_SourceFormat parsed, sbom_SourceBytes = ps_SourceBytes parsed\<rparr>"
  by (simp add: ingested_def Ingest_def ulid_Make_def time_Now_def ret_def State_Monad.bind_def State_Monad.return_def)

definition scanned_lockfile :: npm_lockfile where
  "scanned_lockfile = \<lparr>lf_Name = ''web'', lf_Version = ''1.0.0'', lf_LockfileVersion = 3, lf_Requires = True,
     lf_Packages = Some [(''node_modules/axios'', \<lparr>lp_Version = ''1.11.0'', lp_Resolved = [], lp_Integrity = [],
       lp_Dev = False, lp_Optional = False, lp_Peer = False, lp_Link = False\<rparr>)]\<rparr>"

definition sample_decoders :: decoders where
  "sample_decoders = \<lparr>dec_npm = (\<lambda>_. Some scanned_lockfile), dec_cargo = (\<lambda>_. None), dec_pypi = (\<lambda>_. None), dec_pom = (\<lambda>_. None)\<rparr>"

definition sample_parsed :: parsed_sbom where
  "sample_parsed = \<lparr>ps_Ecosystem = ''npm'', ps_Packages = [mk_package ''npm'' ''axios'' ''1.11.0'' [] []],
     ps_SourceFormat = ''npm-package-lock-v3'', ps_SourceBytes = 2\<rparr>"

section \<open>Properties\<close>





text \<open>
  The pre-commit hook stops no lockfile the engine accepts, and a lockfile it lets through is not refused for its version: when the
  hook's decoder reads the version wherever the engine's decoder reads the file, every file the npm parser accepts passes the
  hook, and a file that passes is either accepted or refused as undecodable or empty.
\<close>

theorem precommit_agrees:
  assumes "\<forall>c lf. decode c = Some lf \<longrightarrow> minimal c = Some (lf_LockfileVersion lf)" and "fs path = Some content"
  shows "(case npm_Parse None \<rho> decode content of
      Inr _ \<Rightarrow> hook_main minimal fs [path] = 0
    | Inl e \<Rightarrow> hook_main minimal fs [path] = 0 \<longrightarrow> e \<in> {MalformedDocument, EmptyLockfile})"
proof (cases "decode content")
  case (Some lf)
  then have "minimal content = Some (lf_LockfileVersion lf)" using assms(1) by simp
  with Some assms(2) show ?thesis by (simp add: npm_Parse_def hook_main_def hook_check_def split: option.split)
qed (simp add: npm_Parse_def)

theorem precommit_agrees_witness:
  "hook_main (\<lambda>_. Some 3) [''package-lock.json'' \<mapsto> ''{}''] [''package-lock.json''] = 0"
proof -
  have "\<forall>c lf. (\<lambda>_ :: string. Some scanned_lockfile) c = Some lf \<longrightarrow> (\<lambda>_ :: string. Some 3) c = Some (lf_LockfileVersion lf)"
    by (simp add: scanned_lockfile_def)
  from precommit_agrees [OF this, of "[''package-lock.json'' \<mapsto> ''{}'']" "''package-lock.json''" "''{}''" "\<lambda>n. [0..<n]"]
  show ?thesis by (simp add: npm_Parse_def scanned_lockfile_def)
qed

end
