(* ===== verification/Lifecycle.thy ===== *)
theory Lifecycle
  imports Settings Cli
begin

text \<open>
  The engine as a process: the timer loops \<^verbatim>\<open>Scheduler.Run\<close> (\<^verbatim>\<open>engine/publisher\<close>) and \<^verbatim>\<open>Orchestrator.Run\<close>
  (\<^verbatim>\<open>engine/anomaly\<close>), and \<^verbatim>\<open>App.Run\<close>, \<^verbatim>\<open>runServer\<close> and \<^verbatim>\<open>Main\<close> of \<^verbatim>\<open>engine/internal/app\<close>, which start and stop them.

  A loop may run forever, so it is a partial function: \<open>None\<close> is a loop that never returns. What its \<^verbatim>\<open>select\<close> gets in each
  turn is a function of the turn, and so is what the rest of the engine does to the shared state while the loop waits.
\<close>

section \<open>Timer loops\<close>

datatype wake = Done error | Fires

partial_function (option) timer_loop ::
    "('x \<Rightarrow> 'x) \<Rightarrow> (nat \<Rightarrow> 'x \<Rightarrow> 'x) \<Rightarrow> (nat \<Rightarrow> wake) \<Rightarrow> nat \<Rightarrow> 'x \<Rightarrow> (error \<times> 'x) option" where
  "timer_loop tick others wakes k s =
     (case wakes k of
        Done e \<Rightarrow> Some (e, others k s)
      | Fires \<Rightarrow> timer_loop tick others wakes (Suc k) (tick (others k s)))"

text \<open>The errors of ticks are logged and otherwise ignored. The first tick comes before the timer is started.\<close>

definition scheduler_Run :: "env \<Rightarrow> 's storage \<Rightarrow> scheduler \<Rightarrow> (nat \<Rightarrow> 's sys \<Rightarrow> 's sys) \<Rightarrow> (nat \<Rightarrow> wake) \<Rightarrow> 's sys \<Rightarrow>
    (error \<times> 's sys) option" where
  "scheduler_Run env ops sch others wakes s =
     (let tick = (\<lambda>s. snd (run_state (scheduler_Tick env ops sch) s)) in timer_loop tick others wakes 0 (tick s))"

definition orchestrator_Run :: "('c, 'v) semver \<Rightarrow> env \<Rightarrow> 's storage \<Rightarrow> orchestrator \<Rightarrow> (int \<Rightarrow> string) \<Rightarrow>
    (nat \<Rightarrow> 's sys \<Rightarrow> 's sys) \<Rightarrow> (nat \<Rightarrow> wake) \<Rightarrow> 's sys \<Rightarrow> (error \<times> 's sys) option" where
  "orchestrator_Run sv env ops orc mustNew others wakes s =
     (let tick = (\<lambda>s. snd (run_state (orchestrator_Tick sv env ops orc mustNew) s)) in timer_loop tick others wakes 0 (tick s))"

text \<open>The state after the first tick and \<open>n\<close> more, each after what the others did.\<close>

fun after_ticks :: "('x \<Rightarrow> 'x) \<Rightarrow> (nat \<Rightarrow> 'x \<Rightarrow> 'x) \<Rightarrow> nat \<Rightarrow> 'x \<Rightarrow> 'x" where
  "after_ticks tick others 0 s = tick s"
| "after_ticks tick others (Suc n) s = tick (others n (after_ticks tick others n s))"

lemma timer_loop_returns:
  assumes "wakes n = Done e" and "\<forall>k < n. wakes k = Fires"
  shows "k \<le> n \<Longrightarrow> timer_loop tick others wakes k (after_ticks tick others k s) =
    Some (e, others n (after_ticks tick others n s))"
proof (induction "n - k" arbitrary: k)
  case 0
  then show ?case using assms(1) by (simp add: timer_loop.simps)
next
  case (Suc d)
  then have "wakes k = Fires" "d = n - Suc k" "Suc k \<le> n" using assms(2) by simp_all
  with Suc.hyps(1) [of "Suc k"] show ?case by (simp add: timer_loop.simps [of _ _ _ k])
qed

lemma timer_loop_stops: "timer_loop tick others wakes k s = Some r \<Longrightarrow> \<exists>n e. wakes n = Done e"
proof (erule timer_loop.raw_induct [rotated])
  fix loop tick and others :: "nat \<Rightarrow> 'a \<Rightarrow> 'a" and wakes k s r
  assume "\<And>tick others wakes k s r. loop tick others wakes k s = Some r \<Longrightarrow> \<exists>n e. wakes n = Done e"
    and "(case wakes k of Done e \<Rightarrow> Some (e, others k s) | Fires \<Rightarrow> loop tick others wakes (Suc k) (tick (others k s))) = Some r"
  then show "\<exists>n e. wakes n = Done e" by (cases "wakes k") auto
qed

lemma first_done:
  fixes wakes :: "nat \<Rightarrow> wake"
  assumes "wakes m = Done e'"
  shows "\<exists>n e. wakes n = Done e \<and> (\<forall>k < n. wakes k = Fires)"
proof -
  let ?n = "LEAST n. wakes n \<noteq> Fires"
  have "wakes ?n \<noteq> Fires" by (rule LeastI [of _ m]) (simp add: assms)
  then obtain e where "wakes ?n = Done e" by (cases "wakes ?n") auto
  moreover have "\<forall>k < ?n. wakes k = Fires" using not_less_Least by blast
  ultimately show ?thesis by blast
qed

section \<open>The process\<close>

datatype part = SchedulerLoop | OrchestratorLoop

datatype step = Listening string | Started part | ShutDown | Stopped part | StorageClosed

text \<open>Why \<^verbatim>\<open>App.Run\<close> returns: the server failed, it was closed, or the context was cancelled and \<^verbatim>\<open>Shutdown\<close> answered.\<close>

datatype run_event = ServeError string | ServeClosed | Cancelled "string option"

datatype run_error = BootFailed boot_error | ListenFailed string | ServeFailed string | ShutdownFailed string

text \<open>The deferred stop functions run in reverse order; that of a loop which was not started does nothing.\<close>

definition app_Run :: "(string \<Rightarrow> string option) \<Rightarrow> (app \<Rightarrow> scheduler option) \<Rightarrow> (app \<Rightarrow> orchestrator option) \<Rightarrow> run_event \<Rightarrow> app \<Rightarrow>
    run_error option \<times> step list" where
  "app_Run listen start_scheduler start_orchestrator ev a =
     (case listen (a_addr a) of
        Some e \<Rightarrow> (Some (ListenFailed e), [])
      | None \<Rightarrow>
          (let sch = (if start_scheduler a = None then [] else [SchedulerLoop]);
               orc = (if start_orchestrator a = None then [] else [OrchestratorLoop]);
               up = Listening (a_addr a) # map Started sch @ map Started orc;
               down = map Stopped orc @ map Stopped sch
           in case ev of
                ServeError e \<Rightarrow> (Some (ServeFailed e), up @ down)
              | ServeClosed \<Rightarrow> (None, up @ down)
              | Cancelled e \<Rightarrow> (map_option ShutdownFailed e, up @ [ShutDown] @ down)))"

definition runServer :: "(config \<Rightarrow> boot_error + app) \<Rightarrow> (app \<Rightarrow> run_error option \<times> step list) \<Rightarrow> config \<Rightarrow> run_error option \<times> step list" where
  "runServer boot_app run cfg =
     (case boot_app cfg of
        Inl e \<Rightarrow> (Some (BootFailed e), [])
      | Inr a \<Rightarrow> (case run a of (err, steps) \<Rightarrow> (err, steps @ [StorageClosed])))"

datatype main_outcome = ParsedSBOM "scan_error + string" | Served "run_error option \<times> step list"

definition app_Main :: "(string list \<Rightarrow> scan_error + string) \<Rightarrow> (unit \<Rightarrow> run_error option \<times> step list) \<Rightarrow> string list \<Rightarrow> main_outcome" where
  "app_Main parse_sbom serve args =
     (case args of
        sub # rest \<Rightarrow> if sub = ''parse-sbom'' then ParsedSBOM (parse_sbom rest) else Served (serve ())
      | [] \<Rightarrow> Served (serve ()))"

section \<open>Properties\<close>

text \<open>
  C26. The background loops stop when they are told to, and only then. Each of the two loops returns exactly when its context is done
  at some turn. It then returns the error of the context, having ticked once at the start and once for every turn the timer
  fired before, on the state as the rest of the engine left it, whether or not a tick failed.
\<close>

theorem background_loops_stop:
  fixes ops :: "'s storage"
  shows "((\<exists>r. scheduler_Run env ops sch others wakes s = Some r) \<longleftrightarrow> (\<exists>n e. wakes n = Done e)) \<and>
    ((\<exists>r. orchestrator_Run sv env ops orc mustNew others wakes s = Some r) \<longleftrightarrow> (\<exists>n e. wakes n = Done e)) \<and>
    (\<forall>n e. wakes n = Done e \<and> (\<forall>k < n. wakes k = Fires) \<longrightarrow>
      scheduler_Run env ops sch others wakes s =
        Some (e, others n (after_ticks (\<lambda>s. snd (run_state (scheduler_Tick env ops sch) s)) others n s)) \<and>
      orchestrator_Run sv env ops orc mustNew others wakes s =
        Some (e, others n (after_ticks (\<lambda>s. snd (run_state (orchestrator_Tick sv env ops orc mustNew) s)) others n s)))"
proof -
  have run: "timer_loop tick others wakes 0 (tick s) = Some (e, others n (after_ticks tick others n s))"
    if "wakes n = Done e" "\<forall>k < n. wakes k = Fires" for tick n e
    using timer_loop_returns [OF that, of 0 tick others s] by simp
  have "(\<exists>r. timer_loop tick others wakes 0 (tick s) = Some r) \<longleftrightarrow> (\<exists>n e. wakes n = Done e)" for tick
    using run first_done timer_loop_stops by metis
  then show ?thesis using run unfolding scheduler_Run_def orchestrator_Run_def Let_def by blast
qed

theorem background_loops_stop_witness:
  "\<exists>s. scheduler_Run sample_env memory \<lparr>sch_ingestors = [], sch_refreshInterval = Hour, sch_batchSize = 50\<rparr> (\<lambda>_ s. s)
     (\<lambda>k. if k < 2 then Fires else Done ErrContext) sample_sys = Some (ErrContext, s)"
  using background_loops_stop [of sample_env memory "\<lparr>sch_ingestors = [], sch_refreshInterval = Hour, sch_batchSize = 50\<rparr>"
      "\<lambda>_ s. s" "\<lambda>k. if k < 2 then Fires else Done ErrContext" sample_sys, THEN conjunct2, THEN conjunct2, rule_format, of 2 ErrContext]
  by auto



end
