(* ===== verification/Spec2Isabelle.thy ===== *)
theory Spec2Isabelle
  imports Sidecar Postgres Lifecycle
begin

text \<open>
  Verification of the rampart engine, which watches the software inventory of an organisation for packages known to
  be compromised.

  \<^bold>\<open>The program.\<close> A component (a service of the organisation) submits its lockfile; a parser turns it into an SBOM, the
  list of packages it depends on; the SBOM is stored and matched against every known indicator of compromise (IoC).
  A newly published IoC is matched against every stored SBOM. Each match opens an incident for the component unless one
  is already open, and incidents go through a small state machine with a log of remediations. Events of all this go
  through a bus to streaming clients. Beside the requests two jobs run: a scheduler refreshes snapshots of the publishers
  of packages from npm and GitHub, and an orchestrator runs anomaly detectors over these snapshots and publishes
  what they find as IoCs.

  \<^bold>\<open>The theories\<close>, with the sources under \<^verbatim>\<open>src/\<close> they model.

  \<^item> \<open>Prelude\<close>: what the code uses of Go: byte strings and package \<^verbatim>\<open>strings\<close>, decimal numbers, maps as association
    lists, \<^verbatim>\<open>sort.Slice\<close> as a stable insertion sort with the locale \<open>comparator\<close>, walks of a map in an arbitrary order,
    times in nanoseconds, 64-bit arithmetic.
  \<^item> \<open>Domain\<close>: \<^verbatim>\<open>engine/internal/domain\<close>. Entities are records; component references, purls, validation of IoCs and
    remediations, the incident state machine, the events.
  \<^item> \<open>Matcher\<close>: \<^verbatim>\<open>engine/internal/matcher\<close>, over the parameter \<open>semver\<close> for the semantic-version library.
  \<^item> \<open>Storage\<close>: \<^verbatim>\<open>engine/internal/storage\<close> and \<^verbatim>\<open>storage/memory\<close>. The interface is a record of 28 operations;
    the locale \<open>storage_contract\<close> states what the engine relies on, as a simulation of an abstract database of four maps.
  \<^item> \<open>Postgres\<close>: \<^verbatim>\<open>engine/internal/storage/postgres\<close>. The same 28 operations, statement by statement on explicit tables,
    with what remains when a statement fails. Both backends interpret \<open>storage_contract\<close>.
  \<^item> \<open>EventBus\<close>: \<^verbatim>\<open>engine/internal/events\<close>, with bounded subscriber channels and dropped events.
  \<^item> \<open>Runtime\<close>: the state and the environment of a running engine and a state monad with a weakest precondition.
    Every storage call, clock reading, fresh identifier and map walk takes a tick; the environment says for each
    tick what it answers, so that every cancellation, clock and map order is covered.
  \<^item> \<open>Matching\<close>: \<^verbatim>\<open>engine/internal/api/matching.go\<close> and \<^verbatim>\<open>engine/internal/iocforward\<close>; its lemmas are proved
    inside \<open>storage_contract\<close>, for any backend.
  \<^item> \<open>Lockfiles\<close>: \<^verbatim>\<open>engine/sbom\<close>: npm, Go modules, Cargo, PyPI and Maven/Gradle; locale \<open>lockfile_parser\<close>.
  \<^item> \<open>Api\<close>, \<open>Handlers\<close>, \<open>Frames\<close>: \<^verbatim>\<open>engine/api/gen\<close> (wire types), \<^verbatim>\<open>engine/internal/api\<close> (handlers) and
    \<^verbatim>\<open>engine/ingestion\<close>; the locales \<open>frame\<close> and \<open>incident_frame\<close> say what requests leave alone.
  \<^item> \<open>Paths\<close>, \<open>Routing\<close>: what the code uses of \<^verbatim>\<open>path\<close>, \<^verbatim>\<open>net/url\<close> and \<^verbatim>\<open>http.ServeMux\<close>; the route table and the
    parameter-binding wrappers of \<^verbatim>\<open>engine/api/gen\<close>. \<open>ServeHTTP\<close> takes a request through middlewares, router and binding to its handler.
  \<^item> \<open>Access\<close>: \<^verbatim>\<open>engine/internal/api/middleware\<close> and \<^verbatim>\<open>handlers_auth.go\<close>, over the parameter \<open>jwt_lib\<close>.
  \<^item> \<open>Detectors\<close>, \<open>Orchestrator\<close>: \<^verbatim>\<open>engine/anomaly\<close>; locale \<open>anomaly_storage\<close>.
  \<^item> \<open>Publisher\<close>: \<^verbatim>\<open>engine/publisher\<close>: the retrying HTTP client, both ingestors (locale \<open>ingestor_contract\<close>), the scheduler.
  \<^item> \<open>Sidecar\<close>: \<^verbatim>\<open>engine/internal/ingestion/native\<close> and the protocol of \<^verbatim>\<open>native/crates/rampart-native\<close>.
  \<^item> \<open>Streaming\<close>: \<^verbatim>\<open>engine/internal/api/sse.go\<close>, \<^verbatim>\<open>Server.Stream\<close> and \<^verbatim>\<open>integrations/slack-notifier\<close>: the bytes of an
    event stream, written by a loop that interleaves with the bus (\<open>streaming\<close>) and read back by the notifier.
  \<^item> \<open>Settings\<close>: \<^verbatim>\<open>engine/internal/config\<close> and the wiring of \<^verbatim>\<open>engine/internal/app\<close>.
  \<^item> \<open>Lifecycle\<close>: the timer loops \<^verbatim>\<open>Scheduler.Run\<close> and \<^verbatim>\<open>Orchestrator.Run\<close>, and \<^verbatim>\<open>App.Run\<close>, \<^verbatim>\<open>runServer\<close> and \<^verbatim>\<open>Main\<close>.
  \<^item> \<open>Cli\<close>: \<^verbatim>\<open>cli\<close>, the \<^verbatim>\<open>parse-sbom\<close> subcommand of \<^verbatim>\<open>engine/internal/app\<close> and \<^verbatim>\<open>integrations/precommit-hook\<close>.
  \<^item> This theory puts the engine together: requests and jobs in any order on a fresh store.

  \<^bold>\<open>What is shown.\<close> Detection is complete and free of duplicates on both backends (here, from the specifications of \<open>Matching\<close> and
  \<open>Handlers\<close>); the two ways the code matches agree; each handler does what it says on every branch; both backends refine
  one abstract database, and the schema of the tables holds whichever statements fail; the state machine admits exactly
  its table; parsers emit well-formed, sorted inventories and round-trip through their printers; the bus never blocks
  and loses only what overflows; detectors fire exactly when specified, within 64 bits; the HTTP client
  stops and its delays are bounded; authentication passes exactly vouched-for tokens, and behind the router nothing
  else can change the store; every route is reachable with every parameter; the background loops stop exactly when they are told to; the client of the Rust parser
  and its server understand each other and survive any bytes; a reader of the event stream gets the events published, in order and
  whole, wherever the connection breaks, and the notifier one message per incident; no environment variable breaks the limits of
  the engine; the command line prints what the parsers found and agrees with the engine's subcommand. Some theorems show flaws: a transition loses a concurrent
  remediation in memory, anomalies of one tick share an IoC, the publisher graph never starts, an
  IoC's identifier can forge an event.

  \<^bold>\<open>Parameters\<close> stand for code outside the repository: the decoders of JSON, TOML and XML, the JWT and semver libraries,
  the network, the database server's faults, collation and JSON normalisation, files, process environments, clocks and identifiers (\<open>env\<close>). A call the
  environment does not disturb has \<^verbatim>\<open>c_err = None\<close>; \<open>quiet env\<close> says this of every call, together with fresh identifiers.

  \<^bold>\<open>Bounds.\<close> There is no fuel: loops recurse over lists, and the retry loop over the attempts left. The timer loops, which may
  run forever, are partial functions whose value says whether they return; every other definition is total.
  64-bit integers wrap where the code computes with data from outside (versions, delays, frame lengths); lengths of
  collections are natural numbers.

  \<^bold>\<open>Not modelled.\<close> Goroutines as such (jobs and loop turns interleave as steps instead), logging, the
  connection pool and migrations, the union accessors and embedded document of the generated code, the Rust parsers
  (parameters of the bridge), the trust engine (a placeholder nothing calls), test code, demos and the TypeScript user interface.
\<close>

section \<open>The engine with its npm parser and in-memory backend\<close>

definition npm_parser :: "(string \<Rightarrow> npm_lockfile option) \<Rightarrow> sbom_parser" where
  "npm_parser unmarshal cl content = npm_Parse (c_err cl) (c_order cl) unmarshal content"

lemma npm_parser_ok: "parser_ok (npm_parser unmarshal)"
  unfolding parser_ok_def npm_parser_def using npm.uniform_packages by blast

definition boot :: "int \<Rightarrow> store sys" where
  "boot n = \<lparr>sys_store = mem_New, sys_bus = NewBus n, sys_tick = 0\<rparr>"

lemma boot_good: "mem.good sv env (boot n)"
  by (simp add: mem.good_def mem.ready_def boot_def ids_fresh_def engine_ok_def detected_def
      single_open_def sboms_ok_def)
    (simp add: mem_New_def ran_def)

definition pg_boot :: "int \<Rightarrow> tables sys" where
  "pg_boot n = \<lparr>sys_store = migrated, sys_bus = NewBus n, sys_tick = 0\<rparr>"

lemma pg_boot_good: "pg.good sv env (pg_boot n)"
proof -
  have "store_ok mem_New" "mem.good sv env (boot n)" using boot_good by (simp_all add: mem.good_def mem.ready_def boot_def)
  moreover have "pg_ok migrated" "pg_abs migrated = coarse (mem_abs mem_New)"
    using in_step_new by (simp_all add: in_step_def)
  moreover have "coarse (mem_abs mem_New) = mem_abs mem_New"
    by (simp add: coarse_def mem_abs_def mem_New_def fun_eq_iff)
  ultimately show ?thesis
    by (simp add: mem.good_def mem.ready_def pg.good_def pg.ready_def boot_def pg_boot_def)
qed

section \<open>Requests and background jobs\<close>

text \<open>
  What happens to a running engine, one thing at a time: a request is served, the refresh scheduler
  ticks, or the anomaly orchestrator ticks.
\<close>

datatype job = Serve time url_request | Refresh | Evaluate_anomalies

definition run_job :: "('c, 'v) semver \<Rightarrow> sbom_parser \<Rightarrow> (int \<Rightarrow> string) \<Rightarrow> env \<Rightarrow> 's storage \<Rightarrow> server \<Rightarrow>
    scheduler \<Rightarrow> orchestrator \<Rightarrow> job \<Rightarrow> ('s, unit) act" where
  "run_job sv parse mustNew env ops srv sch orc j =
     (case j of
        Serve now r \<Rightarrow> do { _ \<leftarrow> ServeHTTP sv parse env ops srv now r; ret () }
      | Refresh \<Rightarrow> do { _ \<leftarrow> scheduler_Tick env ops sch; ret () }
      | Evaluate_anomalies \<Rightarrow> do { _ \<leftarrow> orchestrator_Tick sv env ops orc mustNew; ret () })"

fun run_jobs :: "('c, 'v) semver \<Rightarrow> sbom_parser \<Rightarrow> (int \<Rightarrow> string) \<Rightarrow> env \<Rightarrow> 's storage \<Rightarrow> server \<Rightarrow>
    scheduler \<Rightarrow> orchestrator \<Rightarrow> job list \<Rightarrow> ('s, unit) act" where
  "run_jobs sv parse mustNew env ops srv sch orc [] = ret ()"
| "run_jobs sv parse mustNew env ops srv sch orc (j # js) = do {
     _ \<leftarrow> run_job sv parse mustNew env ops srv sch orc j;
     run_jobs sv parse mustNew env ops srv sch orc js
   }"

definition job_names_ecosystem :: "server \<Rightarrow> job \<Rightarrow> bool" where
  "job_names_ecosystem srv j = (case j of Serve _ r \<Rightarrow> names_ecosystem srv r | _ \<Rightarrow> True)"

lemma snapshot_good:
  assumes "mem.good sv env s" and "sys_tick s \<le> t"
  shows "mem.good sv env (s\<lparr>sys_store := snd (mem_SavePublisherSnapshot c x (sys_store s)), sys_tick := t\<rparr>)"
proof -
  have "mem_abs (snd (mem_SavePublisherSnapshot c x (sys_store s))) = mem_abs (sys_store s)"
    by (simp add: mem_SavePublisherSnapshot_def mem_abs_def Let_def)
  then show ?thesis
    using assms store_ok_SavePublisherSnapshot [of "sys_store s" c x]
    by (auto simp: mem.good_def mem.ready_def ids_fresh_def)
qed

lemma refresh_refs_good:
  "mem.good sv env s \<Longrightarrow> wp (refresh_refs env memory sch refs n) (\<lambda>_. mem.good sv env) s"
proof (induction refs arbitrary: n s)
  case (Cons ref refs)
  let ?d = "dispatch (e_order env (Suc (sys_tick s))) (sch_ingestors sch) ref"
  have tick: "mem.good sv env (s\<lparr>sys_tick := t\<rparr>)" if "sys_tick s \<le> t" for t
    using Cons.prems that by simp
  have save: "mem.good sv env (s\<lparr>sys_store := snd (mem_SavePublisherSnapshot c x (sys_store s)), sys_tick := t\<rparr>)"
    if "sys_tick s \<le> t" for c x t
    using snapshot_good [OF Cons.prems that] .
  show ?case
    using Cons.IH tick save by (cases ?d) (auto split: option.split sum.split)
qed simp

lemma job_good:
  assumes "quiet env" and "\<forall>n. \<not> IsZero (e_now env n)" and "parser_ok parse"
    and "mem.good sv env s" and "job_names_ecosystem srv j"
  shows "wp (run_job sv parse mustNew env memory srv sch orc j) (\<lambda>_. mem.good sv env) s"
proof (cases j)
  case (Serve now r)
  then show ?thesis
    using mem.http_good [OF assms(1,3,4)] assms(5) by (simp add: run_job_def job_names_ecosystem_def)
next
  case Refresh
  have "wp (scheduler_Tick env memory sch) (\<lambda>_. mem.good sv env) s"
    using refresh_refs_good [of sv env "s\<lparr>sys_tick := Suc (Suc (sys_tick s))\<rparr>"] assms(4)
    by (auto simp: scheduler_Tick_def split: sum.split)
  then show ?thesis by (simp add: run_job_def Refresh)
next
  case Evaluate_anomalies
  have "wp (orchestrator_Tick sv env memory orc mustNew) (\<lambda>_. mem.good sv env) s"
    by (rule wp_mono [OF anom.tick_ticking [OF assms(1) _ assms(4)]]) (use assms(2) in auto)
  then show ?thesis by (simp add: run_job_def Evaluate_anomalies)
qed

lemma jobs_good:
  assumes "quiet env" and "\<forall>n. \<not> IsZero (e_now env n)" and "parser_ok parse"
  shows "mem.good sv env s \<Longrightarrow> list_all (job_names_ecosystem srv) js \<Longrightarrow>
    wp (run_jobs sv parse mustNew env memory srv sch orc js) (\<lambda>_. mem.good sv env) s"
proof (induction js arbitrary: s)
  case (Cons j js)
  have "wp (run_job sv parse mustNew env memory srv sch orc j)
      (\<lambda>_. wp (run_jobs sv parse mustNew env memory srv sch orc js) (\<lambda>_. mem.good sv env)) s"
    by (rule wp_mono [OF job_good [OF assms Cons.prems(1)]]) (use Cons in auto)
  then show ?case by simp
qed simp

section \<open>Properties\<close>


lemma sample_names_ecosystem: "names_ecosystem sample_server (post path)"
  by (auto simp: names_ecosystem_def sample_server_def sample_bodies_def toGenIoC_def sample_ioc_def split: mux_result.split operation.split)

definition idle_scheduler :: scheduler where
  "idle_scheduler = \<lparr>sch_ingestors = [], sch_refreshInterval = Hour, sch_batchSize = 50\<rparr>"




text \<open>
  C25. The publisher graph never starts. From an empty store no sequence of requests, refreshes and evaluations,
  in any environment, ever records a publisher snapshot or an anomaly: the scheduler refreshes only packages
  that already have a snapshot, and it is the only part that writes one. (Its comment says that the first
  tick populates the state of a freshly started engine.)
\<close>

theorem publisher_graph_never_starts:
  assumes "\<forall>n. is_order (e_order env n)"
  shows "wp (run_jobs sv parse mustNew env memory srv sch orc jobs)
    (\<lambda>_ s. publisherHistory (sys_store s) = [] \<and> anomalies (sys_store s) = []) (boot n)"
proof -
  let ?p = "([], [], [])"
  have none: "mem_ListPackagesNeedingRefresh (call_at env k) t l s = with_err (call_at env k) []"
    if "publisher_state s = ?p" for k t l s
  proof -
    have "set (in_order (e_order env k) (publisherHistory s)) = {}"
      using that assms by (simp add: publisher_state_def)
    then show ?thesis by (simp add: mem_ListPackagesNeedingRefresh_def sort_slice_def call_at_def)
  qed
  have tick: "keeps (\<lambda>s. publisher_state s = ?p) (scheduler_Tick env memory sch)"
      "keeps (\<lambda>s. publisher_state s = ?p) (orchestrator_Tick sv env memory orc mustNew)"
    by (simp_all add: keeps_def scheduler_Tick_def orchestrator_Tick_def none with_err_def split: option.split)
  have job: "keeps (\<lambda>s. publisher_state s = ?p) (run_job sv parse mustNew env memory srv sch orc j)" for j
    unfolding run_job_def by (cases j) (auto intro!: keeps_intros requests.keeps_http tick)
  have k: "keeps (\<lambda>s. publisher_state s = ?p) (run_jobs sv parse mustNew env memory srv sch orc jobs)"
    by (induction jobs) (auto intro!: keeps_intros job)
  have b: "publisher_state (sys_store (boot n)) = ?p"
    by (simp add: publisher_state_def boot_def mem_New_def)
  show ?thesis
    by (rule wp_mono [OF keeps_wp [OF k b]]) (simp add: publisher_state_def)
qed

theorem publisher_graph_never_starts_witness:
  "wp (run_jobs sample_semver (npm_parser (\<lambda>_. Some sample_lockfile)) (\<lambda>_. ''I'') sample_env memory
      sample_server idle_scheduler sample_orchestrator [Refresh, Evaluate_anomalies])
    (\<lambda>_ s. publisherHistory (sys_store s) = []) (boot 16)"
proof -
  have "\<forall>n. is_order (e_order sample_env n)" by (simp add: sample_env_def is_order_upt)
  then show ?thesis
    by (intro wp_mono [OF publisher_graph_never_starts]) simp_all
qed

end
